(* ===== verification/Rust_Prelude.thy ===== *)
theory Rust_Prelude
  imports Main
begin

section \<open>What the Rust standard library gives the modelled code\<close>

text \<open>
  The types and the string functions every component shares.

  \<^item> A Rust \<open>String\<close> or \<open>&str\<close> is the list of its UTF-8 bytes, an Isabelle \<open>string\<close>
    (a \<open>char\<close> of Isabelle is one byte). \<open>len\<close>, \<open>find\<close>, \<open>starts_with\<close> and byte slices
    are the list functions; what the library does by scalar value (\<open>chars\<close>, \<open>trim\<close>)
    goes through \<open>chars\<close>, which cuts the bytes into UTF-8 sequences.
  \<^item> \<open>Result<T, E>\<close> is the sum type \<open>'e + 't\<close> with \<open>Inl\<close> for \<open>Err\<close> and \<open>Inr\<close> for \<open>Ok\<close>.
  \<^item> A \<open>Vec<T>\<close> is a list. An index or slice out of range panics in Rust, so where the code
    cannot be seen to stay in range the model returns an \<open>option\<close>, with \<open>None\<close> for the panic.
\<close>

named_theorems str_simps \<open>equations of the string functions used to evaluate and to rewrite\<close>
named_theorems progress_intros \<open>a parser step that succeeds consumes input\<close>

subsection \<open>Lists\<close>

text \<open>\<open>starts_with\<close>, \<open>strip_prefix\<close> and their mirror images; on bytes they are list functions.\<close>

fun strip_prefix :: "'a list \<Rightarrow> 'a list \<Rightarrow> 'a list option" where
  "strip_prefix [] s = Some s"
| "strip_prefix (p # ps) [] = None"
| "strip_prefix (p # ps) (c # cs) = (if p = c then strip_prefix ps cs else None)"

definition starts_with :: "'a list \<Rightarrow> 'a list \<Rightarrow> bool" where
  "starts_with s p \<longleftrightarrow> strip_prefix p s \<noteq> None"

definition strip_suffix :: "'a list \<Rightarrow> 'a list \<Rightarrow> 'a list option" where
  "strip_suffix p s = map_option rev (strip_prefix (rev p) (rev s))"

definition ends_with :: "'a list \<Rightarrow> 'a list \<Rightarrow> bool" where
  "ends_with s p \<longleftrightarrow> strip_suffix p s \<noteq> None"

lemma strip_prefix_Some: "strip_prefix p s = Some r \<longleftrightarrow> s = p @ r"
  by (induction p s rule: strip_prefix.induct) auto

lemma strip_prefix_None: "strip_prefix p s = None \<longleftrightarrow> (\<forall>r. s \<noteq> p @ r)"
  using strip_prefix_Some [of p s] by (cases "strip_prefix p s") auto

lemma strip_prefix_append [simp]: "strip_prefix p (p @ r) = Some r"
  by (simp add: strip_prefix_Some)

lemma starts_with_iff: "starts_with s p \<longleftrightarrow> (\<exists>r. s = p @ r)"
  by (auto simp: starts_with_def strip_prefix_Some)

lemma starts_with_append [simp]: "starts_with (p @ r) p"
  by (auto simp: starts_with_iff)

lemma strip_suffix_Some: "strip_suffix p s = Some r \<longleftrightarrow> s = r @ p"
proof -
  have "strip_suffix p s = Some r \<longleftrightarrow> rev s = rev p @ rev r"
    by (auto simp: strip_suffix_def strip_prefix_Some)
  then show ?thesis by (simp flip: rev_append)
qed

lemma strip_suffix_append [simp]: "strip_suffix p (r @ p) = Some r"
  by (simp add: strip_suffix_Some)

lemma ends_with_iff: "ends_with s p \<longleftrightarrow> (\<exists>r. s = r @ p)"
  by (auto simp: ends_with_def strip_suffix_Some)

text \<open>\<open>str::find\<close>: the position of the leftmost occurrence.\<close>

fun str_find :: "'a list \<Rightarrow> 'a list \<Rightarrow> nat option" where
  "str_find p [] = (if p = [] then Some 0 else None)"
| "str_find p (c # cs) =
     (if starts_with (c # cs) p then Some 0 else map_option Suc (str_find p cs))"

definition str_contains :: "'a list \<Rightarrow> 'a list \<Rightarrow> bool" where
  "str_contains s p \<longleftrightarrow> str_find p s \<noteq> None"

text \<open>What \<open>find\<close> returns, in terms of the places where the pattern occurs.\<close>

definition occurs_at :: "'a list \<Rightarrow> 'a list \<Rightarrow> nat \<Rightarrow> bool" where
  "occurs_at p s i \<longleftrightarrow> (\<exists>u v. s = u @ p @ v \<and> length u = i)"

lemma occurs_at_0: "occurs_at p s 0 \<longleftrightarrow> starts_with s p"
  by (auto simp: occurs_at_def starts_with_iff)

lemma occurs_at_Suc: "occurs_at p (c # s) (Suc i) \<longleftrightarrow> occurs_at p s i"
proof
  assume "occurs_at p (c # s) (Suc i)"
  then obtain u v where "c # s = u @ p @ v" "length u = Suc i" by (auto simp: occurs_at_def)
  then show "occurs_at p s i" by (cases u) (auto simp: occurs_at_def)
next
  assume "occurs_at p s i"
  then obtain u v where "s = u @ p @ v" "length u = i" by (auto simp: occurs_at_def)
  then show "occurs_at p (c # s) (Suc i)"
    unfolding occurs_at_def by (intro exI [of _ "c # u"] exI [of _ v]) simp
qed

lemma occurs_at_bound: "occurs_at p s i \<Longrightarrow> i + length p \<le> length s"
  by (auto simp: occurs_at_def)

lemma occurs_at_append: "occurs_at p s i \<Longrightarrow> occurs_at p (s @ t) i"
  unfolding occurs_at_def by (metis append.assoc)

lemma occurs_at_cut:
  assumes "occurs_at p (s @ t) i" and "i + length p \<le> length s"
  shows "occurs_at p s i"
proof -
  from assms(1) obtain u v where st: "s @ t = (u @ p) @ v" "length u = i" by (auto simp: occurs_at_def)
  with assms(2) obtain w where "s = (u @ p) @ w" by (auto simp: append_eq_append_conv2)
  with st(2) show ?thesis by (auto simp: occurs_at_def)
qed

lemma occurs_at_shift: "occurs_at p (t @ s) (length t + i) \<longleftrightarrow> occurs_at p s i"
  by (induction t) (simp_all add: occurs_at_Suc)

lemma str_find_Some: "str_find p s = Some i \<longleftrightarrow> occurs_at p s i \<and> (\<forall>j < i. \<not> occurs_at p s j)"
proof (induction p s arbitrary: i rule: str_find.induct)
  case (1 p)
  show ?case by (cases p) (auto simp: occurs_at_def)
next
  case (2 p c cs)
  show ?case
  proof (cases "starts_with (c # cs) p")
    case True
    then show ?thesis by (cases i) (auto simp: occurs_at_0)
  next
    case False
    with 2 show ?thesis
      by (cases i) (auto simp: occurs_at_0 occurs_at_Suc less_Suc_eq_0_disj)
  qed
qed

lemma str_find_None: "str_find p s = None \<longleftrightarrow> (\<forall>i. \<not> occurs_at p s i)"
proof
  assume none: "str_find p s = None"
  show "\<forall>i. \<not> occurs_at p s i"
  proof (rule ccontr)
    assume "\<not> (\<forall>i. \<not> occurs_at p s i)"
    then have "occurs_at p s (LEAST j. occurs_at p s j)" by (auto intro: LeastI)
    then have "str_find p s = Some (LEAST j. occurs_at p s j)"
      unfolding str_find_Some by (blast dest: not_less_Least)
    with none show False by simp
  qed
next
  assume "\<forall>i. \<not> occurs_at p s i"
  then show "str_find p s = None" by (cases "str_find p s") (simp_all add: str_find_Some)
qed

lemma str_find_append: "str_find p s = Some i \<Longrightarrow> str_find p (s @ t) = Some i"
  unfolding str_find_Some
  using occurs_at_append [of p s i t] occurs_at_cut [of p s t] occurs_at_bound [of p s i] by fastforce

lemma str_find_cut:
  assumes "str_find p (s @ t) = Some i" and "i + length p \<le> length s"
  shows "str_find p s = Some i"
  using assms occurs_at_cut [of p s t i] occurs_at_append [of p s _ t] by (auto simp: str_find_Some)

lemma str_find_shift:
  assumes "\<And>i. occurs_at p (t @ s) i \<Longrightarrow> length t \<le> i"
  shows "str_find p (t @ s) = map_option ((+) (length t)) (str_find p s)"
proof (cases "str_find p s")
  case None
  have "\<not> occurs_at p (t @ s) i" for i
    using assms [of i] None occurs_at_shift [of p t s "i - length t"] by (auto simp: str_find_None)
  then have "str_find p (t @ s) = None" by (simp add: str_find_None)
  with None show ?thesis by simp
next
  case (Some i)
  then have "occurs_at p (t @ s) (length t + i)" by (simp add: str_find_Some occurs_at_shift)
  moreover have "\<not> occurs_at p (t @ s) j" if "j < length t + i" for j
  proof
    assume j: "occurs_at p (t @ s) j"
    with assms have "length t \<le> j" .
    with j have "occurs_at p s (j - length t)" using occurs_at_shift [of p t s "j - length t"] by simp
    with Some that \<open>length t \<le> j\<close> show False by (simp add: str_find_Some)
  qed
  ultimately have "str_find p (t @ s) = Some (length t + i)" by (simp add: str_find_Some)
  with Some show ?thesis by simp
qed

text \<open>\<open>Iterator::min_by\<close>: the first of the least elements.\<close>

fun min_by :: "('a \<Rightarrow> 'a \<Rightarrow> bool) \<Rightarrow> 'a list \<Rightarrow> 'a option" where
  "min_by lt [] = None"
| "min_by lt (x # xs) =
     (case min_by lt xs of None \<Rightarrow> Some x | Some y \<Rightarrow> if lt y x then Some y else Some x)"

lemma min_by_in: "min_by lt xs = Some x \<Longrightarrow> x \<in> set xs"
  by (induction xs arbitrary: x) (auto split: option.splits if_splits)

lemma min_by_None [simp]: "min_by lt xs = None \<longleftrightarrow> xs = []"
  by (cases xs) (auto split: option.splits)

lemma min_by_unique:
  assumes "x \<in> set xs" and "\<And>y. y \<in> set xs \<Longrightarrow> y \<noteq> x \<Longrightarrow> lt x y \<and> \<not> lt y x"
  shows "min_by lt xs = Some x"
  using assms
proof (induction xs)
  case (Cons z xs)
  show ?case
  proof (cases "x \<in> set xs")
    case True
    with Cons show ?thesis by (cases "z = x") auto
  next
    case False
    with Cons.prems(1) have z: "z = x" by simp
    show ?thesis
    proof (cases "min_by lt xs")
      case (Some y)
      with min_by_in [OF Some] False Cons.prems(2) [of y] show ?thesis by (auto simp: z)
    qed (simp add: z)
  qed
qed simp

lemma min_by_least:
  assumes trans: "\<And>x y z. lt x y \<Longrightarrow> \<not> lt z y \<Longrightarrow> lt x z" and "min_by lt xs = Some x" and "y \<in> set xs"
    and asym: "\<And>x y. lt x y \<Longrightarrow> \<not> lt y x"
  shows "\<not> lt y x"
  using assms(2,3)
proof (induction xs arbitrary: x)
  case (Cons z xs)
  show ?case
  proof (cases "min_by lt xs")
    case None
    with Cons.prems asym show ?thesis by auto
  next
    case (Some m)
    show ?thesis
    proof (cases "y = z")
      case True
      with Cons.prems Some show ?thesis
        using asym [of m z] asym [of z z] by (auto split: if_splits)
    next
      case False
      with Cons.prems Cons.IH [OF Some] have "\<not> lt y m" by simp
      with Cons.prems(1) Some show ?thesis
        using trans [of y z m] by (auto split: if_splits)
    qed
  qed
qed simp

lemma min_by_map:
  assumes "\<And>x y. lt (f x) (f y) = lt' x y"
  shows "min_by lt (map f xs) = map_option f (min_by lt' xs)"
  by (induction xs) (auto simp: assms split: option.splits)

text \<open>\<open>str::split\<close> on one byte: always at least one piece.\<close>

fun split_on :: "'a \<Rightarrow> 'a list \<Rightarrow> 'a list list" where
  "split_on d [] = [[]]"
| "split_on d (c # cs) =
     (if c = d then [] # split_on d cs
      else (case split_on d cs of [] \<Rightarrow> [[c]] | p # ps \<Rightarrow> (c # p) # ps))"

text \<open>\<open>[S]::join\<close>.\<close>

fun join :: "'a list \<Rightarrow> 'a list list \<Rightarrow> 'a list" where
  "join sep [] = []"
| "join sep [x] = x"
| "join sep (x # y # ys) = x @ sep @ join sep (y # ys)"

lemma split_on_nonempty [simp]: "split_on d s \<noteq> []"
  by (cases s) (auto split: list.splits)

lemma join_Cons: "ys \<noteq> [] \<Longrightarrow> join sep (x # ys) = x @ sep @ join sep ys"
  by (cases ys) auto

lemma join_split_on: "join [d] (split_on d s) = s"
proof (induction s)
  case (Cons c s)
  then show ?case
    by (cases "split_on d s"; cases "tl (split_on d s)") (auto simp: join_Cons)
qed simp

lemma split_on_no_sep: "d \<notin> set s \<Longrightarrow> split_on d s = [s]"
  by (induction s) auto

lemma split_on_append:
  "d \<notin> set x \<Longrightarrow> split_on d (x @ d # rest) = x # split_on d rest"
  by (induction x) auto

lemma split_on_at: "split_on d (x @ d # rest) = split_on d x @ split_on d rest"
proof (induction x)
  case (Cons c x)
  then show ?case by (cases "split_on d x") auto
qed simp

lemma split_on_join:
  "xs \<noteq> [] \<Longrightarrow> \<forall>x \<in> set xs. d \<notin> set x \<Longrightarrow> split_on d (join [d] xs) = xs"
proof (induction "[d]" xs rule: join.induct)
  case (3 x y ys)
  then show ?case
    using split_on_append [of d x "join [d] (y # ys)"] by simp
qed (auto simp: split_on_no_sep)

lemma join_lines_concat: "join [d] (xs @ [y]) = concat (map (\<lambda>l. l @ [d]) xs) @ y"
  by (induction xs) (auto simp: join_Cons)

lemma split_on_pieces: "x \<in> set (split_on d s) \<Longrightarrow> d \<notin> set x"
proof (induction s arbitrary: x)
  case (Cons c s)
  then show ?case
    by (cases "split_on d s") (auto split: if_splits)
qed simp

subsection \<open>Scalar values and white space\<close>

text \<open>
  The length of a UTF-8 sequence is read off its first byte; \<open>chars\<close> cuts a string into
  its sequences, so one element of the list is one Rust \<open>char\<close>. On bytes that are no
  UTF-8 the functions are still total, and the pieces always concatenate to the string.
\<close>

definition ascii :: "char \<Rightarrow> bool" where
  "ascii c \<longleftrightarrow> \<not> digit7 c"

definition utf8_len :: "char \<Rightarrow> nat" where
  "utf8_len b =
     (if \<not> digit7 b \<or> \<not> digit6 b then 1
      else if \<not> digit5 b then 2 else if \<not> digit4 b then 3 else 4)"

function chars :: "string \<Rightarrow> string list" where
  "chars [] = []"
| "chars (b # bs) = (b # take (utf8_len b - 1) bs) # chars (drop (utf8_len b - 1) bs)"
  by pat_completeness auto
termination
  by (relation "measure length") auto

text \<open>\<open>char::is_whitespace\<close>: the Unicode property White\_Space, spelled out in UTF-8.\<close>

definition white_space :: "string list" where
  "white_space =
     [[CHR 0x09], [CHR 0x0A], [CHR 0x0B], [CHR 0x0C], [CHR 0x0D], [CHR 0x20],
      [CHR 0xC2, CHR 0x85], [CHR 0xC2, CHR 0xA0], [CHR 0xE1, CHR 0x9A, CHR 0x80],
      [CHR 0xE2, CHR 0x80, CHR 0x80], [CHR 0xE2, CHR 0x80, CHR 0x81],
      [CHR 0xE2, CHR 0x80, CHR 0x82], [CHR 0xE2, CHR 0x80, CHR 0x83],
      [CHR 0xE2, CHR 0x80, CHR 0x84], [CHR 0xE2, CHR 0x80, CHR 0x85],
      [CHR 0xE2, CHR 0x80, CHR 0x86], [CHR 0xE2, CHR 0x80, CHR 0x87],
      [CHR 0xE2, CHR 0x80, CHR 0x88], [CHR 0xE2, CHR 0x80, CHR 0x89],
      [CHR 0xE2, CHR 0x80, CHR 0x8A], [CHR 0xE2, CHR 0x80, CHR 0xA8],
      [CHR 0xE2, CHR 0x80, CHR 0xA9], [CHR 0xE2, CHR 0x80, CHR 0xAF],
      [CHR 0xE2, CHR 0x81, CHR 0x9F], [CHR 0xE3, CHR 0x80, CHR 0x80]]"

definition is_whitespace :: "string \<Rightarrow> bool" where
  "is_whitespace c \<longleftrightarrow> c \<in> set white_space"

definition trim_start :: "string \<Rightarrow> string" where
  "trim_start s = concat (dropWhile is_whitespace (chars s))"

definition trim_end :: "string \<Rightarrow> string" where
  "trim_end s = concat (rev (dropWhile is_whitespace (rev (chars s))))"

definition trim :: "string \<Rightarrow> string" where
  "trim s = trim_end (trim_start s)"

lemma utf8_len_pos [simp]: "0 < utf8_len b"
  by (simp add: utf8_len_def)

lemma utf8_len_ascii [simp]: "ascii b \<Longrightarrow> utf8_len b = 1"
  by (simp add: utf8_len_def ascii_def)

lemma concat_chars [simp]: "concat (chars s) = s"
  by (induction s rule: chars.induct) auto

lemma chars_eq_Nil [simp]: "chars s = [] \<longleftrightarrow> s = []"
  by (cases s) auto

lemma chars_nonempty: "c \<in> set (chars s) \<Longrightarrow> c \<noteq> []"
  by (induction s rule: chars.induct) auto

lemma chars_Cons_ascii [simp]: "ascii b \<Longrightarrow> chars (b # bs) = [b] # chars bs"
  by simp

lemma chars_append_ascii: "\<forall>b \<in> set a. ascii b \<Longrightarrow> chars (a @ s) = map (\<lambda>b. [b]) a @ chars s"
  by (induction a) (auto simp del: chars.simps(2))

lemma trim_start_Nil [simp]: "trim_start [] = []"
  by (simp add: trim_start_def)

lemma trim_end_Nil [simp]: "trim_end [] = []"
  by (simp add: trim_end_def)

lemma trim_Nil [simp]: "trim [] = []"
  by (simp add: trim_def)

lemma trim_start_Cons:
  "ascii c \<Longrightarrow> \<not> is_whitespace [c] \<Longrightarrow> trim_start (c # s) = c # s"
  by (simp add: trim_start_def)

lemma trim_end_append:
  assumes "\<forall>b \<in> set a. ascii b" and "trim_end s \<noteq> []"
  shows "trim_end (a @ s) = a @ trim_end s"
proof -
  have "\<exists>c \<in> set (rev (chars s)). \<not> is_whitespace c"
  proof (rule ccontr)
    assume "\<not> (\<exists>c \<in> set (rev (chars s)). \<not> is_whitespace c)"
    then have "dropWhile is_whitespace (rev (chars s)) = []" by simp
    with assms(2) show False by (simp add: trim_end_def)
  qed
  then obtain c where c: "c \<in> set (rev (chars s))" "\<not> is_whitespace c" by blast
  have "dropWhile is_whitespace (rev (chars s) @ rev (map (\<lambda>b. [b]) a))
      = dropWhile is_whitespace (rev (chars s)) @ rev (map (\<lambda>b. [b]) a)"
    using dropWhile_append1 [of c "rev (chars s)" is_whitespace] c by blast
  then show ?thesis
    by (simp add: trim_end_def chars_append_ascii [OF assms(1)])
qed

text \<open>A marker followed by text without trailing white space survives \<open>trim\<close>.\<close>

lemma trim_marker:
  assumes "\<forall>b \<in> set (m # ms). ascii b" and "\<not> is_whitespace [m]"
    and "trim_end s = s" and "s \<noteq> []"
  shows "trim (m # ms @ s) = m # ms @ s"
proof -
  have "trim_start (m # ms @ s) = m # ms @ s"
    using assms(1,2) by (simp add: trim_start_Cons)
  moreover have "trim_end ((m # ms) @ s) = (m # ms) @ s"
    using assms by (subst trim_end_append) auto
  ultimately show ?thesis by (simp add: trim_def)
qed

text \<open>A complete UTF-8 sequence in every place but the last: what \<open>chars\<close> returns.\<close>

fun sequences :: "string list \<Rightarrow> bool" where
  "sequences [] \<longleftrightarrow> True"
| "sequences (c # cs) \<longleftrightarrow>
     c \<noteq> [] \<and> length c \<le> utf8_len (hd c) \<and> (cs \<noteq> [] \<longrightarrow> length c = utf8_len (hd c)) \<and> sequences cs"

lemma sequences_chars: "sequences (chars s)"
proof (induction s rule: chars.induct)
  case (2 b bs)
  have "drop (utf8_len b - 1) bs \<noteq> [] \<Longrightarrow> utf8_len b - 1 \<le> length bs" by simp
  with 2 show ?case by (auto simp: min_def Nat.le_diff_conv2 Suc_le_eq)
qed simp

lemma chars_concat: "sequences cs \<Longrightarrow> chars (concat cs) = cs"
proof (induction cs)
  case (Cons c cs)
  then obtain b bs where c: "c = b # bs" by (cases c) auto
  show ?case
  proof (cases "cs = []")
    case True
    with c Cons.prems show ?thesis by simp
  next
    case False
    with c Cons.prems have "utf8_len b - 1 = length bs" by auto
    with c Cons show ?thesis by simp
  qed
qed simp

lemma sequences_append: "sequences (xs @ ys) \<Longrightarrow> sequences xs \<and> sequences ys"
  by (induction xs) auto

lemma chars_trim_start: "chars (trim_start s) = dropWhile is_whitespace (chars s)"
proof -
  have "sequences (takeWhile is_whitespace (chars s) @ dropWhile is_whitespace (chars s))"
    by (simp add: sequences_chars)
  then show ?thesis
    unfolding trim_start_def by (intro chars_concat) (blast dest: sequences_append)
qed

definition drop_tail :: "string list \<Rightarrow> string list" where
  "drop_tail cs = rev (dropWhile is_whitespace (rev cs))"

lemma chars_trim_end: "chars (trim_end s) = drop_tail (chars s)"
proof -
  have "rev (chars s) = takeWhile is_whitespace (rev (chars s)) @ dropWhile is_whitespace (rev (chars s))"
    by simp
  then have "chars s = drop_tail (chars s) @ rev (takeWhile is_whitespace (rev (chars s)))"
    unfolding drop_tail_def by (metis rev_append rev_rev_ident)
  then have "sequences (drop_tail (chars s))"
    using sequences_chars sequences_append by metis
  then show ?thesis
    unfolding trim_end_def drop_tail_def by (rule chars_concat)
qed

lemma dropWhile_drop_tail:
  "dropWhile is_whitespace (drop_tail cs) = drop_tail (dropWhile is_whitespace cs)"
proof (cases "\<exists>c \<in> set cs. \<not> is_whitespace c")
  case True
  then obtain xs y zs where cs: "cs = xs @ y # zs" "\<forall>x \<in> set xs. is_whitespace x" "\<not> is_whitespace y"
    using split_list_first_prop [of cs "\<lambda>c. \<not> is_whitespace c"] by blast
  have "dropWhile is_whitespace (rev zs @ y # rev xs) = dropWhile is_whitespace (rev zs @ [y]) @ rev xs"
    using cs(3) by (simp add: dropWhile_append)
  then have "drop_tail cs = xs @ drop_tail (y # zs)"
    using cs(1) by (simp add: drop_tail_def)
  moreover have "\<exists>r. drop_tail (y # zs) = y # r"
    using cs(3) by (auto simp: drop_tail_def dropWhile_append intro: rev_rev_ident [symmetric])
  ultimately show ?thesis using cs by (auto simp: dropWhile_append)
next
  case False
  then have "dropWhile is_whitespace cs = []" "dropWhile is_whitespace (rev cs) = []"
    by (auto simp: dropWhile_eq_Nil_conv)
  then show ?thesis by (simp only: drop_tail_def dropWhile.simps rev.simps)
qed

lemma trim_trim_end: "trim s = trim_start (trim_end s)"
proof -
  have "chars (trim s) = chars (trim_start (trim_end s))"
    by (simp add: trim_def chars_trim_start chars_trim_end dropWhile_drop_tail)
  then show ?thesis by (metis concat_chars)
qed

lemma trim_idem: "trim (trim s) = trim s"
proof -
  have idem: "dropWhile p (dropWhile p cs) = dropWhile p cs" for p and cs :: "string list" by (induction cs) auto
  have "chars (trim_start (trim_start t)) = chars (trim_start t)" "chars (trim_end (trim_end t)) = chars (trim_end t)" for t
    by (simp_all add: chars_trim_start chars_trim_end drop_tail_def idem)
  then have "trim_start (trim_start t) = trim_start t" "trim_end (trim_end t) = trim_end t" for t
    by (metis concat_chars)+
  then show ?thesis by (metis trim_def trim_trim_end)
qed

subsection \<open>Lines\<close>

text \<open>
  \<open>str::lines\<close>: pieces between newlines, each without one trailing carriage return; a
  final piece without a newline keeps its carriage return and is dropped when empty.
\<close>

definition strip_cr :: "string \<Rightarrow> string" where
  "strip_cr l = (case strip_suffix [CHR 0x0D] l of None \<Rightarrow> l | Some r \<Rightarrow> r)"

definition lines :: "string \<Rightarrow> string list" where
  "lines s =
     (let ps = split_on (CHR 0x0A) s
      in map strip_cr (butlast ps) @ (if last ps = [] then [] else [last ps]))"

text \<open>A line that \<open>lines\<close> gives back unchanged.\<close>

definition plain_line :: "string \<Rightarrow> bool" where
  "plain_line l \<longleftrightarrow> CHR 0x0A \<notin> set l \<and> strip_cr l = l"

lemma strip_cr_length: "length (strip_cr l) \<le> length l"
  by (auto simp: strip_cr_def strip_suffix_Some split: option.splits)

lemma lines_join:
  assumes "xs \<noteq> []" and "\<forall>x \<in> set xs. plain_line x" and "last xs \<noteq> []"
  shows "lines (join [CHR 0x0A] xs) = xs"
proof -
  have sp: "split_on (CHR 0x0A) (join [CHR 0x0A] xs) = xs"
    using assms by (intro split_on_join) (auto simp: plain_line_def)
  have "map strip_cr (butlast xs) = butlast xs"
    using assms(2) by (intro map_idI) (auto simp: plain_line_def dest: in_set_butlastD)
  with sp assms(1,3) show ?thesis by (simp add: lines_def)
qed

lemma lines_no_newline: "l \<in> set (lines s) \<Longrightarrow> CHR 0x0A \<notin> set l"
proof -
  have pieces: "CHR 0x0A \<notin> set p" if "p \<in> set (split_on (CHR 0x0A) s)" for p
    using split_on_pieces [OF that] .
  have strip: "set (strip_cr p) \<subseteq> set p" for p
    by (auto simp: strip_cr_def strip_suffix_Some split: option.splits)
  assume "l \<in> set (lines s)"
  then consider p where "p \<in> set (split_on (CHR 0x0A) s)" "l = strip_cr p"
    | "l \<in> set (split_on (CHR 0x0A) s)"
    by (auto simp: lines_def Let_def dest: in_set_butlastD split: if_splits)
  then show ?thesis using pieces strip by cases blast+
qed

subsection \<open>Numbers as text\<close>

text \<open>The decimal digits that \<open>{}\<close> prints for an unsigned integer.\<close>

fun nat_str :: "nat \<Rightarrow> string" where
  "nat_str n =
     (if n < 10 then [char_of (48 + n)] else nat_str (n div 10) @ [char_of (48 + n mod 10)])"

declare nat_str.simps [simp del]

subsection \<open>Greatest elements\<close>

text \<open>\<open>Iterator::max_by_key\<close>: the last of the greatest.\<close>

fun max_by_key :: "('a \<Rightarrow> 'k::linorder) \<Rightarrow> 'a list \<Rightarrow> 'a option" where
  "max_by_key k [] = None"
| "max_by_key k (x # xs) = Some (fold (\<lambda>y best. if k best \<le> k y then y else best) xs x)"

lemma max_by_fold:
  fixes k :: "'a \<Rightarrow> 'k::linorder"
  shows "fold (\<lambda>y best. if k best \<le> k y then y else best) xs x \<in> set (x # xs) \<and>
   (\<forall>y \<in> set (x # xs). k y \<le> k (fold (\<lambda>y best. if k best \<le> k y then y else best) xs x))"
proof (induction xs arbitrary: x)
  case (Cons y xs)
  let ?b = "if k x \<le> k y then y else x"
  from Cons.IH [of ?b] have "k ?b \<le> k (fold (\<lambda>y best. if k best \<le> k y then y else best) xs ?b)" by simp
  moreover have "k x \<le> k ?b" "k y \<le> k ?b" by auto
  ultimately show ?case using Cons.IH [of ?b] by (auto intro: order_trans)
qed simp

lemma max_by_key_None [simp]: "max_by_key k xs = None \<longleftrightarrow> xs = []"
  by (cases xs) simp_all

lemma max_by_key_Some:
  "max_by_key k xs = Some x \<Longrightarrow> x \<in> set xs \<and> (\<forall>y \<in> set xs. k y \<le> k x)"
  using max_by_fold [of k] by (cases xs) auto

lemma set_map_filter_iff: "y \<in> set (List.map_filter f xs) \<longleftrightarrow> (\<exists>x \<in> set xs. f x = Some y)"
  by (induction xs) (auto simp: List.map_filter_simps split: option.splits)

subsection \<open>Results of a whole list\<close>

text \<open>Collecting an iterator of results: the first error wins.\<close>

fun try_map :: "('a \<Rightarrow> 'e + 'b) \<Rightarrow> 'a list \<Rightarrow> 'e + 'b list" where
  "try_map f [] = Inr []"
| "try_map f (x # xs) =
     (case f x of
        Inl e \<Rightarrow> Inl e
      | Inr y \<Rightarrow> (case try_map f xs of Inl e \<Rightarrow> Inl e | Inr ys \<Rightarrow> Inr (y # ys)))"

lemma try_map_Inr: "try_map f xs = Inr ys \<Longrightarrow> list_all2 (\<lambda>x y. f x = Inr y) xs ys"
  by (induction xs arbitrary: ys) (auto split: sum.splits)

lemma try_map_unit: "map_sum id (\<lambda>_. ()) (try_map f xs) = Inr () \<longleftrightarrow> (\<forall>x \<in> set xs. \<exists>y. f x = Inr y)"
  by (induction xs) (auto split: sum.splits)

lemma try_map_Inl: "try_map f xs = Inl e \<Longrightarrow> \<exists>x \<in> set xs. f x = Inl e"
  by (induction xs) (auto split: sum.splits)

lemma try_map_ok: "(\<exists>ys. try_map f xs = Inr ys) \<longleftrightarrow> (\<forall>x \<in> set xs. \<exists>y. f x = Inr y)"
  by (induction xs) (auto split: sum.splits)

end
