(* ===== verification/Patch_Parser.thy ===== *)
theory Patch_Parser
  imports Rust_Prelude
begin

section \<open>The batch parser of apply\_patch\<close>

text \<open>
  \<open>codex-rs/apply-patch/src/parser.rs\<close>: the patch language, its markers, and
  \<open>parse_patch\<close>, which reads a whole patch text into hunks. A \<open>PathBuf\<close> is the string
  it was made from. Error messages are the strings the code formats.
\<close>

subsection \<open>Markers and data\<close>

definition BEGIN_PATCH_MARKER :: string where
  "BEGIN_PATCH_MARKER = ''*** Begin Patch''"

definition ENVIRONMENT_ID_MARKER :: string where
  "ENVIRONMENT_ID_MARKER = ''*** Environment ID: ''"

definition END_PATCH_MARKER :: string where
  "END_PATCH_MARKER = ''*** End Patch''"

definition ADD_FILE_MARKER :: string where
  "ADD_FILE_MARKER = ''*** Add File: ''"

definition DELETE_FILE_MARKER :: string where
  "DELETE_FILE_MARKER = ''*** Delete File: ''"

definition UPDATE_FILE_MARKER :: string where
  "UPDATE_FILE_MARKER = ''*** Update File: ''"

definition MOVE_TO_MARKER :: string where
  "MOVE_TO_MARKER = ''*** Move to: ''"

definition EOF_MARKER :: string where
  "EOF_MARKER = ''*** End of File''"

definition CHANGE_CONTEXT_MARKER :: string where
  "CHANGE_CONTEXT_MARKER = ''@@ ''"

definition EMPTY_CHANGE_CONTEXT_MARKER :: string where
  "EMPTY_CHANGE_CONTEXT_MARKER = ''@@''"

lemmas marker_defs =
  BEGIN_PATCH_MARKER_def ENVIRONMENT_ID_MARKER_def END_PATCH_MARKER_def ADD_FILE_MARKER_def
  DELETE_FILE_MARKER_def UPDATE_FILE_MARKER_def MOVE_TO_MARKER_def EOF_MARKER_def
  CHANGE_CONTEXT_MARKER_def EMPTY_CHANGE_CONTEXT_MARKER_def

datatype parse_error =
    InvalidPatchError string
  | InvalidHunkError string nat

record update_file_chunk =
  change_context :: "string option"
  old_lines :: "string list"
  new_lines :: "string list"
  is_end_of_file :: bool

datatype hunk =
    AddFile string string
  | DeleteFile string
  | UpdateFile string "string option" "update_file_chunk list"

text \<open>\<open>Hunk::path\<close>: the move destination for a rename.\<close>

fun hunk_path :: "hunk \<Rightarrow> string" where
  "hunk_path (AddFile path _) = path"
| "hunk_path (DeleteFile path) = path"
| "hunk_path (UpdateFile _ (Some path) _) = path"
| "hunk_path (UpdateFile path None _) = path"

text \<open>
  \<open>Hunk::resolve_path\<close>: the file the hunk reads, made absolute. The path join is the
  parameter \<open>resolve\<close> (\<open>AbsolutePathBuf::resolve_path_against_base\<close>).
\<close>

definition resolve_path :: "(string \<Rightarrow> string \<Rightarrow> 'p) \<Rightarrow> hunk \<Rightarrow> string \<Rightarrow> 'p" where
  "resolve_path resolve h cwd =
     resolve (case h of UpdateFile path _ _ \<Rightarrow> path | AddFile _ _ \<Rightarrow> hunk_path h
              | DeleteFile _ \<Rightarrow> hunk_path h) cwd"

record apply_patch_args =
  patch :: string
  hunks :: "hunk list"
  workdir :: "string option"
  environment_id :: "string option"

datatype parse_mode = Strict | Lenient

subsection \<open>Patch boundaries\<close>

definition quote :: string where
  "quote = [CHR 0x27]"

definition first_line_message :: string where
  "first_line_message = ''The first line of the patch must be '*** Begin Patch'' @ quote"

definition last_line_message :: string where
  "last_line_message = ''The last line of the patch must be '*** End Patch'' @ quote"

fun check_start_and_end_lines_strict ::
    "string option \<Rightarrow> string option \<Rightarrow> parse_error + unit" where
  "check_start_and_end_lines_strict first_line last_line =
     (case (map_option trim first_line, map_option trim last_line) of
        (Some first, Some final) \<Rightarrow>
          if first = BEGIN_PATCH_MARKER \<and> final = END_PATCH_MARKER then Inr ()
          else if first \<noteq> BEGIN_PATCH_MARKER
            then Inl (InvalidPatchError first_line_message)
          else Inl (InvalidPatchError last_line_message)
      | (Some first, None) \<Rightarrow>
          if first \<noteq> BEGIN_PATCH_MARKER
            then Inl (InvalidPatchError first_line_message)
          else Inl (InvalidPatchError last_line_message)
      | (None, _) \<Rightarrow>
          Inl (InvalidPatchError last_line_message))"

text \<open>Both results: the patch lines and the lines between the two boundary lines.\<close>

definition check_patch_boundaries_strict ::
    "string list \<Rightarrow> parse_error + (string list \<times> string list)" where
  "check_patch_boundaries_strict ls =
     (let (first_line, last_line) =
        (case ls of
           [] \<Rightarrow> (None, None)
         | [first] \<Rightarrow> (Some first, Some first)
         | first # _ # _ \<Rightarrow> (Some first, Some (last ls)))
      in case check_start_and_end_lines_strict first_line last_line of
           Inl e \<Rightarrow> Inl e
         | Inr _ \<Rightarrow> Inr (ls, butlast (tl ls)))"

definition check_patch_boundaries_lenient ::
    "string list \<Rightarrow> parse_error + (string list \<times> string list)" where
  "check_patch_boundaries_lenient original_lines =
     (case check_patch_boundaries_strict original_lines of
        Inr r \<Rightarrow> Inr r
      | Inl original_parse_error \<Rightarrow>
          (case original_lines of
             first # _ # _ \<Rightarrow>
               if (first = ''<<EOF'' \<or> first = ''<<'EOF'' @ quote \<or> first = ''<<\"EOF\"'')
                 \<and> ends_with (last original_lines) ''EOF''
                 \<and> 4 \<le> length original_lines
               then check_patch_boundaries_strict (butlast (tl original_lines))
               else Inl original_parse_error
           | _ \<Rightarrow> Inl original_parse_error))"

text \<open>
  \<open>parse_environment_id_preamble\<close>: the optional environment line, the lines after it, and
  the number of the first of them.
\<close>

definition parse_environment_id_preamble ::
    "string list \<Rightarrow> parse_error + (string option \<times> string list \<times> nat)" where
  "parse_environment_id_preamble hunk_lines =
     (case hunk_lines of
        [] \<Rightarrow> Inr (None, hunk_lines, 2)
      | first_line # rest \<Rightarrow>
          (case strip_prefix ENVIRONMENT_ID_MARKER (trim_start first_line) of
             None \<Rightarrow> Inr (None, hunk_lines, 2)
           | Some env \<Rightarrow>
               if trim env = []
               then Inl (InvalidPatchError ''apply_patch environment_id cannot be empty'')
               else Inr (Some (trim env), rest, 3)))"

subsection \<open>One chunk of an update\<close>

definition unexpected_line_message :: "string \<Rightarrow> string" where
  "unexpected_line_message line =
     ''Unexpected line found in update hunk: '' @ quote @ line @
     '''. Every line should start with ' ' (context line), '+' (added line), or '-' (removed line)''"

definition invalid_header_message :: "string \<Rightarrow> string" where
  "invalid_header_message line =
     quote @ line @
     ''' is not a valid hunk header. Valid hunk headers: '*** Add File: {path}', '*** Delete File: {path}', '*** Update File: {path}'' @ quote"

definition no_lines_message :: string where
  "no_lines_message = ''Update hunk does not contain any lines''"

text \<open>
  The loop over the lines of a chunk. The result counts the lines taken; it stops without
  taking the line at the first line that belongs to the next chunk or hunk.
\<close>

fun chunk_loop ::
    "string list \<Rightarrow> nat \<Rightarrow> nat \<Rightarrow> update_file_chunk
     \<Rightarrow> parse_error + (update_file_chunk \<times> nat)" where
  "chunk_loop [] parsed_lines n chunk = Inr (chunk, parsed_lines)"
| "chunk_loop (line # rest) parsed_lines n chunk =
     (if line = EOF_MARKER then
        (if parsed_lines = 0 then Inl (InvalidHunkError no_lines_message (n + 1))
         else Inr (chunk\<lparr>is_end_of_file := True\<rparr>, parsed_lines + 1))
      else (case line of
         [] \<Rightarrow> chunk_loop rest (parsed_lines + 1) n
                (chunk\<lparr>old_lines := old_lines chunk @ [[]], new_lines := new_lines chunk @ [[]]\<rparr>)
       | c # cs \<Rightarrow>
           if c = CHR '' '' then chunk_loop rest (parsed_lines + 1) n
                (chunk\<lparr>old_lines := old_lines chunk @ [cs], new_lines := new_lines chunk @ [cs]\<rparr>)
           else if c = CHR ''+'' then chunk_loop rest (parsed_lines + 1) n
                (chunk\<lparr>new_lines := new_lines chunk @ [cs]\<rparr>)
           else if c = CHR ''-'' then chunk_loop rest (parsed_lines + 1) n
                (chunk\<lparr>old_lines := old_lines chunk @ [cs]\<rparr>)
           else if parsed_lines = 0
             then Inl (InvalidHunkError (unexpected_line_message line) (n + 1))
           else Inr (chunk, parsed_lines)))"

definition empty_chunk :: "string option \<Rightarrow> update_file_chunk" where
  "empty_chunk ctx =
     \<lparr>change_context = ctx, old_lines = [], new_lines = [], is_end_of_file = False\<rparr>"

text \<open>The context line of a chunk: its text, and whether the line is taken (1) or not (0).\<close>

definition chunk_header ::
    "string \<Rightarrow> nat \<Rightarrow> bool \<Rightarrow> parse_error + (string option \<times> nat)" where
  "chunk_header line n allow_missing_context =
     (if line = EMPTY_CHANGE_CONTEXT_MARKER then Inr (None, 1)
      else (case strip_prefix CHANGE_CONTEXT_MARKER line of
              Some context \<Rightarrow> Inr (Some context, 1)
            | None \<Rightarrow>
                if \<not> allow_missing_context
                then Inl (InvalidHunkError
                  (''Expected update hunk to start with a @@ context marker, got: '' @ quote @
                    line @ quote) n)
                else Inr (None, 0)))"

definition parse_update_file_chunk ::
    "string list \<Rightarrow> nat \<Rightarrow> bool \<Rightarrow> parse_error + (update_file_chunk \<times> nat)" where
  "parse_update_file_chunk ls n allow_missing_context =
     (case ls of
        [] \<Rightarrow> Inl (InvalidHunkError no_lines_message n)
      | line # rest \<Rightarrow>
          (case chunk_header line n allow_missing_context of
             Inl e \<Rightarrow> Inl e
           | Inr (ctx, start_index) \<Rightarrow>
               if length ls \<le> start_index
               then Inl (InvalidHunkError no_lines_message (n + 1))
               else (case chunk_loop (drop start_index ls) 0 n (empty_chunk ctx) of
                       Inl e \<Rightarrow> Inl e
                     | Inr (chunk, parsed_lines) \<Rightarrow> Inr (chunk, parsed_lines + start_index))))"

text \<open>A chunk that parses has taken at least one line and no more than there are.\<close>

lemma chunk_loop_bounds:
  "chunk_loop ls p n c = Inr (c', k) \<Longrightarrow> p \<le> k \<and> k \<le> p + length ls"
  by (induction ls p n c rule: chunk_loop.induct)
     (fastforce split: if_splits list.splits simp: Let_def)+

lemma chunk_loop_progress:
  "chunk_loop ls 0 n c = Inr (c', k) \<Longrightarrow> ls \<noteq> [] \<Longrightarrow> 0 < k"
  by (cases ls) (auto split: if_splits list.splits dest: chunk_loop_bounds)

lemma parse_update_file_chunk_bounds [progress_intros]:
  assumes "parse_update_file_chunk ls n b = Inr (c, k)"
  shows "0 < k \<and> k \<le> length ls"
proof -
  from assms obtain start_index ctx k' where
    le: "start_index < length ls" and
    loop: "chunk_loop (drop start_index ls) 0 n (empty_chunk ctx) = Inr (c, k')" and
    k: "k = k' + start_index"
    by (cases ls)
       (fastforce simp: parse_update_file_chunk_def not_le split: sum.splits prod.splits if_splits)+
  from chunk_loop_bounds [OF loop] chunk_loop_progress [OF loop] le k
  show ?thesis by auto
qed

subsection \<open>One hunk\<close>

text \<open>The body of an added file: every following line that starts with \<open>+\<close>.\<close>

fun add_loop :: "string list \<Rightarrow> string \<Rightarrow> nat \<Rightarrow> string \<times> nat" where
  "add_loop [] contents parsed_lines = (contents, parsed_lines)"
| "add_loop (add_line # rest) contents parsed_lines =
     (case strip_prefix ''+'' add_line of
        Some line_to_add \<Rightarrow> add_loop rest (contents @ line_to_add @ [CHR 0x0A]) (parsed_lines + 1)
      | None \<Rightarrow> (contents, parsed_lines))"

text \<open>The chunks of an updated file: blank lines are skipped, a line with \<open>*\<close> ends the hunk.\<close>

function update_loop ::
    "string list \<Rightarrow> nat \<Rightarrow> nat \<Rightarrow> update_file_chunk list
     \<Rightarrow> parse_error + (update_file_chunk list \<times> nat)" where
  "update_loop [] parsed_lines n chunks = Inr (chunks, parsed_lines)"
| "update_loop (line # rest) parsed_lines n chunks =
     (if trim line = [] then update_loop rest (parsed_lines + 1) n chunks
      else if starts_with line ''*'' then Inr (chunks, parsed_lines)
      else (case parse_update_file_chunk (line # rest) (n + parsed_lines) (chunks = []) of
              Inl e \<Rightarrow> Inl e
            | Inr (chunk, chunk_lines) \<Rightarrow>
                update_loop (drop chunk_lines (line # rest)) (parsed_lines + chunk_lines) n
                  (chunks @ [chunk])))"
  by pat_completeness auto
termination
  by (relation "measure (\<lambda>(ls, _). length ls)")
     (auto dest!: parse_update_file_chunk_bounds)

text \<open>\<open>parse_one_hunk\<close>; its caller passes at least one line, here \<open>line\<close> and \<open>rest\<close>.\<close>

definition parse_one_hunk :: "string \<Rightarrow> string list \<Rightarrow> nat \<Rightarrow> parse_error + (hunk \<times> nat)" where
  "parse_one_hunk line rest n =
     (let first_line = trim line in
      case strip_prefix ADD_FILE_MARKER first_line of
        Some path \<Rightarrow>
          (let (contents, parsed_lines) = add_loop rest [] 1 in Inr (AddFile path contents, parsed_lines))
      | None \<Rightarrow>
      (case strip_prefix DELETE_FILE_MARKER first_line of
        Some path \<Rightarrow> Inr (DeleteFile path, 1)
      | None \<Rightarrow>
      (case strip_prefix UPDATE_FILE_MARKER first_line of
        Some path \<Rightarrow>
          (let move_path = (case rest of [] \<Rightarrow> None | x # _ \<Rightarrow> strip_prefix MOVE_TO_MARKER x);
               (remaining_lines, parsed_lines) =
                 (if move_path \<noteq> None then (tl rest, 2) else (rest, 1))
           in case update_loop remaining_lines parsed_lines n [] of
                Inl e \<Rightarrow> Inl e
              | Inr (chunks, parsed) \<Rightarrow>
                  if chunks = []
                  then Inl (InvalidHunkError
                         (''Update file hunk for path '' @ quote @ path @ quote @ '' is empty'') n)
                  else Inr (UpdateFile path move_path chunks, parsed))
      | None \<Rightarrow> Inl (InvalidHunkError (invalid_header_message first_line) n))))"

lemma add_loop_bounds:
  "add_loop ls c p = (c', k) \<Longrightarrow> p \<le> k \<and> k \<le> p + length ls"
  by (induction ls c p rule: add_loop.induct) (fastforce split: option.splits)+

lemma update_loop_bounds:
  "update_loop ls p n cs = Inr (cs', k) \<Longrightarrow> p \<le> k \<and> k \<le> p + length ls"
proof (induction ls p n cs rule: update_loop.induct)
  case (2 line rest p n cs)
  show ?case
  proof (cases "trim line = [] \<or> starts_with line ''*''")
    case True
    with 2 show ?thesis by (auto split: if_splits)
  next
    case False
    with 2(3) obtain chunk j where
      chunk: "parse_update_file_chunk (line # rest) (n + p) (cs = []) = Inr (chunk, j)" and
      loop: "update_loop (drop j (line # rest)) (p + j) n (cs @ [chunk]) = Inr (cs', k)"
      by (auto split: sum.splits prod.splits)
    from 2(2) [of "(chunk, j)", OF _ _ chunk refl loop] False parse_update_file_chunk_bounds [OF chunk]
    show ?thesis by auto
  qed
qed simp

lemma parse_one_hunk_bounds [progress_intros]:
  assumes "parse_one_hunk line rest n = Inr (h, k)"
  shows "0 < k \<and> k \<le> Suc (length rest)"
  using assms
  by (cases rest)
     (fastforce simp: parse_one_hunk_def Let_def
        split: option.splits prod.splits sum.splits if_splits
        dest: add_loop_bounds update_loop_bounds)+

subsection \<open>A whole patch\<close>

function hunks_loop :: "string list \<Rightarrow> nat \<Rightarrow> hunk list \<Rightarrow> parse_error + hunk list" where
  "hunks_loop [] n hs = Inr hs"
| "hunks_loop (line # rest) n hs =
     (case parse_one_hunk line rest n of
        Inl e \<Rightarrow> Inl e
      | Inr (h, hunk_lines) \<Rightarrow> hunks_loop (drop hunk_lines (line # rest)) (n + hunk_lines) (hs @ [h]))"
  by pat_completeness auto
termination
  by (relation "measure (\<lambda>(ls, _). length ls)")
     (auto dest!: parse_one_hunk_bounds)

definition parse_patch_text :: "string \<Rightarrow> parse_mode \<Rightarrow> parse_error + apply_patch_args" where
  "parse_patch_text text mode =
     (let ls = lines (trim text) in
      case (case mode of Strict \<Rightarrow> check_patch_boundaries_strict ls
            | Lenient \<Rightarrow> check_patch_boundaries_lenient ls) of
        Inl e \<Rightarrow> Inl e
      | Inr (patch_lines, hunk_lines) \<Rightarrow>
          (case parse_environment_id_preamble hunk_lines of
             Inl e \<Rightarrow> Inl e
           | Inr (env, remaining_lines, n) \<Rightarrow>
               (case hunks_loop remaining_lines n [] of
                  Inl e \<Rightarrow> Inl e
                | Inr hs \<Rightarrow>
                    Inr \<lparr>patch = join [CHR 0x0A] patch_lines, hunks = hs,
                         workdir = None, environment_id = env\<rparr>)))"

definition PARSE_IN_STRICT_MODE :: bool where
  "PARSE_IN_STRICT_MODE \<longleftrightarrow> False"

definition parse_patch :: "string \<Rightarrow> parse_error + apply_patch_args" where
  "parse_patch text =
     parse_patch_text text (if PARSE_IN_STRICT_MODE then Strict else Lenient)"

end
