(* ===== verification/Patch_Streaming.thy ===== *)
theory Patch_Streaming
  imports Patch_Parser
begin

section \<open>The streaming parser of apply\_patch\<close>

text \<open>
  \<open>codex-rs/apply-patch/src/streaming_parser.rs\<close>: the line-driven state machine that keeps
  the live preview of a patch while the model is still writing it. Operations return the
  new state beside a result, as \<open>&mut self\<close> with a \<open>Result\<close> does. The code walks the
  delta by scalar value, but everything except a newline is only appended to the line
  buffer, so walking it by byte is the same.
\<close>

subsection \<open>State\<close>

datatype streaming_parser_mode =
    NotStarted | StartedPatch | AddFileMode | DeleteFileMode
  | UpdateFileMode nat  \<comment> \<open>hunk\_line\_number\<close>
  | EndedPatch

record streaming_patch_parser =
  line_buffer :: string
  state_mode :: streaming_parser_mode
  state_hunks :: "hunk list"
  parser_line :: nat

definition new_streaming_parser :: streaming_patch_parser where
  "new_streaming_parser =
     \<lparr>line_buffer = [], state_mode = NotStarted, state_hunks = [], parser_line = 0\<rparr>"

definition chunk_is_empty :: "update_file_chunk \<Rightarrow> bool" where
  "chunk_is_empty c \<longleftrightarrow> old_lines c = [] \<and> new_lines c = []"

text \<open>\<open>last_mut\<close>: change the last element, if there is one.\<close>

definition map_last :: "('a \<Rightarrow> 'a) \<Rightarrow> 'a list \<Rightarrow> 'a list" where
  "map_last f xs = (if xs = [] then [] else butlast xs @ [f (last xs)])"

subsection \<open>Steps\<close>

definition is_environment_id_preamble_line :: "string \<Rightarrow> bool" where
  "is_environment_id_preamble_line line \<longleftrightarrow> starts_with line ENVIRONMENT_ID_MARKER"

definition ensure_update_hunk_is_not_empty ::
    "streaming_patch_parser \<Rightarrow> string \<Rightarrow> parse_error + unit" where
  "ensure_update_hunk_is_not_empty s line =
     (if state_hunks s = [] then Inr () else
      (case last (state_hunks s) of
         UpdateFile path _ chunks \<Rightarrow>
           (case (chunks, state_mode s) of
              ([], UpdateFileMode hunk_line_number) \<Rightarrow>
                Inl (InvalidHunkError
                  (''Update file hunk for path '' @ quote @ path @ quote @ '' is empty'')
                  hunk_line_number)
            | _ \<Rightarrow>
                if chunks \<noteq> [] \<and> chunk_is_empty (last chunks)
                then (if line = END_PATCH_MARKER
                      then Inl (InvalidHunkError no_lines_message (parser_line s))
                      else Inl (InvalidHunkError (unexpected_line_message line) (parser_line s)))
                else Inr ())
       | _ \<Rightarrow> Inr ()))"

text \<open>The state after opening a new hunk, once the previous one is known not to be empty.\<close>

definition open_hunk ::
    "streaming_patch_parser \<Rightarrow> string \<Rightarrow> hunk \<Rightarrow> streaming_parser_mode
     \<Rightarrow> parse_error + (bool \<times> streaming_patch_parser)" where
  "open_hunk s trimmed h m =
     (case ensure_update_hunk_is_not_empty s trimmed of
        Inl e \<Rightarrow> Inl e
      | Inr _ \<Rightarrow> Inr (True, s\<lparr>state_hunks := state_hunks s @ [h], state_mode := m\<rparr>))"

definition handle_hunk_headers_and_end_patch ::
    "streaming_patch_parser \<Rightarrow> string \<Rightarrow> parse_error + (bool \<times> streaming_patch_parser)" where
  "handle_hunk_headers_and_end_patch s trimmed =
     (if trimmed = END_PATCH_MARKER then
        (case ensure_update_hunk_is_not_empty s trimmed of
           Inl e \<Rightarrow> Inl e
         | Inr _ \<Rightarrow> Inr (True, s\<lparr>state_mode := EndedPatch\<rparr>))
      else
      (case strip_prefix ADD_FILE_MARKER trimmed of
         Some path \<Rightarrow> open_hunk s trimmed (AddFile path []) AddFileMode
       | None \<Rightarrow>
      (case strip_prefix DELETE_FILE_MARKER trimmed of
         Some path \<Rightarrow> open_hunk s trimmed (DeleteFile path) DeleteFileMode
       | None \<Rightarrow>
      (case strip_prefix UPDATE_FILE_MARKER trimmed of
         Some path \<Rightarrow> open_hunk s trimmed (UpdateFile path None []) (UpdateFileMode (parser_line s))
       | None \<Rightarrow> Inr (False, s)))))"

text \<open>Push an empty first chunk if there is none, then change the last chunk.\<close>

definition with_last_chunk ::
    "(update_file_chunk \<Rightarrow> update_file_chunk) \<Rightarrow> update_file_chunk list \<Rightarrow> update_file_chunk list" where
  "with_last_chunk f chunks = map_last f (if chunks = [] then [empty_chunk None] else chunks)"

definition push_context_line :: "string \<Rightarrow> update_file_chunk \<Rightarrow> update_file_chunk" where
  "push_context_line l c = c\<lparr>old_lines := old_lines c @ [l], new_lines := new_lines c @ [l]\<rparr>"

definition push_added_line :: "string \<Rightarrow> update_file_chunk \<Rightarrow> update_file_chunk" where
  "push_added_line l c = c\<lparr>new_lines := new_lines c @ [l]\<rparr>"

definition push_removed_line :: "string \<Rightarrow> update_file_chunk \<Rightarrow> update_file_chunk" where
  "push_removed_line l c = c\<lparr>old_lines := old_lines c @ [l]\<rparr>"

text \<open>
  The part of the \<open>UpdateFile\<close> arm of \<open>process_line\<close> that changes the current hunk: from
  the hunk's move path and chunks to the new ones. \<open>n\<close> is the current line number.
\<close>

definition update_file_line ::
    "nat \<Rightarrow> string \<Rightarrow> string option \<Rightarrow> update_file_chunk list
     \<Rightarrow> parse_error + (string option \<times> update_file_chunk list)" where
  "update_file_line n line move_path chunks =
     (let update_line = trim_end line;
          last_is_empty = (chunks \<noteq> [] \<and> chunk_is_empty (last chunks)) in
      if chunks = [] \<and> move_path = None \<and> starts_with update_line MOVE_TO_MARKER
        then Inr (strip_prefix MOVE_TO_MARKER update_line, chunks)
      else if (update_line = EMPTY_CHANGE_CONTEXT_MARKER
               \<or> starts_with update_line CHANGE_CONTEXT_MARKER) \<and> last_is_empty
        then Inl (InvalidHunkError (unexpected_line_message line) n)
      else if update_line = EMPTY_CHANGE_CONTEXT_MARKER
        then Inr (move_path, chunks @ [empty_chunk None])
      else (case strip_prefix CHANGE_CONTEXT_MARKER update_line of
        Some ctx \<Rightarrow> Inr (move_path, chunks @ [empty_chunk (Some ctx)])
      | None \<Rightarrow>
      if update_line = EOF_MARKER then
        (if last_is_empty then Inl (InvalidHunkError no_lines_message n)
         else Inr (move_path, map_last (\<lambda>c. c\<lparr>is_end_of_file := True\<rparr>) chunks))
      else (case line of
        [] \<Rightarrow> Inr (move_path, with_last_chunk (push_context_line []) chunks)
      | c # l \<Rightarrow>
        if c = CHR '' '' then Inr (move_path, with_last_chunk (push_context_line l) chunks)
        else if c = CHR ''+'' then Inr (move_path, with_last_chunk (push_added_line l) chunks)
        else if c = CHR ''-'' then Inr (move_path, with_last_chunk (push_removed_line l) chunks)
        else if chunks \<noteq> [] \<and> \<not> chunk_is_empty (last chunks)
          then Inl (InvalidHunkError
            (''Expected update hunk to start with a @@ context marker, got: '' @ quote @ line @ quote) n)
        else Inl (InvalidHunkError (unexpected_line_message line) n))))"

definition process_line :: "streaming_patch_parser \<Rightarrow> string \<Rightarrow> parse_error + streaming_patch_parser" where
  "process_line s line =
     (let trimmed = trim line in
      case state_mode s of
        NotStarted \<Rightarrow>
          if trimmed = BEGIN_PATCH_MARKER then Inr (s\<lparr>state_mode := StartedPatch\<rparr>)
          else Inl (InvalidPatchError first_line_message)
      | StartedPatch \<Rightarrow>
          if is_environment_id_preamble_line line then Inr s
          else (case handle_hunk_headers_and_end_patch s trimmed of
             Inl e \<Rightarrow> Inl e
           | Inr (True, s') \<Rightarrow> Inr s'
           | Inr (False, s') \<Rightarrow> Inl (InvalidHunkError (invalid_header_message trimmed) (parser_line s)))
      | AddFileMode \<Rightarrow>
          (case handle_hunk_headers_and_end_patch s trimmed of
             Inl e \<Rightarrow> Inl e
           | Inr (True, s') \<Rightarrow> Inr s'
           | Inr (False, s') \<Rightarrow>
               (case (strip_prefix ''+'' line, rev (state_hunks s)) of
                  (Some line_to_add, AddFile path contents # earlier) \<Rightarrow>
                    Inr (s\<lparr>state_hunks :=
                      rev earlier @ [AddFile path (contents @ line_to_add @ [CHR 0x0A])]\<rparr>)
                | _ \<Rightarrow> Inl (InvalidHunkError (invalid_header_message trimmed) (parser_line s))))
      | DeleteFileMode \<Rightarrow>
          (case handle_hunk_headers_and_end_patch s trimmed of
             Inl e \<Rightarrow> Inl e
           | Inr (True, s') \<Rightarrow> Inr s'
           | Inr (False, s') \<Rightarrow> Inl (InvalidHunkError (invalid_header_message trimmed) (parser_line s)))
      | UpdateFileMode hunk_line_number \<Rightarrow>
          (case handle_hunk_headers_and_end_patch s (trim_end line) of
             Inl e \<Rightarrow> Inl e
           | Inr (True, s') \<Rightarrow> Inr s'
           | Inr (False, s') \<Rightarrow>
               (case rev (state_hunks s) of
                  UpdateFile path move_path chunks # earlier \<Rightarrow>
                    (case update_file_line (parser_line s) line move_path chunks of
                       Inl e \<Rightarrow> Inl e
                     | Inr (move_path', chunks') \<Rightarrow>
                         Inr (s\<lparr>state_hunks := rev earlier @ [UpdateFile path move_path' chunks'],
                                state_mode := UpdateFileMode hunk_line_number\<rparr>))
                | _ \<Rightarrow> Inl (InvalidHunkError (unexpected_line_message line) (parser_line s))))
      | EndedPatch \<Rightarrow> Inr s)"

text \<open>One byte of a delta; an error ends the delta, with the line already taken and counted.\<close>

definition push_char ::
    "streaming_patch_parser \<Rightarrow> char \<Rightarrow> streaming_patch_parser \<times> (parse_error + unit)" where
  "push_char s ch =
     (if ch = CHR 0x0A then
        (let line = strip_cr (line_buffer s);
             s1 = s\<lparr>line_buffer := [], parser_line := parser_line s + 1\<rparr>
         in case process_line s1 line of Inl e \<Rightarrow> (s1, Inl e) | Inr s2 \<Rightarrow> (s2, Inr ()))
      else (s\<lparr>line_buffer := line_buffer s @ [ch]\<rparr>, Inr ()))"

fun push_delta ::
    "streaming_patch_parser \<Rightarrow> string \<Rightarrow> streaming_patch_parser \<times> (parse_error + hunk list)" where
  "push_delta s [] = (s, Inr (state_hunks s))"
| "push_delta s (ch # delta) =
     (case push_char s ch of
        (s', Inl e) \<Rightarrow> (s', Inl e)
      | (s', Inr _) \<Rightarrow> push_delta s' delta)"

definition finish_line_step ::
    "streaming_patch_parser \<Rightarrow> streaming_patch_parser \<times> (parse_error + unit)" where
  "finish_line_step s =
     (if line_buffer s = [] then (s, Inr ())
      else
        (let line = line_buffer s;
             s1 = s\<lparr>line_buffer := [], parser_line := parser_line s + 1\<rparr>
         in if trim line = END_PATCH_MARKER then
              (case ensure_update_hunk_is_not_empty s1 (trim line) of
                 Inl e \<Rightarrow> (s1, Inl e)
               | Inr _ \<Rightarrow> (s1\<lparr>state_mode := EndedPatch\<rparr>, Inr ()))
            else (case process_line s1 line of Inl e \<Rightarrow> (s1, Inl e) | Inr s2 \<Rightarrow> (s2, Inr ()))))"

definition finish ::
    "streaming_patch_parser \<Rightarrow> streaming_patch_parser \<times> (parse_error + hunk list)" where
  "finish s =
     (case finish_line_step s of
        (s1, Inl e) \<Rightarrow> (s1, Inl e)
      | (s1, Inr _) \<Rightarrow>
          if state_mode s1 \<noteq> EndedPatch then (s1, Inl (InvalidPatchError last_line_message))
          else (s1, Inr (state_hunks s1)))"

subsection \<open>Deltas compose\<close>

text \<open>
  Pushing two deltas one after the other is pushing their concatenation, errors included:
  after an error in the first delta the second is never looked at.
\<close>

lemma push_delta_append:
  "push_delta s (a @ b) =
     (case push_delta s a of
        (s', Inl e) \<Rightarrow> (s', Inl e)
      | (s', Inr _) \<Rightarrow> push_delta s' b)"
  by (induction a arbitrary: s) (auto split: prod.splits sum.splits)

subsection \<open>The shape every state keeps\<close>

fun complete_hunk :: "hunk \<Rightarrow> bool" where
  "complete_hunk (UpdateFile _ _ chunks) \<longleftrightarrow>
     chunks \<noteq> [] \<and> (\<forall>c \<in> set chunks. \<not> chunk_is_empty c)"
| "complete_hunk _ \<longleftrightarrow> True"

fun open_hunk_ok :: "hunk \<Rightarrow> bool" where
  "open_hunk_ok (UpdateFile _ _ chunks) \<longleftrightarrow> (\<forall>c \<in> set (butlast chunks). \<not> chunk_is_empty c)"
| "open_hunk_ok _ \<longleftrightarrow> True"

fun mode_matches :: "streaming_parser_mode \<Rightarrow> hunk list \<Rightarrow> bool" where
  "mode_matches NotStarted hs \<longleftrightarrow> hs = []"
| "mode_matches StartedPatch hs \<longleftrightarrow> hs = []"
| "mode_matches AddFileMode hs \<longleftrightarrow> (\<exists>p c. hs \<noteq> [] \<and> last hs = AddFile p c)"
| "mode_matches DeleteFileMode hs \<longleftrightarrow> (\<exists>p. hs \<noteq> [] \<and> last hs = DeleteFile p)"
| "mode_matches (UpdateFileMode _) hs \<longleftrightarrow> (\<exists>p m cs. hs \<noteq> [] \<and> last hs = UpdateFile p m cs)"
| "mode_matches EndedPatch hs \<longleftrightarrow> (\<forall>h \<in> set hs. complete_hunk h)"

definition streaming_inv :: "streaming_patch_parser \<Rightarrow> bool" where
  "streaming_inv s \<longleftrightarrow>
     (\<forall>h \<in> set (butlast (state_hunks s)). complete_hunk h) \<and>
     (state_hunks s \<noteq> [] \<longrightarrow> open_hunk_ok (last (state_hunks s))) \<and>
     mode_matches (state_mode s) (state_hunks s)"

lemma streaming_inv_new [simp]: "streaming_inv new_streaming_parser"
  by (simp add: streaming_inv_def new_streaming_parser_def)

lemma streaming_inv_bookkeeping [simp]:
  "streaming_inv (s\<lparr>line_buffer := b, parser_line := n\<rparr>) = streaming_inv s"
  "streaming_inv (s\<lparr>line_buffer := b\<rparr>) = streaming_inv s"
  by (simp_all add: streaming_inv_def)

lemma set_butlast_last: "xs \<noteq> [] \<Longrightarrow> set xs = insert (last xs) (set (butlast xs))"
  by (induction xs) auto

lemma complete_all:
  "\<forall>h \<in> set (butlast hs). complete_hunk h \<Longrightarrow> (hs \<noteq> [] \<Longrightarrow> complete_hunk (last hs))
    \<Longrightarrow> \<forall>h \<in> set hs. complete_hunk h"
  by (cases "hs = []") (auto simp: set_butlast_last)

lemma ensure_complete:
  assumes "streaming_inv s" and "ensure_update_hunk_is_not_empty s line = Inr u"
  shows "\<forall>h \<in> set (state_hunks s). complete_hunk h"
proof (rule complete_all)
  show "\<forall>h \<in> set (butlast (state_hunks s)). complete_hunk h"
    using assms(1) by (simp add: streaming_inv_def)
  assume ne: "state_hunks s \<noteq> []"
  show "complete_hunk (last (state_hunks s))"
  proof (cases "last (state_hunks s)")
    case (UpdateFile path m chunks)
    have mode: "state_mode s = EndedPatch \<or> (\<exists>n. state_mode s = UpdateFileMode n)"
      using assms(1) ne UpdateFile by (cases "state_mode s") (auto simp: streaming_inv_def)
    show ?thesis
    proof (cases "state_mode s = EndedPatch")
      case True
      with assms(1) ne show ?thesis by (auto simp: streaming_inv_def)
    next
      case False
      with mode assms(2) ne UpdateFile
      have "chunks \<noteq> [] \<and> \<not> chunk_is_empty (last chunks)"
        by (auto simp: ensure_update_hunk_is_not_empty_def split: if_splits list.splits)
      moreover have "\<forall>c \<in> set (butlast chunks). \<not> chunk_is_empty c"
        using assms(1) ne UpdateFile by (simp add: streaming_inv_def)
      ultimately show ?thesis
        using UpdateFile by (auto simp: set_butlast_last)
    qed
  qed simp_all
qed

lemma open_hunk_inv:
  assumes "streaming_inv s" and "open_hunk s line h m = Inr (b, s')"
    and "mode_matches m [h]" and "open_hunk_ok h" and "m \<noteq> EndedPatch"
  shows "streaming_inv s'"
proof -
  from assms(2) obtain u where u: "ensure_update_hunk_is_not_empty s line = Inr u"
    and s': "s' = s\<lparr>state_hunks := state_hunks s @ [h], state_mode := m\<rparr>"
    by (auto simp: open_hunk_def split: sum.splits)
  have "mode_matches m (state_hunks s @ [h])"
    using assms(3,5) by (cases m) auto
  with ensure_complete [OF assms(1) u] s' assms(4) show ?thesis
    by (simp add: streaming_inv_def)
qed

lemma handle_headers_inv:
  assumes "streaming_inv s" and "handle_hunk_headers_and_end_patch s line = Inr (b, s')"
  shows "streaming_inv s'"
proof -
  have ended: "streaming_inv (s\<lparr>state_mode := EndedPatch\<rparr>)"
    if "ensure_update_hunk_is_not_empty s line = Inr u" for u
    using ensure_complete [OF assms(1) that] assms(1) by (simp add: streaming_inv_def)
  show ?thesis
    using assms(2) ended assms(1)
    by (auto simp: handle_hunk_headers_and_end_patch_def
        split: if_splits sum.splits option.splits intro: open_hunk_inv)
qed

lemma map_last_snoc [simp]: "map_last f (xs @ [x]) = xs @ [f x]"
  by (simp add: map_last_def)

lemma map_last_Nil [simp]: "map_last f [] = []"
  by (simp add: map_last_def)

lemma butlast_map_last [simp]: "butlast (map_last f xs) = butlast xs"
  by (simp add: map_last_def)

lemma push_lines_not_empty [simp]:
  "\<not> chunk_is_empty (push_context_line l c)"
  "\<not> chunk_is_empty (push_added_line l c)"
  "\<not> chunk_is_empty (push_removed_line l c)"
  by (simp_all add: chunk_is_empty_def push_context_line_def push_added_line_def push_removed_line_def)

lemma with_last_chunk_butlast:
  "butlast (with_last_chunk f chunks) = butlast chunks"
  by (cases "chunks = []") (auto simp: with_last_chunk_def map_last_def)

text \<open>Only the last chunk can be empty: a second header is refused while it is.\<close>

lemma update_file_line_butlast:
  assumes "update_file_line n line mp chunks = Inr (mp', chunks')"
    and "\<forall>c \<in> set (butlast chunks). \<not> chunk_is_empty c"
  shows "\<forall>c \<in> set (butlast chunks'). \<not> chunk_is_empty c"
proof -
  have snoc: "\<forall>c \<in> set chunks. \<not> chunk_is_empty c"
    if "chunks = [] \<or> \<not> chunk_is_empty (last chunks)"
    using that assms(2) by (cases "chunks = []") (auto simp: set_butlast_last)
  show ?thesis
    using assms snoc
    by (auto simp: update_file_line_def Let_def with_last_chunk_butlast starts_with_def
        split: if_splits option.splits list.splits)
qed

lemma process_line_inv:
  assumes "streaming_inv s" and "process_line s line = Inr s'"
  shows "streaming_inv s'"
proof (cases "state_mode s")
  case AddFileMode
  have "streaming_inv (s\<lparr>state_hunks := rev earlier @ [AddFile p c]\<rparr>)"
    if "rev (state_hunks s) = h # earlier" for earlier h p c
    using assms(1) that AddFileMode
    by (auto simp: streaming_inv_def)
  with assms AddFileMode show ?thesis
    by (auto simp: process_line_def Let_def dest: handle_headers_inv
        split: sum.splits prod.splits bool.splits option.splits list.splits hunk.splits)
next
  case (UpdateFileMode k)
  have "streaming_inv (s\<lparr>state_hunks := rev earlier @ [UpdateFile p m' cs'], state_mode := UpdateFileMode k\<rparr>)"
    if "rev (state_hunks s) = UpdateFile p m cs # earlier"
      and "update_file_line n line m cs = Inr (m', cs')" for earlier p m cs m' cs' n
    using assms(1) that update_file_line_butlast [OF that(2)]
    by (auto simp: streaming_inv_def)
  with assms UpdateFileMode show ?thesis
    by (auto simp: process_line_def Let_def dest: handle_headers_inv
        split: sum.splits prod.splits bool.splits option.splits list.splits hunk.splits)
next
  case NotStarted
  with assms show ?thesis
    by (auto simp: process_line_def Let_def streaming_inv_def split: if_splits)
qed (use assms in \<open>auto simp: process_line_def Let_def dest: handle_headers_inv
        split: if_splits sum.splits prod.splits bool.splits\<close>)

lemma push_char_inv:
  "streaming_inv s \<Longrightarrow> push_char s ch = (s', r) \<Longrightarrow> streaming_inv s'"
  by (auto simp: push_char_def Let_def split: if_splits sum.splits dest: process_line_inv [rotated])

lemma push_delta_inv:
  "streaming_inv s \<Longrightarrow> push_delta s delta = (s', r) \<Longrightarrow> streaming_inv s'"
  by (induction delta arbitrary: s)
     (auto split: prod.splits sum.splits dest: push_char_inv)

lemma finish_line_step_inv:
  assumes "streaming_inv s" and "finish_line_step s = (s', r)"
  shows "streaming_inv s'"
proof -
  have "streaming_inv (s1\<lparr>state_mode := EndedPatch\<rparr>)"
    if "streaming_inv s1" "ensure_update_hunk_is_not_empty s1 l = Inr u" for s1 l u
    using ensure_complete [OF that] that(1) by (simp add: streaming_inv_def)
  then show ?thesis
    using assms
    by (auto simp: finish_line_step_def Let_def split: if_splits sum.splits dest: process_line_inv [rotated])
qed

lemma finish_inv: "streaming_inv s \<Longrightarrow> finish s = (s', r) \<Longrightarrow> streaming_inv s'"
  by (auto simp: finish_def split: prod.splits sum.splits if_splits dest: finish_line_step_inv)

lemma finish_complete:
  assumes "streaming_inv s" and "finish s = (s', Inr hs)"
  shows "\<forall>h \<in> set hs. complete_hunk h"
proof -
  from assms(2) have "state_mode s' = EndedPatch" "hs = state_hunks s'"
    by (auto simp: finish_def split: prod.splits sum.splits if_splits)
  with finish_inv [OF assms] show ?thesis by (simp add: streaming_inv_def)
qed

subsection \<open>The preview only grows\<close>

definition prefix_of :: "'a list \<Rightarrow> 'a list \<Rightarrow> bool" where
  "prefix_of xs ys \<longleftrightarrow> starts_with ys xs"

definition chunk_grows :: "update_file_chunk \<Rightarrow> update_file_chunk \<Rightarrow> bool" where
  "chunk_grows c c' \<longleftrightarrow>
     change_context c' = change_context c \<and> prefix_of (old_lines c) (old_lines c') \<and>
     prefix_of (new_lines c) (new_lines c') \<and> (is_end_of_file c \<longrightarrow> is_end_of_file c')"

text \<open>Pointwise growth of a list that may also get longer.\<close>

definition list_grows :: "('a \<Rightarrow> 'a \<Rightarrow> bool) \<Rightarrow> 'a list \<Rightarrow> 'a list \<Rightarrow> bool" where
  "list_grows R xs ys \<longleftrightarrow> length xs \<le> length ys \<and> (\<forall>i < length xs. R (xs ! i) (ys ! i))"

fun hunk_grows :: "hunk \<Rightarrow> hunk \<Rightarrow> bool" where
  "hunk_grows (AddFile p c) (AddFile p' c') \<longleftrightarrow> p' = p \<and> prefix_of c c'"
| "hunk_grows (DeleteFile p) (DeleteFile p') \<longleftrightarrow> p' = p"
| "hunk_grows (UpdateFile p m cs) (UpdateFile p' m' cs') \<longleftrightarrow>
     p' = p \<and> (m \<noteq> None \<longrightarrow> m' = m) \<and> list_grows chunk_grows cs cs'"
| "hunk_grows _ _ \<longleftrightarrow> False"

definition preview_extends :: "hunk list \<Rightarrow> hunk list \<Rightarrow> bool" where
  "preview_extends hs hs' \<longleftrightarrow>
     list_grows hunk_grows hs hs' \<and> (\<forall>i. Suc i < length hs \<longrightarrow> hs' ! i = hs ! i)"

lemma prefix_of_refl [simp]: "prefix_of xs xs"
  by (simp add: prefix_of_def starts_with_iff)

lemma prefix_of_append [simp]: "prefix_of xs (xs @ ys)"
  by (simp add: prefix_of_def)

lemma prefix_of_Nil [simp]: "prefix_of [] ys"
  by (simp add: prefix_of_def starts_with_iff)

lemma prefix_of_trans: "prefix_of xs ys \<Longrightarrow> prefix_of ys zs \<Longrightarrow> prefix_of xs zs"
  by (auto simp: prefix_of_def starts_with_iff)

lemma list_grows_refl: "(\<And>x. R x x) \<Longrightarrow> list_grows R xs xs"
  by (simp add: list_grows_def)

lemma list_grows_trans:
  assumes "\<And>x y z. R x y \<Longrightarrow> R y z \<Longrightarrow> R x z" and "list_grows R xs ys" and "list_grows R ys zs"
  shows "list_grows R xs zs"
  unfolding list_grows_def
proof (intro conjI allI impI)
  show "length xs \<le> length zs" using assms(2,3) by (simp add: list_grows_def)
  fix i assume i: "i < length xs"
  with assms(2) have "i < length ys" by (simp add: list_grows_def)
  with i assms show "R (xs ! i) (zs ! i)" unfolding list_grows_def by blast
qed

lemma list_grows_snoc: "(\<And>x. R x x) \<Longrightarrow> list_grows R xs (xs @ ys)"
  by (auto simp: list_grows_def nth_append)

lemma list_grows_last:
  "(\<And>x. R x x) \<Longrightarrow> R x y \<Longrightarrow> list_grows R (xs @ [x]) (xs @ [y])"
  by (auto simp: list_grows_def nth_append)

lemma chunk_grows_refl [simp]: "chunk_grows c c"
  by (simp add: chunk_grows_def)

lemma chunk_grows_trans: "chunk_grows a b \<Longrightarrow> chunk_grows b c \<Longrightarrow> chunk_grows a c"
  by (auto simp: chunk_grows_def intro: prefix_of_trans)

lemma hunk_grows_refl [simp]: "hunk_grows h h"
  by (cases h) (auto intro: list_grows_refl)

lemma hunk_grows_trans: "hunk_grows a b \<Longrightarrow> hunk_grows b c \<Longrightarrow> hunk_grows a c"
  by (cases a; cases b; cases c)
     (auto intro: prefix_of_trans list_grows_trans [of chunk_grows] chunk_grows_trans)

lemma preview_extends_refl [simp]: "preview_extends hs hs"
  by (simp add: preview_extends_def list_grows_refl)

lemma preview_extends_trans:
  assumes "preview_extends a b" and "preview_extends b c"
  shows "preview_extends a c"
proof -
  have "list_grows hunk_grows a c"
    using assms list_grows_trans [of hunk_grows a b c] hunk_grows_trans
    unfolding preview_extends_def by blast
  moreover have "c ! i = a ! i" if "Suc i < length a" for i
  proof -
    have "Suc i < length b" using that assms(1) by (simp add: preview_extends_def list_grows_def)
    with that assms show ?thesis by (simp add: preview_extends_def)
  qed
  ultimately show ?thesis by (simp add: preview_extends_def)
qed

lemma preview_extends_snoc [simp]: "preview_extends hs (hs @ [h])"
  by (auto simp: preview_extends_def nth_append list_grows_snoc)

lemma preview_extends_last: "hunk_grows h h' \<Longrightarrow> preview_extends (hs @ [h]) (hs @ [h'])"
  by (auto simp: preview_extends_def nth_append list_grows_last)

lemma list_grows_map_last:
  "(\<And>x. R x x) \<Longrightarrow> (\<And>x. R x (f x)) \<Longrightarrow> list_grows R xs (map_last f xs)"
  by (cases xs rule: rev_cases) (auto intro: list_grows_last list_grows_refl)

lemma push_lines_grow [simp]:
  "chunk_grows c (push_context_line l c)"
  "chunk_grows c (push_added_line l c)"
  "chunk_grows c (push_removed_line l c)"
  "chunk_grows c (c\<lparr>is_end_of_file := True\<rparr>)"
  by (simp_all add: chunk_grows_def push_context_line_def push_added_line_def push_removed_line_def)

lemma with_last_chunk_grows:
  "(\<And>c. chunk_grows c (f c)) \<Longrightarrow> list_grows chunk_grows chunks (with_last_chunk f chunks)"
  by (cases "chunks = []")
     (auto simp: with_last_chunk_def list_grows_def [of _ "[]"] intro: list_grows_map_last)

lemma update_file_line_grows:
  assumes "update_file_line n line m cs = Inr (m', cs')"
  shows "hunk_grows (UpdateFile p m cs) (UpdateFile p m' cs')"
  using assms
  by (auto simp: update_file_line_def Let_def
      intro: list_grows_refl list_grows_snoc list_grows_map_last with_last_chunk_grows
      split: if_splits option.splits list.splits)

lemma handle_headers_extends:
  "handle_hunk_headers_and_end_patch s line = Inr (b, s')
    \<Longrightarrow> preview_extends (state_hunks s) (state_hunks s')"
  by (auto simp: handle_hunk_headers_and_end_patch_def open_hunk_def
      split: if_splits sum.splits option.splits)

lemma process_line_extends:
  assumes "process_line s line = Inr s'"
  shows "preview_extends (state_hunks s) (state_hunks s')"
  using assms
  by (auto simp: process_line_def Let_def
      dest: handle_headers_extends update_file_line_grows intro!: preview_extends_last
      split: streaming_parser_mode.splits if_splits sum.splits prod.splits bool.splits
        option.splits list.splits hunk.splits)

lemma push_char_extends:
  "push_char s ch = (s', r) \<Longrightarrow> preview_extends (state_hunks s) (state_hunks s')"
  by (auto simp: push_char_def Let_def split: if_splits sum.splits dest: process_line_extends)

lemma push_delta_extends:
  "push_delta s delta = (s', r) \<Longrightarrow> preview_extends (state_hunks s) (state_hunks s')"
  by (induction delta arbitrary: s)
     (auto split: prod.splits sum.splits dest: push_char_extends intro: preview_extends_trans)

subsection \<open>Properties\<close>

text \<open>
  A client pushes the deltas of a patch one by one and stops at the first error.
\<close>

fun push_all :: "streaming_patch_parser \<Rightarrow> string list \<Rightarrow> streaming_patch_parser \<times> (parse_error + hunk list)" where
  "push_all s [] = (s, Inr (state_hunks s))"
| "push_all s (d # ds) =
     (case push_delta s d of
        (s', Inl e) \<Rightarrow> (s', Inl e)
      | (s', Inr _) \<Rightarrow> push_all s' ds)"

text \<open>
  However the text of a patch is cut into deltas, the state, the preview and the error
  of the streaming parser are those of the whole text pushed at once, from any state.
\<close>

theorem push_delta_chunking: "push_all s ds = push_delta s (concat ds)"
  by (induction ds arbitrary: s) (auto simp: push_delta_append split: prod.splits sum.splits)

text \<open>
  The preview only grows: after any delta, accepted or refused, from any state, every
  hunk shown before the last one is unchanged, and the last one keeps its kind, its path,
  its move target, and each of its lines, only with more behind them.
\<close>

theorem preview_only_grows: "preview_extends (state_hunks s) (state_hunks (fst (push_delta s d)))"
  using push_delta_extends [of s d "fst (push_delta s d)" "snd (push_delta s d)"] by simp

text \<open>
  What \<open>finish\<close> accepts is complete: after any deltas, every update hunk of a finished
  patch has a chunk, and no chunk is without lines.
\<close>

theorem finished_patch_complete:
  assumes "snd (finish (fst (push_delta new_streaming_parser d))) = Inr hs"
  shows "\<forall>h \<in> set hs. complete_hunk h"
proof -
  have "streaming_inv (fst (push_delta new_streaming_parser d))"
    using push_delta_inv [of new_streaming_parser d] by (metis prod.collapse streaming_inv_new)
  then show ?thesis using assms finish_complete by (metis prod.collapse)
qed

definition sample_update :: string where
  "sample_update = join [CHR 0x0A]
     [''*** Begin Patch'', ''*** Update File: a.py'', ''@@ def f():'', ''-x'', ''+y'', ''*** End Patch'']"

theorem finished_patch_complete_witness:
  "snd (finish (fst (push_delta new_streaming_parser sample_update))) =
     Inr [UpdateFile ''a.py'' None
       [\<lparr>change_context = Some ''def f():'', old_lines = [''x''], new_lines = [''y''], is_end_of_file = False\<rparr>]]
   \<and> complete_hunk (UpdateFile ''a.py'' None
       [\<lparr>change_context = Some ''def f():'', old_lines = [''x''], new_lines = [''y''], is_end_of_file = False\<rparr>])"
proof -
  have run: "snd (finish (fst (push_delta new_streaming_parser sample_update))) =
     Inr [UpdateFile ''a.py'' None
       [\<lparr>change_context = Some ''def f():'', old_lines = [''x''], new_lines = [''y''], is_end_of_file = False\<rparr>]]"
    by code_simp
  from run finished_patch_complete [OF run] show ?thesis by simp
qed

text \<open>
  An end marker alone, without a newline and without the begin marker, is accepted: the
  branch of \<open>finish\<close> that reads an unterminated last line does not look at the mode.
\<close>

lemma finish_without_begin:
  "snd (push_delta new_streaming_parser END_PATCH_MARKER) = Inr [] \<and>
   snd (finish (fst (push_delta new_streaming_parser END_PATCH_MARKER))) = Inr [] \<and>
   snd (push_delta new_streaming_parser (END_PATCH_MARKER @ [CHR 0x0A])) = Inl (InvalidPatchError first_line_message)"
  by code_simp

end
