(* ===== verification/Patch_Grammar.thy ===== *)
theory Patch_Grammar
  imports Patch_Streaming
begin

section \<open>The patch grammar, and both parsers against it\<close>

text \<open>
  The head comment of \<open>codex-rs/apply-patch/src/parser.rs\<close> gives the patch language as a
  grammar. Here a patch is a document of that grammar; \<open>render\<close> writes it out line by
  line and \<open>denote\<close> says which hunks it means. The specification both parsers are proved
  against is that a rendered document parses to its meaning.
\<close>

subsection \<open>Documents\<close>

datatype diff_line = Context string | Added string | Removed string

datatype doc_chunk = DocChunk "string option" "diff_line list" bool

datatype doc_hunk =
    DocAdd string "string list"
  | DocDelete string
  | DocUpdate string "string option" "doc_chunk list"

fun render_diff_line :: "diff_line \<Rightarrow> string" where
  "render_diff_line (Context l) = CHR '' '' # l"
| "render_diff_line (Added l) = CHR ''+'' # l"
| "render_diff_line (Removed l) = CHR ''-'' # l"

fun render_context :: "string option \<Rightarrow> string" where
  "render_context None = EMPTY_CHANGE_CONTEXT_MARKER"
| "render_context (Some c) = CHANGE_CONTEXT_MARKER @ c"

fun render_chunk :: "doc_chunk \<Rightarrow> string list" where
  "render_chunk (DocChunk ctx ls eof) =
     render_context ctx # map render_diff_line ls @ (if eof then [EOF_MARKER] else [])"

fun render_hunk :: "doc_hunk \<Rightarrow> string list" where
  "render_hunk (DocAdd p ls) = (ADD_FILE_MARKER @ p) # map (Cons (CHR ''+'')) ls"
| "render_hunk (DocDelete p) = [DELETE_FILE_MARKER @ p]"
| "render_hunk (DocUpdate p m cs) =
     (UPDATE_FILE_MARKER @ p) #
     (case m of None \<Rightarrow> [] | Some q \<Rightarrow> [MOVE_TO_MARKER @ q]) @ concat (map render_chunk cs)"

definition render_env :: "string option \<Rightarrow> string list" where
  "render_env e = (case e of None \<Rightarrow> [] | Some i \<Rightarrow> [ENVIRONMENT_ID_MARKER @ i])"

definition render_doc :: "string option \<Rightarrow> doc_hunk list \<Rightarrow> string list" where
  "render_doc e hs =
     BEGIN_PATCH_MARKER # render_env e @ concat (map render_hunk hs) @ [END_PATCH_MARKER]"

definition render_text :: "string option \<Rightarrow> doc_hunk list \<Rightarrow> string" where
  "render_text e hs = join [CHR 0x0A] (render_doc e hs)"

subsection \<open>Their meaning\<close>

fun old_of :: "diff_line list \<Rightarrow> string list" where
  "old_of [] = []"
| "old_of (Context l # ls) = l # old_of ls"
| "old_of (Removed l # ls) = l # old_of ls"
| "old_of (Added l # ls) = old_of ls"

fun new_of :: "diff_line list \<Rightarrow> string list" where
  "new_of [] = []"
| "new_of (Context l # ls) = l # new_of ls"
| "new_of (Removed l # ls) = new_of ls"
| "new_of (Added l # ls) = l # new_of ls"

fun denote_chunk :: "doc_chunk \<Rightarrow> update_file_chunk" where
  "denote_chunk (DocChunk ctx ls eof) =
     \<lparr>change_context = ctx, old_lines = old_of ls, new_lines = new_of ls, is_end_of_file = eof\<rparr>"

fun denote_hunk :: "doc_hunk \<Rightarrow> hunk" where
  "denote_hunk (DocAdd p ls) = AddFile p (concat (map (\<lambda>l. l @ [CHR 0x0A]) ls))"
| "denote_hunk (DocDelete p) = DeleteFile p"
| "denote_hunk (DocUpdate p m cs) = UpdateFile p m (map denote_chunk cs)"

subsection \<open>Well-formed documents\<close>

text \<open>
  Text without a newline or a final carriage return; where a parser trims the line, the
  text also has no trailing white space and is not empty.
\<close>

definition solid :: "string \<Rightarrow> bool" where
  "solid l \<longleftrightarrow> plain_line l \<and> l \<noteq> [] \<and> trim_end l = l"

fun diff_line_text :: "diff_line \<Rightarrow> string" where
  "diff_line_text (Context l) = l"
| "diff_line_text (Added l) = l"
| "diff_line_text (Removed l) = l"

fun wf_chunk :: "doc_chunk \<Rightarrow> bool" where
  "wf_chunk (DocChunk ctx ls eof) \<longleftrightarrow>
     (case ctx of None \<Rightarrow> True | Some c \<Rightarrow> solid c) \<and> ls \<noteq> [] \<and>
     (\<forall>l \<in> set ls. plain_line (diff_line_text l))"

fun wf_hunk :: "doc_hunk \<Rightarrow> bool" where
  "wf_hunk (DocAdd p ls) \<longleftrightarrow> solid p \<and> (\<forall>l \<in> set ls. plain_line l)"
| "wf_hunk (DocDelete p) \<longleftrightarrow> solid p"
| "wf_hunk (DocUpdate p m cs) \<longleftrightarrow>
     solid p \<and> (case m of None \<Rightarrow> True | Some q \<Rightarrow> solid q) \<and> cs \<noteq> [] \<and> (\<forall>c \<in> set cs. wf_chunk c)"

definition wf_env :: "string option \<Rightarrow> bool" where
  "wf_env e \<longleftrightarrow> (case e of None \<Rightarrow> True | Some i \<Rightarrow> solid i \<and> trim_start i = i)"

definition wf_doc :: "string option \<Rightarrow> doc_hunk list \<Rightarrow> bool" where
  "wf_doc e hs \<longleftrightarrow> wf_env e \<and> (\<forall>h \<in> set hs. wf_hunk h)"

subsection \<open>Trimming rendered lines\<close>

lemma ascii_markers [simp]:
  "\<forall>b \<in> set ADD_FILE_MARKER. ascii b" "\<forall>b \<in> set DELETE_FILE_MARKER. ascii b"
  "\<forall>b \<in> set UPDATE_FILE_MARKER. ascii b" "\<forall>b \<in> set MOVE_TO_MARKER. ascii b"
  "\<forall>b \<in> set ENVIRONMENT_ID_MARKER. ascii b" "\<forall>b \<in> set CHANGE_CONTEXT_MARKER. ascii b"
  "\<forall>b \<in> set BEGIN_PATCH_MARKER. ascii b" "\<forall>b \<in> set END_PATCH_MARKER. ascii b"
  by (simp_all add: marker_defs ascii_def)

lemma trim_end_marker: "\<forall>b \<in> set m. ascii b \<Longrightarrow> solid p \<Longrightarrow> trim_end (m @ p) = m @ p"
  by (simp add: solid_def trim_end_append)

lemma trim_star:
  assumes "\<forall>b \<in> set (CHR ''*'' # ms). ascii b" and "solid p"
  shows "trim (CHR ''*'' # ms @ p) = CHR ''*'' # ms @ p"
proof -
  have "\<not> is_whitespace ''*''" by (simp add: is_whitespace_def white_space_def)
  then show ?thesis using assms by (intro trim_marker) (auto simp: solid_def)
qed

lemma trim_headers [simp]:
  assumes "solid p"
  shows "trim (ADD_FILE_MARKER @ p) = ADD_FILE_MARKER @ p"
    and "trim (DELETE_FILE_MARKER @ p) = DELETE_FILE_MARKER @ p"
    and "trim (UPDATE_FILE_MARKER @ p) = UPDATE_FILE_MARKER @ p"
  using assms trim_star [of "''** Add File: ''" p] trim_star [of "''** Delete File: ''" p]
    trim_star [of "''** Update File: ''" p]
  by (simp_all add: marker_defs ascii_def)

lemma trim_boundaries [simp]:
  "trim BEGIN_PATCH_MARKER = BEGIN_PATCH_MARKER" "trim END_PATCH_MARKER = END_PATCH_MARKER"
  by (simp_all add: marker_defs trim_def trim_start_def trim_end_def is_whitespace_def white_space_def ascii_def)

text \<open>A string that ends in a byte no white space ends in has nothing to trim at its end.\<close>

lemma last_concat: "xs \<noteq> [] \<Longrightarrow> last xs \<noteq> [] \<Longrightarrow> last (concat xs) = last (last xs)"
  by (induction xs) (auto simp: last_append)

lemma last_chars: "s \<noteq> [] \<Longrightarrow> last (last (chars s)) = last s"
  using last_concat [of "chars s"] chars_nonempty [of "last (chars s)" s] by simp

lemma trim_end_solid_last:
  assumes "s \<noteq> []" and "\<forall>w \<in> set white_space. last w \<noteq> last s"
  shows "trim_end s = s"
proof -
  have "\<not> is_whitespace (last (chars s))"
    using assms last_chars [OF assms(1)] by (auto simp: is_whitespace_def)
  then have "dropWhile is_whitespace (rev (chars s)) = rev (chars s)"
    using assms(1) by (cases "chars s" rule: rev_cases) auto
  then show ?thesis by (simp add: trim_end_def)
qed

lemma trim_end_prefix: "\<exists>r. s = trim_end s @ r"
proof -
  let ?d = "dropWhile is_whitespace (rev (chars s))"
  have "rev (chars s) = takeWhile is_whitespace (rev (chars s)) @ ?d" by simp
  then have "chars s = rev ?d @ rev (takeWhile is_whitespace (rev (chars s)))"
    by (metis rev_append rev_rev_ident)
  then have "s = concat (rev ?d) @ concat (rev (takeWhile is_whitespace (rev (chars s))))"
    by (metis concat_append concat_chars)
  then show ?thesis by (auto simp: trim_end_def)
qed

lemma trim_end_Cons_cases: "trim_end (c # l) = [] \<or> (\<exists>r. trim_end (c # l) = c # r)"
  using trim_end_prefix [of "c # l"] by (cases "trim_end (c # l)") auto

lemma plain_line_Cons [simp]:
  assumes "c \<noteq> CHR 0x0A" and "c \<noteq> CHR 0x0D" and "plain_line l"
  shows "plain_line (c # l)"
proof (cases l rule: rev_cases)
  case Nil
  with assms show ?thesis
    by (auto simp: plain_line_def strip_cr_def strip_suffix_Some Cons_eq_append_conv split: option.splits)
next
  case (snoc l' d)
  with assms show ?thesis
    by (auto simp: plain_line_def strip_cr_def strip_suffix_Some Cons_eq_append_conv
        split: option.splits)
qed

lemma plain_line_append:
  "plain_line l \<Longrightarrow> CHR 0x0A \<notin> set m \<Longrightarrow> CHR 0x0D \<notin> set m \<Longrightarrow> plain_line (m @ l)"
  by (induction m) auto

lemma plain_line_const: "CHR 0x0A \<notin> set m \<Longrightarrow> CHR 0x0D \<notin> set m \<Longrightarrow> plain_line m"
  using plain_line_append [of "[]" m]
  by (simp add: plain_line_def strip_cr_def strip_suffix_Some split: option.splits)

lemma marker_no_newline [simp]:
  "CHR 0x0A \<notin> set ADD_FILE_MARKER" "CHR 0x0D \<notin> set ADD_FILE_MARKER"
  "CHR 0x0A \<notin> set DELETE_FILE_MARKER" "CHR 0x0D \<notin> set DELETE_FILE_MARKER"
  "CHR 0x0A \<notin> set UPDATE_FILE_MARKER" "CHR 0x0D \<notin> set UPDATE_FILE_MARKER"
  "CHR 0x0A \<notin> set MOVE_TO_MARKER" "CHR 0x0D \<notin> set MOVE_TO_MARKER"
  "CHR 0x0A \<notin> set ENVIRONMENT_ID_MARKER" "CHR 0x0D \<notin> set ENVIRONMENT_ID_MARKER"
  "CHR 0x0A \<notin> set CHANGE_CONTEXT_MARKER" "CHR 0x0D \<notin> set CHANGE_CONTEXT_MARKER"
  "CHR 0x0A \<notin> set EMPTY_CHANGE_CONTEXT_MARKER" "CHR 0x0D \<notin> set EMPTY_CHANGE_CONTEXT_MARKER"
  "CHR 0x0A \<notin> set BEGIN_PATCH_MARKER" "CHR 0x0D \<notin> set BEGIN_PATCH_MARKER"
  "CHR 0x0A \<notin> set END_PATCH_MARKER" "CHR 0x0D \<notin> set END_PATCH_MARKER"
  "CHR 0x0A \<notin> set EOF_MARKER" "CHR 0x0D \<notin> set EOF_MARKER"
  by (simp_all add: marker_defs)

lemma solid_plain: "solid l \<Longrightarrow> plain_line l"
  by (simp add: solid_def)

lemma render_chunk_plain: "wf_chunk c \<Longrightarrow> l \<in> set (render_chunk c) \<Longrightarrow> plain_line l"
proof (cases c)
  case (DocChunk ctx ls eof)
  have "plain_line (render_diff_line d)" if "plain_line (diff_line_text d)" for d
    using that by (cases d) auto
  moreover assume "wf_chunk c" "l \<in> set (render_chunk c)"
  ultimately show ?thesis
    using DocChunk
    by (cases ctx) (auto simp: plain_line_const plain_line_append solid_plain split: if_splits)
qed

lemma render_hunk_plain: "wf_hunk h \<Longrightarrow> l \<in> set (render_hunk h) \<Longrightarrow> plain_line l"
  by (cases h) (auto simp: plain_line_append solid_plain intro: render_chunk_plain split: option.splits)

lemma render_doc_plain: "wf_doc e hs \<Longrightarrow> l \<in> set (render_doc e hs) \<Longrightarrow> plain_line l"
  by (auto simp: wf_doc_def wf_env_def render_doc_def render_env_def plain_line_const
      plain_line_append solid_plain intro: render_hunk_plain split: option.splits)


subsection \<open>The batch parser reads documents\<close>

text \<open>What may follow a chunk, and what may follow a hunk.\<close>

definition chunk_stop :: "string list \<Rightarrow> bool" where
  "chunk_stop fs \<longleftrightarrow>
     fs = [] \<or> (\<exists>c l r. fs = (c # l) # r \<and> c \<notin> {CHR '' '', CHR ''+'', CHR ''-''} \<and> c # l \<noteq> EOF_MARKER)"

definition hunk_stop :: "string list \<Rightarrow> bool" where
  "hunk_stop fs \<longleftrightarrow> fs = [] \<or> (\<exists>l r. fs = (CHR ''*'' # l) # r \<and> CHR ''*'' # l \<noteq> EOF_MARKER)"

lemma hunk_stop_chunk_stop: "hunk_stop fs \<Longrightarrow> chunk_stop fs"
  by (auto simp: hunk_stop_def chunk_stop_def)

lemma render_diff_line_not_EOF [simp]: "render_diff_line d \<noteq> EOF_MARKER"
  by (cases d) (simp_all add: EOF_MARKER_def)

lemma chunk_loop_render:
  assumes "chunk_stop fs" and "0 < p + length ls"
  shows "chunk_loop (map render_diff_line ls @ (if eof then [EOF_MARKER] else []) @ fs) p n c =
    Inr (c\<lparr>old_lines := old_lines c @ old_of ls, new_lines := new_lines c @ new_of ls,
           is_end_of_file := eof \<or> is_end_of_file c\<rparr>,
         p + length ls + (if eof then 1 else 0))"
  using assms(2)
proof (induction ls arbitrary: p c)
  case Nil
  with assms(1) show ?case by (cases c) (auto simp: chunk_stop_def)
next
  case (Cons d ls)
  then show ?case by (cases d; cases c) (auto simp: EOF_MARKER_def)
qed

lemma chunk_header_render:
  assumes "case ctx of None \<Rightarrow> True | Some c \<Rightarrow> solid c"
  shows "chunk_header (render_context ctx) n b = Inr (ctx, 1)"
  using assms
  by (cases ctx) (auto simp: chunk_header_def marker_defs solid_def)

lemma parse_chunk_render:
  assumes "wf_chunk c" and "chunk_stop fs"
  shows "parse_update_file_chunk (render_chunk c @ fs) n b = Inr (denote_chunk c, length (render_chunk c))"
proof (cases c)
  case (DocChunk ctx ls eof)
  with assms have "0 < 0 + length ls" by simp
  from chunk_loop_render [OF assms(2) this] chunk_header_render [of ctx n b] DocChunk assms(1)
  show ?thesis
    by (auto simp: parse_update_file_chunk_def empty_chunk_def)
qed

lemma nonblank: "ascii c \<Longrightarrow> \<not> is_whitespace [c] \<Longrightarrow> trim (c # l) \<noteq> []"
proof -
  assume c: "ascii c" "\<not> is_whitespace [c]"
  then have "\<exists>x \<in> set (rev (chars (c # l))). \<not> is_whitespace x" by simp
  then have "dropWhile is_whitespace (rev (chars (c # l))) \<noteq> []" by simp
  then obtain x xs where d: "dropWhile is_whitespace (rev (chars (c # l))) = x # xs"
    by (cases "dropWhile is_whitespace (rev (chars (c # l)))") auto
  then have "x \<in> set (chars (c # l))"
    by (metis list.set_intros(1) set_dropWhileD set_rev)
  then have "trim_end (c # l) \<noteq> []"
    using d chars_nonempty by (auto simp: trim_end_def simp del: chars.simps)
  with c show ?thesis by (simp add: trim_def trim_start_Cons)
qed

lemma marks_nonblank [simp]: "trim (CHR ''*'' # l) \<noteq> []" "trim (CHR ''@'' # l) \<noteq> []"
  by (rule nonblank; simp add: ascii_def is_whitespace_def white_space_def)+

lemma render_context_at: "\<exists>l. render_context ctx = CHR ''@'' # l"
  by (cases ctx) (auto simp: marker_defs)

lemma chunks_stop:
  "hunk_stop fs \<Longrightarrow> chunk_stop (concat (map render_chunk cs) @ fs)"
proof (cases cs)
  case (Cons c cs')
  obtain ctx ls eof where "c = DocChunk ctx ls eof" by (cases c)
  with Cons render_context_at [of ctx] show ?thesis
    by (auto simp: chunk_stop_def EOF_MARKER_def)
qed (simp add: hunk_stop_chunk_stop)

lemma update_loop_render:
  assumes "hunk_stop fs" and "\<forall>c \<in> set cs. wf_chunk c"
  shows "update_loop (concat (map render_chunk cs) @ fs) p n acc =
    Inr (acc @ map denote_chunk cs, p + length (concat (map render_chunk cs)))"
  using assms(2)
proof (induction cs arbitrary: p acc)
  case Nil
  with assms(1) show ?case
    by (cases fs) (auto simp: hunk_stop_def starts_with_iff)
next
  case (Cons c cs)
  obtain l r where lr: "render_chunk c = (CHR ''@'' # l) # r"
    using render_context_at by (cases c) fastforce
  let ?rest = "concat (map render_chunk cs) @ fs"
  have "parse_update_file_chunk (render_chunk c @ ?rest) (n + p) (acc = []) =
      Inr (denote_chunk c, length (render_chunk c))"
    using Cons.prems chunks_stop [OF assms(1)] by (intro parse_chunk_render) auto
  with lr have pc: "parse_update_file_chunk ((CHR ''@'' # l) # r @ ?rest) (n + p) (acc = []) =
      Inr (denote_chunk c, Suc (length r))" by simp
  have "update_loop (render_chunk c @ ?rest) p n acc =
      update_loop ?rest (p + Suc (length r)) n (acc @ [denote_chunk c])"
    using lr pc by (simp add: starts_with_def)
  also have "\<dots> = Inr ((acc @ [denote_chunk c]) @ map denote_chunk cs,
      p + Suc (length r) + length (concat (map render_chunk cs)))"
    using Cons.prems by (intro Cons.IH) auto
  finally show ?case using lr by (simp add: add.assoc)
qed

lemma add_loop_render:
  assumes "hunk_stop fs"
  shows "add_loop (map (Cons (CHR ''+'')) ls @ fs) c p =
    (c @ concat (map (\<lambda>l. l @ [CHR 0x0A]) ls), p + length ls)"
proof (induction ls arbitrary: c p)
  case Nil
  with assms show ?case by (cases fs) (auto simp: hunk_stop_def)
qed simp

lemma other_headers [simp]:
  "strip_prefix ADD_FILE_MARKER (DELETE_FILE_MARKER @ p) = None"
  "strip_prefix ADD_FILE_MARKER (UPDATE_FILE_MARKER @ p) = None"
  "strip_prefix DELETE_FILE_MARKER (UPDATE_FILE_MARKER @ p) = None"
  "strip_prefix DELETE_FILE_MARKER (ADD_FILE_MARKER @ p) = None"
  by (simp_all add: marker_defs)

lemma move_line_none:
  assumes "cs \<noteq> []"
  shows "\<exists>l r. concat (map render_chunk cs) = l # r \<and> strip_prefix MOVE_TO_MARKER l = None"
proof -
  obtain ctx ls eof cs' where "cs = DocChunk ctx ls eof # cs'"
    using assms by (metis doc_chunk.exhaust neq_Nil_conv)
  with render_context_at [of ctx] show ?thesis by (auto simp: MOVE_TO_MARKER_def)
qed

lemma parse_one_hunk_render:
  assumes "wf_hunk h" and "hunk_stop fs" and "render_hunk h = line # rest"
  shows "parse_one_hunk line (rest @ fs) n = Inr (denote_hunk h, length (render_hunk h))"
proof (cases h)
  case (DocAdd p ls)
  with assms show ?thesis by (auto simp: parse_one_hunk_def add_loop_render)
next
  case (DocDelete p)
  with assms show ?thesis by (auto simp: parse_one_hunk_def)
next
  case (DocUpdate p m cs)
  with assms(1) move_line_none [of cs] obtain l r where
    lr: "concat (map render_chunk cs) = l # r" "strip_prefix MOVE_TO_MARKER l = None" by auto
  have "update_loop (concat (map render_chunk cs) @ fs) k n [] =
      Inr (map denote_chunk cs, k + length (concat (map render_chunk cs)))" for k
    using update_loop_render [OF assms(2), of cs k n "[]"] assms(1) DocUpdate by simp
  moreover have "(case concat (map render_chunk cs) @ fs of [] \<Rightarrow> None
      | x # _ \<Rightarrow> strip_prefix MOVE_TO_MARKER x) = None"
    using lr by simp
  ultimately show ?thesis
    using DocUpdate assms(1,3) by (cases m) (auto simp: parse_one_hunk_def Let_def)
qed

lemma render_hunk_star: "\<exists>l r. render_hunk h = (CHR ''*'' # l) # r \<and> CHR ''*'' # l \<noteq> EOF_MARKER"
  by (cases h) (auto simp: marker_defs)

lemma hunks_stop: "hunk_stop (concat (map render_hunk hs))"
proof (cases hs)
  case (Cons h hs')
  with render_hunk_star [of h] show ?thesis by (auto simp: hunk_stop_def)
qed (simp add: hunk_stop_def)

lemma hunks_loop_render:
  "\<forall>h \<in> set hs. wf_hunk h \<Longrightarrow>
    hunks_loop (concat (map render_hunk hs)) n acc = Inr (acc @ map denote_hunk hs)"
proof (induction hs arbitrary: n acc)
  case (Cons h hs)
  obtain line rest where lr: "render_hunk h = line # rest"
    using render_hunk_star [of h] by auto
  have "parse_one_hunk line (rest @ concat (map render_hunk hs)) n = Inr (denote_hunk h, length (render_hunk h))"
    using Cons.prems lr by (intro parse_one_hunk_render hunks_stop) auto
  with Cons lr show ?case by simp
qed simp

lemma env_preamble_render:
  assumes "wf_env e"
  shows "parse_environment_id_preamble (render_env e @ concat (map render_hunk hs)) =
    Inr (e, concat (map render_hunk hs), if e = None then 2 else 3)"
proof (cases e)
  case None
  have "trim_start (CHR ''*'' # l) = CHR ''*'' # l" for l
    by (simp add: trim_start_Cons ascii_def is_whitespace_def white_space_def)
  moreover have "strip_prefix ENVIRONMENT_ID_MARKER l = None"
    if "render_hunk h = l # r" for h l r
    using that by (cases h) (auto simp: marker_defs)
  ultimately show ?thesis
    using None render_hunk_star [of "hd hs"]
    by (cases hs) (auto simp: render_env_def parse_environment_id_preamble_def)
next
  case (Some i)
  have "trim_start (ENVIRONMENT_ID_MARKER @ i) = ENVIRONMENT_ID_MARKER @ i"
    by (simp add: marker_defs trim_start_Cons ascii_def is_whitespace_def white_space_def)
  moreover have "trim i = i" "i \<noteq> []"
    using assms Some by (auto simp: wf_env_def solid_def trim_def)
  ultimately show ?thesis
    using Some by (simp add: render_env_def parse_environment_id_preamble_def)
qed

lemma render_doc_last [simp]: "last (render_doc e hs) = END_PATCH_MARKER"
  by (simp add: render_doc_def)

lemma join_snoc: "xs \<noteq> [] \<Longrightarrow> join sep (xs @ [y]) = join sep xs @ sep @ y"
  by (induction sep xs rule: join.induct) auto

lemma join_Cons_hd: "\<exists>t. join sep (x # xs) = x @ t"
  by (cases xs) auto

lemma trim_render_text: "trim (render_text e hs) = render_text e hs"
proof -
  obtain t where t: "render_text e hs = BEGIN_PATCH_MARKER @ t"
    using join_Cons_hd unfolding render_text_def render_doc_def by blast
  have "trim_start (render_text e hs) = render_text e hs"
    by (simp add: t BEGIN_PATCH_MARKER_def trim_start_Cons ascii_def is_whitespace_def white_space_def)
  moreover have "\<exists>u. render_text e hs = u @ END_PATCH_MARKER"
    unfolding render_text_def render_doc_def
    using join_snoc [of "BEGIN_PATCH_MARKER # render_env e @ concat (map render_hunk hs)" "[CHR 0x0A]"]
    by simp
  then have "last (render_text e hs) = CHR ''h''" "render_text e hs \<noteq> []"
    by (auto simp: END_PATCH_MARKER_def)
  then have "trim_end (render_text e hs) = render_text e hs"
    by (intro trim_end_solid_last) (simp_all add: white_space_def)
  ultimately show ?thesis by (simp add: trim_def)
qed

lemma lines_render_text: "wf_doc e hs \<Longrightarrow> lines (render_text e hs) = render_doc e hs"
  unfolding render_text_def
  by (intro lines_join) (auto simp: render_doc_plain, auto simp: render_doc_def marker_defs)

lemma boundaries_render:
  "check_patch_boundaries_strict (render_doc e hs) =
     Inr (render_doc e hs, render_env e @ concat (map render_hunk hs))"
proof -
  have "render_doc e hs = BEGIN_PATCH_MARKER # (render_env e @ concat (map render_hunk hs)) @ [END_PATCH_MARKER]"
    by (simp add: render_doc_def)
  moreover have "butlast (xs @ [y]) = xs" "xs @ [y] \<noteq> []" for xs :: "string list" and y by auto
  ultimately show ?thesis
    by (cases "render_env e @ concat (map render_hunk hs)")
       (auto simp: check_patch_boundaries_strict_def)
qed

lemma parse_render:
  assumes "wf_doc e hs"
  shows "parse_patch_text (render_text e hs) mode =
    Inr \<lparr>patch = render_text e hs, hunks = map denote_hunk hs, workdir = None, environment_id = e\<rparr>"
  using assms
  by (cases mode)
     (simp_all add: parse_patch_text_def trim_render_text lines_render_text boundaries_render
        check_patch_boundaries_lenient_def env_preamble_render hunks_loop_render wf_doc_def
        render_text_def [symmetric])


subsection \<open>The streaming parser reads documents\<close>

abbreviation st :: "streaming_parser_mode \<Rightarrow> hunk list \<Rightarrow> nat \<Rightarrow> streaming_patch_parser" where
  "st m hs n \<equiv> \<lparr>line_buffer = [], state_mode = m, state_hunks = hs, parser_line = n\<rparr>"

text \<open>Feeding complete lines, without the line buffer.\<close>

fun run_lines :: "streaming_patch_parser \<Rightarrow> string list \<Rightarrow> streaming_patch_parser option" where
  "run_lines s [] = Some s"
| "run_lines s (l # ls) =
     (case process_line (s\<lparr>parser_line := parser_line s + 1\<rparr>) l of
        Inl e \<Rightarrow> None
      | Inr s' \<Rightarrow> run_lines s' ls)"

lemma run_lines_append:
  "run_lines s (xs @ ys) = (case run_lines s xs of None \<Rightarrow> None | Some s' \<Rightarrow> run_lines s' ys)"
  by (induction xs arbitrary: s) (auto split: sum.splits)

lemma process_line_buffer: "process_line s l = Inr s' \<Longrightarrow> line_buffer s' = line_buffer s"
  by (auto simp: process_line_def handle_hunk_headers_and_end_patch_def open_hunk_def Let_def
      split: streaming_parser_mode.splits if_splits sum.splits prod.splits bool.splits
        option.splits list.splits hunk.splits)

lemma push_delta_no_newline:
  "CHR 0x0A \<notin> set l \<Longrightarrow> push_delta s (l @ rest) = push_delta (s\<lparr>line_buffer := line_buffer s @ l\<rparr>) rest"
  by (induction l arbitrary: s) (auto simp: push_char_def)

lemma push_delta_line:
  assumes "plain_line l" and "line_buffer s = []"
    and "process_line (s\<lparr>parser_line := parser_line s + 1\<rparr>) l = Inr s'"
  shows "push_delta s (l @ CHR 0x0A # rest) = push_delta s' rest"
proof -
  obtain m hs n where s: "s = st m hs n" using assms(2) by (cases s) auto
  show ?thesis
    using assms unfolding s by (simp add: push_delta_no_newline plain_line_def push_char_def Let_def)
qed

lemma push_delta_lines:
  "run_lines s ls = Some s' \<Longrightarrow> line_buffer s = [] \<Longrightarrow> \<forall>l \<in> set ls. plain_line l \<Longrightarrow>
    push_delta s (concat (map (\<lambda>l. l @ [CHR 0x0A]) ls) @ rest) = push_delta s' rest \<and> line_buffer s' = []"
  by (induction ls arbitrary: s)
     (auto simp: push_delta_line process_line_buffer split: sum.splits)

text \<open>States in which the current hunk may end.\<close>

definition ready :: "streaming_parser_mode \<Rightarrow> hunk list \<Rightarrow> bool" where
  "ready m hs \<longleftrightarrow> m \<noteq> NotStarted \<and> m \<noteq> EndedPatch \<and> mode_matches m hs \<and> (\<forall>h \<in> set hs. complete_hunk h)"

lemma ready_ensure: "ready m hs \<Longrightarrow> ensure_update_hunk_is_not_empty (st m hs n) l = Inr ()"
  by (cases "last hs"; cases "hs = []")
     (auto simp: ready_def ensure_update_hunk_is_not_empty_def set_butlast_last split: list.splits)

lemma no_header:
  "x = [] \<or> hd x \<noteq> CHR ''*'' \<Longrightarrow> handle_hunk_headers_and_end_patch s x = Inr (False, s)"
  by (cases x) (auto simp: handle_hunk_headers_and_end_patch_def marker_defs)

lemma trim_Cons_cases:
  "ascii c \<Longrightarrow> \<not> is_whitespace [c] \<Longrightarrow> trim (c # l) = [] \<or> hd (trim (c # l)) = c"
  using trim_end_Cons_cases [of c l] by (auto simp: trim_def trim_start_Cons)

lemma header_step:
  assumes "ready m hs" and "trim line = line" and "trim_end line = line"
    and "\<not> is_environment_id_preamble_line line"
    and "handle_hunk_headers_and_end_patch (st m hs n) line = Inr (True, s')"
  shows "process_line (st m hs n) line = Inr s'"
  using assms by (cases m) (auto simp: process_line_def ready_def)

lemma header_lines:
  assumes "ready m hs" and "solid p"
  shows "process_line (st m hs n) (ADD_FILE_MARKER @ p) = Inr (st AddFileMode (hs @ [AddFile p []]) n)"
    and "process_line (st m hs n) (DELETE_FILE_MARKER @ p) = Inr (st DeleteFileMode (hs @ [DeleteFile p]) n)"
    and "process_line (st m hs n) (UPDATE_FILE_MARKER @ p) = Inr (st (UpdateFileMode n) (hs @ [UpdateFile p None []]) n)"
  using assms ready_ensure [OF assms(1), of n]
  by (auto intro!: header_step simp: trim_end_marker is_environment_id_preamble_line_def starts_with_def
      handle_hunk_headers_and_end_patch_def open_hunk_def, auto simp: marker_defs)

lemma add_line_step:
  "process_line (st AddFileMode (hs @ [AddFile p c]) n) (CHR ''+'' # l) =
     Inr (st AddFileMode (hs @ [AddFile p (c @ l @ [CHR 0x0A])]) n)"
proof -
  have "trim (CHR ''+'' # l) = [] \<or> hd (trim (CHR ''+'' # l)) = CHR ''+''"
    by (rule trim_Cons_cases) (simp_all add: ascii_def is_whitespace_def white_space_def)
  then have "trim (CHR ''+'' # l) = [] \<or> hd (trim (CHR ''+'' # l)) \<noteq> CHR ''*''" by auto
  then show ?thesis by (simp add: process_line_def no_header)
qed

lemma run_add_lines:
  "run_lines (st AddFileMode (hs @ [AddFile p c]) n) (map (Cons (CHR ''+'')) ls) =
     Some (st AddFileMode (hs @ [AddFile p (c @ concat (map (\<lambda>l. l @ [CHR 0x0A]) ls))]) (n + length ls))"
  by (induction ls arbitrary: c n) (simp_all add: add_line_step)

text \<open>Inside an update hunk a line that is no header only changes the hunk.\<close>

lemma update_step:
  assumes "handle_hunk_headers_and_end_patch (st (UpdateFileMode k) (hs @ [UpdateFile p m cs]) n) (trim_end line) =
      Inr (False, st (UpdateFileMode k) (hs @ [UpdateFile p m cs]) n)"
    and "update_file_line n line m cs = Inr (m', cs')"
  shows "process_line (st (UpdateFileMode k) (hs @ [UpdateFile p m cs]) n) line =
      Inr (st (UpdateFileMode k) (hs @ [UpdateFile p m' cs']) n)"
  using assms by (simp add: process_line_def)

definition diff_push :: "diff_line \<Rightarrow> update_file_chunk \<Rightarrow> update_file_chunk" where
  "diff_push d c = c\<lparr>old_lines := old_lines c @ old_of [d], new_lines := new_lines c @ new_of [d]\<rparr>"

lemma diff_push_simps:
  "diff_push (Context l) = push_context_line l" "diff_push (Added l) = push_added_line l"
  "diff_push (Removed l) = push_removed_line l"
  by (auto simp: fun_eq_iff diff_push_def push_context_line_def push_added_line_def push_removed_line_def)

lemma diff_line_step:
  "process_line (st (UpdateFileMode k) (hs @ [UpdateFile p m (cs @ [c])]) n) (render_diff_line d) =
      Inr (st (UpdateFileMode k) (hs @ [UpdateFile p m (cs @ [diff_push d c])]) n)"
proof (rule update_step)
  obtain b l where bl: "render_diff_line d = b # l" "b \<in> {CHR '' '', CHR ''+'', CHR ''-''}"
    by (cases d) auto
  from trim_end_Cons_cases [of b l] bl
  have cases: "trim_end (render_diff_line d) = [] \<or> (\<exists>r. trim_end (render_diff_line d) = b # r)" by simp
  with bl show "handle_hunk_headers_and_end_patch (st (UpdateFileMode k) (hs @ [UpdateFile p m (cs @ [c])]) n)
      (trim_end (render_diff_line d)) = Inr (False, st (UpdateFileMode k) (hs @ [UpdateFile p m (cs @ [c])]) n)"
    by (intro no_header) auto
  have nomark: "trim_end (render_diff_line d) \<noteq> EMPTY_CHANGE_CONTEXT_MARKER"
    "strip_prefix CHANGE_CONTEXT_MARKER (trim_end (render_diff_line d)) = None"
    "trim_end (render_diff_line d) \<noteq> EOF_MARKER"
    using cases bl(2) by (auto simp: marker_defs)
  then show "update_file_line n (render_diff_line d) m (cs @ [c]) = Inr (m, cs @ [diff_push d c])"
    by (cases d) (auto simp: update_file_line_def Let_def diff_push_simps with_last_chunk_def starts_with_def)
qed

lemma run_diff_lines:
  "run_lines (st (UpdateFileMode k) (hs @ [UpdateFile p m (cs @ [c])]) n) (map render_diff_line ls) =
     Some (st (UpdateFileMode k) (hs @ [UpdateFile p m (cs @
       [c\<lparr>old_lines := old_lines c @ old_of ls, new_lines := new_lines c @ new_of ls\<rparr>])]) (n + length ls))"
proof (induction ls arbitrary: c n)
  case Nil
  then show ?case by (cases c) simp
next
  case (Cons d ls)
  have "old_of (d # ls) = old_of [d] @ old_of ls" "new_of (d # ls) = new_of [d] @ new_of ls"
    by (cases d; simp)+
  then show ?case by (simp add: diff_line_step Cons diff_push_def)
qed

text \<open>The last chunk is not empty, so another header may come.\<close>

definition chunks_ready :: "update_file_chunk list \<Rightarrow> bool" where
  "chunks_ready cs \<longleftrightarrow> cs = [] \<or> \<not> chunk_is_empty (last cs)"

lemma context_line_step:
  assumes "case ctx of None \<Rightarrow> True | Some c \<Rightarrow> solid c" and "chunks_ready cs"
  shows "process_line (st (UpdateFileMode k) (hs @ [UpdateFile p m cs]) n) (render_context ctx) =
      Inr (st (UpdateFileMode k) (hs @ [UpdateFile p m (cs @ [empty_chunk ctx])]) n)"
proof (rule update_step)
  have te: "trim_end (render_context ctx) = render_context ctx"
    using assms(1)
    by (cases ctx) (auto simp: trim_end_marker, auto simp: marker_defs intro!: trim_end_solid_last,
        auto simp: white_space_def)
  then show "handle_hunk_headers_and_end_patch (st (UpdateFileMode k) (hs @ [UpdateFile p m cs]) n)
      (trim_end (render_context ctx)) = Inr (False, st (UpdateFileMode k) (hs @ [UpdateFile p m cs]) n)"
    using render_context_at [of ctx] by (intro no_header) auto
  have "\<not> starts_with (render_context ctx) MOVE_TO_MARKER"
    using render_context_at [of ctx] by (auto simp: starts_with_def marker_defs)
  with te assms show "update_file_line n (render_context ctx) m cs = Inr (m, cs @ [empty_chunk ctx])"
    by (cases ctx) (auto simp: update_file_line_def Let_def chunks_ready_def, auto simp: marker_defs solid_def)
qed

lemma eof_line_step:
  assumes "\<not> chunk_is_empty c"
  shows "process_line (st (UpdateFileMode k) (hs @ [UpdateFile p m (cs @ [c])]) n) EOF_MARKER =
      Inr (st (UpdateFileMode k) (hs @ [UpdateFile p m (cs @ [c\<lparr>is_end_of_file := True\<rparr>])]) n)"
proof (rule update_step)
  have te: "trim_end EOF_MARKER = EOF_MARKER"
    by (rule trim_end_solid_last) (simp_all add: EOF_MARKER_def white_space_def)
  then show "handle_hunk_headers_and_end_patch (st (UpdateFileMode k) (hs @ [UpdateFile p m (cs @ [c])]) n)
      (trim_end EOF_MARKER) = Inr (False, st (UpdateFileMode k) (hs @ [UpdateFile p m (cs @ [c])]) n)"
    by (simp add: handle_hunk_headers_and_end_patch_def) (simp add: marker_defs)
  have "EOF_MARKER \<noteq> EMPTY_CHANGE_CONTEXT_MARKER" "strip_prefix CHANGE_CONTEXT_MARKER EOF_MARKER = None"
    "\<not> starts_with EOF_MARKER MOVE_TO_MARKER"
    by (simp_all add: marker_defs starts_with_def)
  with te assms show "update_file_line n EOF_MARKER m (cs @ [c]) = Inr (m, cs @ [c\<lparr>is_end_of_file := True\<rparr>])"
    by (simp add: update_file_line_def Let_def starts_with_def)
qed

lemma old_new_empty: "ls \<noteq> [] \<Longrightarrow> old_of ls \<noteq> [] \<or> new_of ls \<noteq> []"
  by (cases ls; cases "hd ls") auto

lemma denote_chunk_nonempty: "wf_chunk c \<Longrightarrow> \<not> chunk_is_empty (denote_chunk c)"
  using old_new_empty by (cases c) (auto simp: chunk_is_empty_def)

lemma run_chunk:
  assumes "wf_chunk c" and "chunks_ready cs"
  shows "run_lines (st (UpdateFileMode k) (hs @ [UpdateFile p m cs]) n) (render_chunk c) =
    Some (st (UpdateFileMode k) (hs @ [UpdateFile p m (cs @ [denote_chunk c])]) (n + length (render_chunk c)))"
proof (cases c)
  case (DocChunk ctx ls eof)
  with assms old_new_empty [of ls] show ?thesis
    by (auto simp: context_line_step run_lines_append run_diff_lines empty_chunk_def eof_line_step
        chunk_is_empty_def)
qed

lemma run_chunks:
  "\<forall>c \<in> set ds. wf_chunk c \<Longrightarrow> chunks_ready cs \<Longrightarrow>
    run_lines (st (UpdateFileMode k) (hs @ [UpdateFile p m cs]) n) (concat (map render_chunk ds)) =
    Some (st (UpdateFileMode k) (hs @ [UpdateFile p m (cs @ map denote_chunk ds)])
      (n + length (concat (map render_chunk ds))))"
  by (induction ds arbitrary: cs n)
     (simp_all add: run_lines_append run_chunk chunks_ready_def denote_chunk_nonempty add.assoc)

lemma move_line_step:
  assumes "solid q"
  shows "process_line (st (UpdateFileMode k) (hs @ [UpdateFile p None []]) n) (MOVE_TO_MARKER @ q) =
      Inr (st (UpdateFileMode k) (hs @ [UpdateFile p (Some q) []]) n)"
proof (rule update_step)
  have te: "trim_end (MOVE_TO_MARKER @ q) = MOVE_TO_MARKER @ q"
    using assms by (simp add: trim_end_marker)
  show "handle_hunk_headers_and_end_patch (st (UpdateFileMode k) (hs @ [UpdateFile p None []]) n)
      (trim_end (MOVE_TO_MARKER @ q)) = Inr (False, st (UpdateFileMode k) (hs @ [UpdateFile p None []]) n)"
    unfolding te by (simp add: handle_hunk_headers_and_end_patch_def) (simp add: marker_defs)
  show "update_file_line n (MOVE_TO_MARKER @ q) None [] = Inr (Some q, [])"
    by (simp add: update_file_line_def te)
qed

text \<open>A whole hunk: from a state where the last hunk may end to such a state.\<close>

lemma run_hunk:
  assumes "wf_hunk h" and "ready m hs"
  shows "\<exists>m' n'. run_lines (st m hs n) (render_hunk h) = Some (st m' (hs @ [denote_hunk h]) n')
    \<and> ready m' (hs @ [denote_hunk h])"
proof (cases h)
  case (DocAdd p ls)
  then show ?thesis
    using assms header_lines [OF assms(2), of p "Suc n"] run_add_lines [of hs p "[]" "Suc n" ls]
    by (auto simp: ready_def)
next
  case (DocDelete p)
  then show ?thesis
    using assms header_lines [OF assms(2), of p "Suc n"] by (auto simp: ready_def)
next
  case (DocUpdate p mv cs)
  have wf: "\<forall>c \<in> set cs. wf_chunk c" "cs \<noteq> []" "solid p" "\<And>q. mv = Some q \<Longrightarrow> solid q"
    using assms(1) DocUpdate by auto
  let ?h = "UpdateFile p mv (map denote_chunk cs)"
  have "\<exists>n'. run_lines (st m hs n) (render_hunk h) = Some (st (UpdateFileMode (Suc n)) (hs @ [?h]) n')"
    using DocUpdate wf header_lines(3) [OF assms(2) wf(3), of "Suc n"] run_chunks [of cs "[]"]
    by (cases mv) (auto simp: run_lines_append chunks_ready_def move_line_step)
  moreover have "ready (UpdateFileMode (Suc n)) (hs @ [?h])"
    using assms(2) wf denote_chunk_nonempty by (auto simp: ready_def)
  ultimately show ?thesis using DocUpdate by auto
qed

lemma run_hunks:
  "\<forall>h \<in> set ds. wf_hunk h \<Longrightarrow> ready m hs \<Longrightarrow>
    \<exists>m' n'. run_lines (st m hs n) (concat (map render_hunk ds)) = Some (st m' (hs @ map denote_hunk ds) n')
      \<and> ready m' (hs @ map denote_hunk ds)"
proof (induction ds arbitrary: m hs n)
  case (Cons h ds)
  then obtain m1 n1 where
    "run_lines (st m hs n) (render_hunk h) = Some (st m1 (hs @ [denote_hunk h]) n1)"
    "ready m1 (hs @ [denote_hunk h])"
    using run_hunk by (metis list.set_intros(1))
  with Cons.IH [of m1 "hs @ [denote_hunk h]" n1] Cons.prems show ?case
    by (auto simp: run_lines_append)
qed simp

lemma run_env:
  "wf_env e \<Longrightarrow> \<exists>n'. run_lines (st StartedPatch [] n) (render_env e) = Some (st StartedPatch [] n')"
  by (cases e) (auto simp: render_env_def process_line_def is_environment_id_preamble_line_def)

lemma run_doc:
  assumes "wf_doc e ds"
  shows "\<exists>m n. run_lines new_streaming_parser (BEGIN_PATCH_MARKER # render_env e @ concat (map render_hunk ds)) =
    Some (st m (map denote_hunk ds) n) \<and> ready m (map denote_hunk ds)"
proof -
  obtain n1 where "run_lines (st StartedPatch [] 1) (render_env e) = Some (st StartedPatch [] n1)"
    using assms run_env [of e 1] by (auto simp: wf_doc_def)
  moreover have "ready StartedPatch []" by (simp add: ready_def)
  ultimately show ?thesis
    using run_hunks [of ds StartedPatch "[]" n1] assms
    by (auto simp: wf_doc_def run_lines_append new_streaming_parser_def process_line_def)
qed

lemma streaming_render:
  assumes "wf_doc e ds"
  shows "\<exists>s s'. push_delta new_streaming_parser (render_text e ds) = (s, Inr (map denote_hunk ds))
    \<and> finish s = (s', Inr (map denote_hunk ds))"
proof -
  let ?ls = "BEGIN_PATCH_MARKER # render_env e @ concat (map render_hunk ds)"
  obtain m n where run: "run_lines new_streaming_parser ?ls = Some (st m (map denote_hunk ds) n)"
    and ready: "ready m (map denote_hunk ds)" using run_doc [OF assms] by blast
  have plain: "\<forall>l \<in> set ?ls. plain_line l"
    using render_doc_plain [OF assms] by (auto simp: render_doc_def)
  have whole: "render_text e ds = concat (map (\<lambda>l. l @ [CHR 0x0A]) ?ls) @ END_PATCH_MARKER"
    unfolding render_text_def render_doc_def
    using join_lines_concat [of "CHR 0x0A" ?ls END_PATCH_MARKER] by simp
  let ?s = "st m (map denote_hunk ds) n\<lparr>line_buffer := END_PATCH_MARKER\<rparr>"
  have "push_delta new_streaming_parser (render_text e ds) = push_delta (st m (map denote_hunk ds) n) END_PATCH_MARKER"
    unfolding whole using push_delta_lines [OF run _ plain] by (simp add: new_streaming_parser_def)
  also have "\<dots> = (?s, Inr (map denote_hunk ds))"
    using push_delta_no_newline [of END_PATCH_MARKER "st m (map denote_hunk ds) n" "[]"] by simp
  finally have "push_delta new_streaming_parser (render_text e ds) = (?s, Inr (map denote_hunk ds))" .
  moreover have "finish ?s = (st EndedPatch (map denote_hunk ds) (Suc n), Inr (map denote_hunk ds))"
    using ready_ensure [OF ready, of "Suc n" END_PATCH_MARKER]
    by (simp add: finish_def finish_line_step_def) (simp add: END_PATCH_MARKER_def)
  ultimately show ?thesis by blast
qed

subsection \<open>Properties\<close>

text \<open>
  (C1) The batch parser reads back every document: a well-formed patch printed as text is
  parsed, in either mode, into exactly the hunks it was printed from, with its environment.
\<close>

theorem patch_round_trip:
  assumes "wf_doc e ds"
  shows "parse_patch_text (render_text e ds) mode =
      Inr \<lparr>patch = render_text e ds, hunks = map denote_hunk ds, workdir = None, environment_id = e\<rparr> \<and>
    parse_patch (render_text e ds) =
      Inr \<lparr>patch = render_text e ds, hunks = map denote_hunk ds, workdir = None, environment_id = e\<rparr>"
  using parse_render [OF assms] by (simp_all add: parse_patch_def)

definition sample_doc :: "doc_hunk list" where
  "sample_doc =
     [DocAdd ''new.txt'' [''hello'', '''', ''world''], DocDelete ''old.txt'',
      DocUpdate ''a.py'' (Some ''b.py'')
        [DocChunk (Some ''def f():'') [Context ''  x = 1'', Removed ''  y = 2'', Added ''  y = 3''] False,
         DocChunk None [Added ''# end''] True]]"

theorem patch_round_trip_witness:
  "wf_doc (Some ''local'') sample_doc \<and>
   parse_patch_text (render_text (Some ''local'') sample_doc) Strict =
     Inr \<lparr>patch = render_text (Some ''local'') sample_doc, hunks = map denote_hunk sample_doc,
          workdir = None, environment_id = Some ''local''\<rparr>"
proof -
  have "wf_doc (Some ''local'') sample_doc" by code_simp
  then show ?thesis using patch_round_trip by blast
qed

text \<open>
  (C2) The streaming parser agrees with the batch parser: pushed the text of any well-formed
  patch, its preview is the hunks of the patch, and \<open>finish\<close> returns what \<open>parse_patch\<close> does.
\<close>

theorem streaming_agrees_with_batch:
  assumes "wf_doc e ds"
  shows "snd (push_delta new_streaming_parser (render_text e ds)) = Inr (map denote_hunk ds) \<and>
    snd (finish (fst (push_delta new_streaming_parser (render_text e ds)))) =
      map_sum id hunks (parse_patch (render_text e ds))"
  using streaming_render [OF assms] parse_render [OF assms] by (auto simp: parse_patch_def)

theorem streaming_agrees_with_batch_witness:
  "wf_doc None sample_doc \<and>
   snd (finish (fst (push_delta new_streaming_parser (render_text None sample_doc)))) =
     map_sum id hunks (parse_patch (render_text None sample_doc))"
proof -
  have "wf_doc None sample_doc" by code_simp
  then show ?thesis using streaming_agrees_with_batch by blast
qed

end
