(* ===== verification/Patch_Apply.thy ===== *)
theory Patch_Apply
  imports Patch_Parser
begin

section \<open>Locating and applying the chunks of an update\<close>

text \<open>
  \<open>codex-rs/apply-patch/src/seek_sequence.rs\<close> and the pure half of
  \<open>codex-rs/apply-patch/src/lib.rs\<close>: where in a file the old lines of each chunk are, and
  the file with these regions replaced. A panic of \<open>Vec::insert\<close> is \<open>None\<close>.
\<close>

subsection \<open>seek\_sequence\<close>

definition dash_chars :: "string list" where
  "dash_chars =
     [[CHR 0xE2, CHR 0x80, CHR 0x90], [CHR 0xE2, CHR 0x80, CHR 0x91], [CHR 0xE2, CHR 0x80, CHR 0x92],
      [CHR 0xE2, CHR 0x80, CHR 0x93], [CHR 0xE2, CHR 0x80, CHR 0x94], [CHR 0xE2, CHR 0x80, CHR 0x95],
      [CHR 0xE2, CHR 0x88, CHR 0x92]]"

definition single_quote_chars :: "string list" where
  "single_quote_chars =
     [[CHR 0xE2, CHR 0x80, CHR 0x98], [CHR 0xE2, CHR 0x80, CHR 0x99],
      [CHR 0xE2, CHR 0x80, CHR 0x9A], [CHR 0xE2, CHR 0x80, CHR 0x9B]]"

definition double_quote_chars :: "string list" where
  "double_quote_chars =
     [[CHR 0xE2, CHR 0x80, CHR 0x9C], [CHR 0xE2, CHR 0x80, CHR 0x9D],
      [CHR 0xE2, CHR 0x80, CHR 0x9E], [CHR 0xE2, CHR 0x80, CHR 0x9F]]"

definition odd_space_chars :: "string list" where
  "odd_space_chars =
     [[CHR 0xC2, CHR 0xA0],
      [CHR 0xE2, CHR 0x80, CHR 0x82], [CHR 0xE2, CHR 0x80, CHR 0x83], [CHR 0xE2, CHR 0x80, CHR 0x84],
      [CHR 0xE2, CHR 0x80, CHR 0x85], [CHR 0xE2, CHR 0x80, CHR 0x86], [CHR 0xE2, CHR 0x80, CHR 0x87],
      [CHR 0xE2, CHR 0x80, CHR 0x88], [CHR 0xE2, CHR 0x80, CHR 0x89], [CHR 0xE2, CHR 0x80, CHR 0x8A],
      [CHR 0xE2, CHR 0x80, CHR 0xAF], [CHR 0xE2, CHR 0x81, CHR 0x9F], [CHR 0xE3, CHR 0x80, CHR 0x80]]"

definition normalise_char :: "string \<Rightarrow> string" where
  "normalise_char c =
     (if c \<in> set dash_chars then ''-''
      else if c \<in> set single_quote_chars then [CHR 0x27]
      else if c \<in> set double_quote_chars then [CHR 0x22]
      else if c \<in> set odd_space_chars then '' ''
      else c)"

definition normalise :: "string \<Rightarrow> string" where
  "normalise s = concat (map normalise_char (chars (trim s)))"

text \<open>The inner loop of a fuzzy pass, and a pass over the candidate positions.\<close>

fun matches_at :: "(string \<Rightarrow> string) \<Rightarrow> string list \<Rightarrow> nat \<Rightarrow> string list \<Rightarrow> bool" where
  "matches_at f ls i [] = True"
| "matches_at f ls i (p # ps) = (f (ls ! i) = f p \<and> matches_at f ls (Suc i) ps)"

definition candidates :: "string list \<Rightarrow> string list \<Rightarrow> nat \<Rightarrow> nat list" where
  "candidates ls pattern search_start = [search_start ..< Suc (length ls - length pattern)]"

definition exact_pass :: "string list \<Rightarrow> string list \<Rightarrow> nat \<Rightarrow> nat option" where
  "exact_pass ls pattern search_start =
     List.find (\<lambda>i. take (length pattern) (drop i ls) = pattern) (candidates ls pattern search_start)"

definition fuzzy_pass ::
    "(string \<Rightarrow> string) \<Rightarrow> string list \<Rightarrow> string list \<Rightarrow> nat \<Rightarrow> nat option" where
  "fuzzy_pass f ls pattern search_start =
     List.find (\<lambda>i. matches_at f ls i pattern) (candidates ls pattern search_start)"

definition seek_sequence ::
    "string list \<Rightarrow> string list \<Rightarrow> nat \<Rightarrow> bool \<Rightarrow> nat option" where
  "seek_sequence ls pattern start eof =
     (if pattern = [] then Some start
      else if length ls < length pattern then None
      else
        (let search_start =
           (if eof \<and> length pattern \<le> length ls then length ls - length pattern else start)
         in case exact_pass ls pattern search_start of
              Some i \<Rightarrow> Some i
            | None \<Rightarrow>
            (case fuzzy_pass trim_end ls pattern search_start of
              Some i \<Rightarrow> Some i
            | None \<Rightarrow>
            (case fuzzy_pass trim ls pattern search_start of
              Some i \<Rightarrow> Some i
            | None \<Rightarrow> fuzzy_pass normalise ls pattern search_start))))"

subsection \<open>compute\_replacements\<close>

datatype io_error = IoError string string  \<comment> \<open>kind and text\<close>

datatype apply_patch_error =
    ParseError parse_error
  | IoFailure string io_error  \<comment> \<open>context and source\<close>
  | ComputeReplacements string
  | ImplicitInvocation

type_synonym replacement = "nat \<times> nat \<times> string list"

definition ends_with_empty :: "string list \<Rightarrow> bool" where
  "ends_with_empty xs \<longleftrightarrow> xs \<noteq> [] \<and> last xs = []"

text \<open>
  Where the old lines of a chunk are, with the pattern and the new lines used: a first
  search, then one without the final empty line of the pattern.
\<close>

definition locate_chunk ::
    "string list \<Rightarrow> nat \<Rightarrow> update_file_chunk \<Rightarrow> (nat \<times> string list \<times> string list) option" where
  "locate_chunk original_lines line_index chunk =
     (let pattern = old_lines chunk; new_slice = new_lines chunk in
      case seek_sequence original_lines pattern line_index (is_end_of_file chunk) of
        Some start_idx \<Rightarrow> Some (start_idx, pattern, new_slice)
      | None \<Rightarrow>
          if ends_with_empty pattern then
            (let pattern = butlast pattern;
                 new_slice = (if ends_with_empty new_slice then butlast new_slice else new_slice)
             in map_option (\<lambda>start_idx. (start_idx, pattern, new_slice))
                  (seek_sequence original_lines pattern line_index (is_end_of_file chunk)))
          else None)"

text \<open>The change context of a chunk moves the search behind the line it names.\<close>

definition advance_to_context ::
    "string list \<Rightarrow> string \<Rightarrow> nat \<Rightarrow> update_file_chunk \<Rightarrow> apply_patch_error + nat" where
  "advance_to_context original_lines path line_index chunk =
     (case change_context chunk of
        None \<Rightarrow> Inr line_index
      | Some ctx_line \<Rightarrow>
          (case seek_sequence original_lines [ctx_line] line_index False of
             Some idx \<Rightarrow> Inr (idx + 1)
           | None \<Rightarrow> Inl (ComputeReplacements
               (''Failed to find context '' @ quote @ ctx_line @ quote @ '' in '' @ path))))"

fun replacements_loop ::
    "string list \<Rightarrow> string \<Rightarrow> nat \<Rightarrow> update_file_chunk list \<Rightarrow> apply_patch_error + replacement list" where
  "replacements_loop original_lines path line_index [] = Inr []"
| "replacements_loop original_lines path line_index (chunk # chunks) =
     (case advance_to_context original_lines path line_index chunk of
        Inl e \<Rightarrow> Inl e
      | Inr line_index \<Rightarrow>
          if old_lines chunk = [] then
            (let insertion_idx =
               (if ends_with_empty original_lines then length original_lines - 1
                else length original_lines)
             in case replacements_loop original_lines path line_index chunks of
                  Inl e \<Rightarrow> Inl e
                | Inr rs \<Rightarrow> Inr ((insertion_idx, 0, new_lines chunk) # rs))
          else
            (case locate_chunk original_lines line_index chunk of
               Some (start_idx, pattern, new_slice) \<Rightarrow>
                 (case replacements_loop original_lines path (start_idx + length pattern) chunks of
                    Inl e \<Rightarrow> Inl e
                  | Inr rs \<Rightarrow> Inr ((start_idx, length pattern, new_slice) # rs))
             | None \<Rightarrow> Inl (ComputeReplacements
                 (''Failed to find expected lines in '' @ path @ '':'' @ [CHR 0x0A] @
                  join [CHR 0x0A] (old_lines chunk)))))"

definition compute_replacements ::
    "string list \<Rightarrow> string \<Rightarrow> update_file_chunk list \<Rightarrow> apply_patch_error + replacement list" where
  "compute_replacements original_lines path chunks =
     map_sum id (sort_key fst) (replacements_loop original_lines path 0 chunks)"

subsection \<open>apply\_replacements\<close>

text \<open>\<open>Vec::remove\<close>, guarded by the code; \<open>Vec::insert\<close>, which panics past the end.\<close>

fun remove_lines :: "nat \<Rightarrow> nat \<Rightarrow> string list \<Rightarrow> string list" where
  "remove_lines start_idx 0 ls = ls"
| "remove_lines start_idx (Suc n) ls =
     remove_lines start_idx n
       (if start_idx < length ls then take start_idx ls @ drop (Suc start_idx) ls else ls)"

definition vec_insert :: "nat \<Rightarrow> 'a \<Rightarrow> 'a list \<Rightarrow> 'a list option" where
  "vec_insert i x xs = (if i \<le> length xs then Some (take i xs @ x # drop i xs) else None)"

fun insert_lines :: "nat \<Rightarrow> string list \<Rightarrow> string list \<Rightarrow> string list option" where
  "insert_lines i [] ls = Some ls"
| "insert_lines i (x # xs) ls =
     (case vec_insert i x ls of None \<Rightarrow> None | Some ls' \<Rightarrow> insert_lines (Suc i) xs ls')"

fun apply_rev :: "replacement list \<Rightarrow> string list \<Rightarrow> string list option" where
  "apply_rev [] ls = Some ls"
| "apply_rev ((start_idx, old_len, new_segment) # rs) ls =
     (case insert_lines start_idx new_segment (remove_lines start_idx old_len ls) of
        None \<Rightarrow> None
      | Some ls' \<Rightarrow> apply_rev rs ls')"

definition apply_replacements :: "string list \<Rightarrow> replacement list \<Rightarrow> string list option" where
  "apply_replacements ls replacements = apply_rev (rev replacements) ls"

subsection \<open>derive\_new\_contents\_from\_chunks\<close>

definition file_lines :: "string \<Rightarrow> string list" where
  "file_lines contents =
     (let ls = split_on (CHR 0x0A) contents in if ends_with_empty ls then butlast ls else ls)"

definition file_contents :: "string list \<Rightarrow> string" where
  "file_contents ls = join [CHR 0x0A] (if ends_with_empty ls then ls else ls @ [[]])"

text \<open>The outer option is the panic; the code reads the file first, here \<open>original_contents\<close>.\<close>

definition derive_new_contents ::
    "string \<Rightarrow> string \<Rightarrow> update_file_chunk list \<Rightarrow> (apply_patch_error + string) option" where
  "derive_new_contents original_contents path chunks =
     (let original_lines = file_lines original_contents in
      case compute_replacements original_lines path chunks of
        Inl e \<Rightarrow> Some (Inl e)
      | Inr replacements \<Rightarrow>
          map_option (\<lambda>ls. Inr (file_contents ls)) (apply_replacements original_lines replacements))"

subsection \<open>What a search finds\<close>

text \<open>Each pass is more permissive than the one before.\<close>

lemma trim_end_imp_trim: "trim_end a = trim_end b \<Longrightarrow> trim a = trim b"
  by (simp add: trim_trim_end)

lemma trim_imp_normalise: "trim a = trim b \<Longrightarrow> normalise a = normalise b"
  by (simp add: normalise_def)

lemma matches_at_iff:
  "i + length ps \<le> length ls \<Longrightarrow>
    matches_at f ls i ps \<longleftrightarrow> map f (take (length ps) (drop i ls)) = map f ps"
proof (induction ps arbitrary: i)
  case (Cons p ps)
  then have "drop i ls = ls ! i # drop (Suc i) ls" by (simp add: Cons_nth_drop_Suc)
  with Cons show ?case by auto
qed simp

lemma map_weaken:
  assumes "\<And>a b. f a = f b \<Longrightarrow> g a = g b"
  shows "map f xs = map f ys \<Longrightarrow> map g xs = map g ys"
proof (induction xs arbitrary: ys)
  case (Cons x xs)
  then obtain y ys' where "ys = y # ys'" "f x = f y" "map f xs = map f ys'" by (cases ys) auto
  moreover from this have "g x = g y" by (intro assms)
  ultimately show ?case using Cons.IH [of ys'] by simp
qed simp

lemma candidates_iff:
  "length pattern \<le> length ls \<Longrightarrow>
    i \<in> set (candidates ls pattern k) \<longleftrightarrow> k \<le> i \<and> i + length pattern \<le> length ls"
  by (auto simp: candidates_def)

text \<open>The loosest relation between a region of the file and a pattern.\<close>

definition loose_match :: "string list \<Rightarrow> string list \<Rightarrow> nat \<Rightarrow> bool" where
  "loose_match ls pattern i \<longleftrightarrow>
     map normalise (take (length pattern) (drop i ls)) = map normalise pattern"

lemma find_Some_mem: "List.find P xs = Some x \<Longrightarrow> x \<in> set xs \<and> P x"
  by (auto simp: find_Some_iff)

lemma exact_pass_loose:
  "exact_pass ls pattern k = Some i \<Longrightarrow> i \<in> set (candidates ls pattern k) \<and> loose_match ls pattern i"
  by (auto simp: exact_pass_def loose_match_def dest!: find_Some_mem)

lemma fuzzy_pass_loose:
  assumes "fuzzy_pass f ls pattern k = Some i" and "length pattern \<le> length ls"
    and "\<And>a b. f a = f b \<Longrightarrow> normalise a = normalise b"
  shows "i \<in> set (candidates ls pattern k) \<and> loose_match ls pattern i"
proof -
  from assms(1) have i: "i \<in> set (candidates ls pattern k)" "matches_at f ls i pattern"
    by (auto simp: fuzzy_pass_def dest!: find_Some_mem)
  then have "map f (take (length pattern) (drop i ls)) = map f pattern"
    using assms(2) by (simp add: candidates_iff matches_at_iff)
  then have "loose_match ls pattern i"
    unfolding loose_match_def using assms(3) map_weaken [of f normalise] by blast
  with i(1) show ?thesis by blast
qed

definition search_from :: "string list \<Rightarrow> string list \<Rightarrow> nat \<Rightarrow> bool \<Rightarrow> nat" where
  "search_from ls pattern start eof = (if eof then length ls - length pattern else start)"

lemma seek_sequence_sound:
  assumes "seek_sequence ls pattern start eof = Some i" and "pattern \<noteq> []"
  shows "search_from ls pattern start eof \<le> i \<and> i + length pattern \<le> length ls \<and> loose_match ls pattern i"
proof -
  have len: "length pattern \<le> length ls"
    using assms by (auto simp: seek_sequence_def split: if_splits)
  let ?k = "search_from ls pattern start eof"
  from assms len have "exact_pass ls pattern ?k = Some i \<or> fuzzy_pass trim_end ls pattern ?k = Some i
      \<or> fuzzy_pass trim ls pattern ?k = Some i \<or> fuzzy_pass normalise ls pattern ?k = Some i"
    by (auto simp: seek_sequence_def search_from_def Let_def split: if_splits option.splits)
  then have "i \<in> set (candidates ls pattern ?k) \<and> loose_match ls pattern i"
    using exact_pass_loose fuzzy_pass_loose [OF _ len] trim_end_imp_trim trim_imp_normalise by metis
  with len show ?thesis by (simp add: candidates_iff)
qed

lemma seek_sequence_complete:
  assumes "seek_sequence ls pattern start eof = None"
  shows "\<not> (\<exists>i. search_from ls pattern start eof \<le> i \<and> i + length pattern \<le> length ls \<and> loose_match ls pattern i)"
proof (cases "length pattern \<le> length ls")
  case True
  from assms True have "fuzzy_pass normalise ls pattern (search_from ls pattern start eof) = None"
    by (auto simp: seek_sequence_def search_from_def Let_def split: if_splits option.splits)
  then have "\<forall>i \<in> set (candidates ls pattern (search_from ls pattern start eof)). \<not> matches_at normalise ls i pattern"
    by (auto simp: fuzzy_pass_def find_None_iff)
  with True show ?thesis
    by (auto simp: candidates_iff matches_at_iff loose_match_def)
qed simp

text \<open>An exact occurrence is preferred, and the leftmost of them is taken.\<close>

lemma find_upt_least:
  assumes "k \<le> i" "i < n" "P i" "\<forall>j. k \<le> j \<and> j < i \<longrightarrow> \<not> P j"
  shows "List.find P [k ..< n] = Some i"
proof -
  have "[k ..< n] = [k ..< i] @ i # [Suc i ..< n]"
    using assms(1,2) upt_add_eq_append [of k i "n - i"] upt_conv_Cons [of i n] by simp
  moreover have "List.find P [k ..< i] = None"
    using assms(4) by (auto simp: find_None_iff)
  moreover have "List.find P (xs @ ys) = (case List.find P xs of None \<Rightarrow> List.find P ys | r \<Rightarrow> r)" for xs ys
    by (induction xs) auto
  ultimately show ?thesis using assms(3) by simp
qed

lemma seek_sequence_exact:
  assumes "pattern \<noteq> []" and "start \<le> i" and "i + length pattern \<le> length ls"
    and "take (length pattern) (drop i ls) = pattern"
    and "\<forall>j. start \<le> j \<and> j < i \<longrightarrow> take (length pattern) (drop j ls) \<noteq> pattern"
  shows "seek_sequence ls pattern start False = Some i"
proof -
  have "exact_pass ls pattern start = Some i"
    unfolding exact_pass_def candidates_def
    using assms by (intro find_upt_least) auto
  with assms show ?thesis by (simp add: seek_sequence_def)
qed


subsection \<open>Replacements stay inside the file\<close>

lemma ends_with_empty_snoc: "ends_with_empty xs \<Longrightarrow> xs = butlast xs @ [[]]"
  by (metis append_butlast_last_id ends_with_empty_def)

lemma seek_sequence_bound:
  "seek_sequence ls pattern start eof = Some i \<Longrightarrow> start \<le> length ls \<Longrightarrow> i + length pattern \<le> length ls"
  using seek_sequence_sound [of ls pattern start eof i]
  by (cases "pattern = []") (auto simp: seek_sequence_def)

lemma seek_sequence_from:
  "seek_sequence ls pattern start False = Some i \<Longrightarrow> start \<le> i"
  using seek_sequence_sound [of ls pattern start False i]
  by (cases "pattern = []") (auto simp: seek_sequence_def search_from_def)

lemma locate_chunk_bound:
  "locate_chunk ls k chunk = Some (i, pattern, new_slice) \<Longrightarrow> k \<le> length ls \<Longrightarrow> i + length pattern \<le> length ls"
  by (auto simp: locate_chunk_def Let_def dest: seek_sequence_bound split: option.splits if_splits)

lemma locate_chunk_from:
  "locate_chunk ls k chunk = Some (i, pattern, new_slice) \<Longrightarrow> \<not> is_end_of_file chunk \<Longrightarrow> k \<le> i"
  by (auto simp: locate_chunk_def Let_def dest: seek_sequence_from split: option.splits if_splits)

lemma advance_to_context_bound:
  "advance_to_context ls path k chunk = Inr k' \<Longrightarrow> k \<le> length ls \<Longrightarrow> k \<le> k' \<and> k' \<le> length ls"
  using seek_sequence_sound [of ls "[the (change_context chunk)]" k False "k' - 1"]
  by (auto simp: advance_to_context_def search_from_def split: option.splits)

definition in_bounds :: "nat \<Rightarrow> replacement \<Rightarrow> bool" where
  "in_bounds n r \<longleftrightarrow> fst r + fst (snd r) \<le> n"

lemma replacements_loop_bounds:
  "replacements_loop ls path k chunks = Inr rs \<Longrightarrow> k \<le> length ls \<Longrightarrow> \<forall>r \<in> set rs. in_bounds (length ls) r"
proof (induction chunks arbitrary: k rs)
  case (Cons chunk chunks)
  obtain k' where adv: "advance_to_context ls path k chunk = Inr k'"
    using Cons.prems(1) by (auto split: sum.splits)
  then have "k' \<le> length ls" using advance_to_context_bound Cons.prems(2) by blast
  then show ?case
    using adv Cons.prems(1) Cons.IH
    by (fastforce simp: in_bounds_def Let_def dest: locate_chunk_bound
        split: if_splits sum.splits option.splits)
qed simp

lemma compute_replacements_bounds:
  "compute_replacements ls path chunks = Inr rs \<Longrightarrow>
    sorted (map fst rs) \<and> (\<forall>r \<in> set rs. in_bounds (length ls) r)"
  by (cases "replacements_loop ls path 0 chunks")
     (auto simp: compute_replacements_def dest: replacements_loop_bounds)

subsection \<open>Applying never panics\<close>

lemma remove_lines_eq: "remove_lines i n ls = take i ls @ drop (i + n) ls"
proof (induction n arbitrary: ls)
  case (Suc n)
  show ?case
  proof (cases "i < length ls")
    case True
    then show ?thesis by (simp add: Suc min_def add.commute)
  next
    case False
    then show ?thesis by (simp add: Suc)
  qed
qed simp

lemma insert_lines_eq: "i \<le> length ls \<Longrightarrow> insert_lines i xs ls = Some (take i ls @ xs @ drop i ls)"
proof (induction xs arbitrary: i ls)
  case (Cons x xs)
  then show ?case
    by (simp add: vec_insert_def min_def)
qed simp

lemma apply_one_eq:
  assumes "i \<le> length ls"
  shows "insert_lines i new (remove_lines i n ls) = Some (take i ls @ new @ drop (i + n) ls)"
  using assms insert_lines_eq [of i "remove_lines i n ls" new]
  by (simp add: remove_lines_eq)

lemma apply_rev_append:
  "apply_rev (xs @ ys) ls = (case apply_rev xs ls of None \<Rightarrow> None | Some ls' \<Rightarrow> apply_rev ys ls')"
  by (induction xs ls rule: apply_rev.induct) (auto split: option.splits)

lemma apply_replacements_Cons:
  "apply_replacements ls ((i, n, new) # rs) =
     (case apply_replacements ls rs of
        None \<Rightarrow> None
      | Some ls' \<Rightarrow> insert_lines i new (remove_lines i n ls'))"
  by (auto simp: apply_replacements_def apply_rev_append split: option.splits)

lemma apply_replacements_total:
  "sorted (map fst rs) \<Longrightarrow> \<forall>r \<in> set rs. p \<le> fst r \<and> fst r \<le> length ls \<Longrightarrow> p \<le> length ls \<Longrightarrow>
    \<exists>ls'. apply_replacements ls rs = Some ls' \<and> p \<le> length ls'"
proof (induction rs arbitrary: p)
  case Nil
  then show ?case by (simp add: apply_replacements_def)
next
  case (Cons r rs)
  obtain i n new where r: "r = (i, n, new)" by (cases r)
  then obtain ls' where "apply_replacements ls rs = Some ls'" "i \<le> length ls'"
    using Cons.IH [of i] Cons.prems by auto
  then show ?case
    using r Cons.prems by (auto simp: apply_replacements_Cons apply_one_eq)
qed

lemma derive_new_contents_total:
  "\<exists>r. derive_new_contents contents path chunks = Some r"
proof (cases "compute_replacements (file_lines contents) path chunks")
  case (Inr rs)
  then have "\<exists>ls'. apply_replacements (file_lines contents) rs = Some ls'"
    using compute_replacements_bounds [OF Inr] apply_replacements_total [of rs 0 "file_lines contents"]
    by (fastforce simp: in_bounds_def)
  with Inr show ?thesis by (auto simp: derive_new_contents_def Let_def)
qed (simp add: derive_new_contents_def Let_def)

subsection \<open>Disjoint replacements are a splice\<close>

text \<open>
  The specification: walk the file once, from left to right, keeping what lies between
  two regions and putting the new lines in the place of each region.
\<close>

fun splice_regions :: "replacement list \<Rightarrow> nat \<Rightarrow> string list \<Rightarrow> string list" where
  "splice_regions [] p ls = drop p ls"
| "splice_regions ((i, n, new) # rs) p ls = take (i - p) (drop p ls) @ new @ splice_regions rs (i + n) ls"

fun disjoint_from :: "nat \<Rightarrow> nat \<Rightarrow> replacement list \<Rightarrow> bool" where
  "disjoint_from m p [] \<longleftrightarrow> p \<le> m"
| "disjoint_from m p ((i, n, new) # rs) \<longleftrightarrow> p \<le> i \<and> disjoint_from m (i + n) rs"

lemma disjoint_from_le: "disjoint_from m p rs \<Longrightarrow> p \<le> m"
  by (induction m p rs rule: disjoint_from.induct) auto

lemma disjoint_from_lower: "disjoint_from m p rs \<Longrightarrow> \<forall>r \<in> set rs. p \<le> fst r"
  by (induction m p rs rule: disjoint_from.induct) fastforce+

lemma disjoint_from_sorted: "disjoint_from m p rs \<Longrightarrow> sorted (map fst rs)"
  by (induction m p rs rule: disjoint_from.induct) (fastforce dest: disjoint_from_lower)+

lemma apply_replacements_splice_from:
  "disjoint_from (length ls) p rs \<Longrightarrow> apply_replacements ls rs = Some (take p ls @ splice_regions rs p ls)"
proof (induction rs arbitrary: p)
  case Nil
  then show ?case by (simp add: apply_replacements_def)
next
  case (Cons r rs)
  obtain i n new where r: "r = (i, n, new)" by (cases r)
  let ?rest = "take (i + n) ls @ splice_regions rs (i + n) ls"
  have bounds: "p \<le> i" "i + n \<le> length ls"
    using Cons.prems r disjoint_from_le by auto
  have "apply_replacements ls rs = Some ?rest"
    using Cons r by simp
  then have "apply_replacements ls (r # rs) = Some (take i ?rest @ new @ drop (i + n) ?rest)"
    using r bounds by (simp add: apply_replacements_Cons apply_one_eq)
  moreover have "take i ?rest = take p ls @ take (i - p) (drop p ls)"
    using bounds take_add [of p "i - p" ls] by (simp add: min_def)
  ultimately show ?case using r bounds by simp
qed

lemma apply_replacements_splice:
  "disjoint_from (length ls) 0 rs \<Longrightarrow> apply_replacements ls rs = Some (splice_regions rs 0 ls)"
  using apply_replacements_splice_from [of ls 0 rs] by simp

text \<open>A chunk that replaces a region in order: it has old lines and is not tied to the end.\<close>

definition ordinary :: "update_file_chunk \<Rightarrow> bool" where
  "ordinary c \<longleftrightarrow> old_lines c \<noteq> [] \<and> \<not> is_end_of_file c"

lemma replacements_loop_disjoint:
  "replacements_loop ls path k chunks = Inr rs \<Longrightarrow> \<forall>c \<in> set chunks. ordinary c \<Longrightarrow> k \<le> length ls \<Longrightarrow>
    disjoint_from (length ls) k rs"
proof (induction chunks arbitrary: k rs)
  case (Cons chunk chunks)
  obtain k' where adv: "advance_to_context ls path k chunk = Inr k'"
    using Cons.prems(1) by (auto split: sum.splits)
  then have k': "k \<le> k'" "k' \<le> length ls" using advance_to_context_bound Cons.prems(3) by blast+
  from adv Cons.prems obtain i p n rs' where
    loc: "locate_chunk ls k' chunk = Some (i, p, n)" and
    rest: "replacements_loop ls path (i + length p) chunks = Inr rs'" and
    rs: "rs = (i, length p, n) # rs'"
    by (auto simp: ordinary_def split: option.splits sum.splits)
  have "i + length p \<le> length ls" "k' \<le> i"
    using locate_chunk_bound [OF loc k'(2)] locate_chunk_from [OF loc] Cons.prems(2)
    by (auto simp: ordinary_def)
  then show ?case using Cons.IH [OF rest] Cons.prems(2) k' rs by simp
qed simp

lemma compute_replacements_disjoint:
  assumes "compute_replacements ls path chunks = Inr rs" and "\<forall>c \<in> set chunks. ordinary c"
  shows "disjoint_from (length ls) 0 rs"
proof -
  obtain rs' where rs': "replacements_loop ls path 0 chunks = Inr rs'" and rs: "rs = sort_key fst rs'"
    using assms(1) by (cases "replacements_loop ls path 0 chunks") (auto simp: compute_replacements_def)
  from replacements_loop_disjoint [OF rs' assms(2)] have "disjoint_from (length ls) 0 rs'" by simp
  with rs show ?thesis by (simp add: sort_key_id_if_sorted disjoint_from_sorted)
qed


subsection \<open>A diff applied to its source gives its target\<close>

text \<open>
  A script walks the file: each step keeps some lines and then replaces the old lines of a
  chunk by its new ones. It is unambiguous when no chunk's old lines occur earlier,
  starting in the lines it keeps.
\<close>

type_synonym script = "(string list \<times> update_file_chunk) list"

fun source_of :: "script \<Rightarrow> string list \<Rightarrow> string list" where
  "source_of [] tail = tail"
| "source_of ((keep, c) # s) tail = keep @ old_lines c @ source_of s tail"

fun target_of :: "script \<Rightarrow> string list \<Rightarrow> string list" where
  "target_of [] tail = tail"
| "target_of ((keep, c) # s) tail = keep @ new_lines c @ target_of s tail"

fun unambiguous :: "script \<Rightarrow> string list \<Rightarrow> bool" where
  "unambiguous [] tail \<longleftrightarrow> True"
| "unambiguous ((keep, c) # s) tail \<longleftrightarrow>
     change_context c = None \<and> ordinary c \<and>
     (\<forall>j < length keep.
        take (length (old_lines c)) (drop j (source_of ((keep, c) # s) tail)) \<noteq> old_lines c) \<and>
     unambiguous s tail"

lemma replacements_loop_script:
  "unambiguous s tail \<Longrightarrow>
    \<exists>rs. replacements_loop (pre @ source_of s tail) path (length pre) (map snd s) = Inr rs \<and>
         splice_regions rs (length pre) (pre @ source_of s tail) = target_of s tail"
proof (induction s tail arbitrary: pre rule: source_of.induct)
  case (2 keep c s tail)
  let ?ls = "pre @ source_of ((keep, c) # s) tail"
  let ?i = "length pre + length keep"
  have old: "old_lines c \<noteq> []" "\<not> is_end_of_file c" "change_context c = None"
    using "2.prems" by (auto simp: ordinary_def)
  have "seek_sequence ?ls (old_lines c) (length pre) False = Some ?i"
  proof (rule seek_sequence_exact [OF old(1)])
    show "\<forall>j. length pre \<le> j \<and> j < ?i \<longrightarrow> take (length (old_lines c)) (drop j ?ls) \<noteq> old_lines c"
    proof (intro allI impI)
      fix j assume j: "length pre \<le> j \<and> j < ?i"
      then have "drop j ?ls = drop (j - length pre) (source_of ((keep, c) # s) tail)" by simp
      moreover have "j - length pre < length keep" using j by auto
      ultimately show "take (length (old_lines c)) (drop j ?ls) \<noteq> old_lines c"
        using "2.prems" by (simp only: unambiguous.simps) metis
    qed
  qed simp_all
  then have loc: "locate_chunk ?ls (length pre) c = Some (?i, old_lines c, new_lines c)"
    using old(2) by (simp add: locate_chunk_def)
  let ?pre = "pre @ keep @ old_lines c"
  from "2.IH" [of ?pre] "2.prems" obtain rs where
    rs: "replacements_loop ?ls path (?i + length (old_lines c)) (map snd s) = Inr rs"
    "splice_regions rs (?i + length (old_lines c)) ?ls = target_of s tail"
    by (auto simp: add.assoc)
  have "replacements_loop ?ls path (length pre) (map snd ((keep, c) # s)) =
      Inr ((?i, length (old_lines c), new_lines c) # rs)"
    using old loc rs(1) by (simp add: advance_to_context_def)
  moreover have "splice_regions ((?i, length (old_lines c), new_lines c) # rs) (length pre) ?ls =
      target_of ((keep, c) # s) tail"
    using rs(2) by simp
  ultimately show ?case by blast
qed simp

text \<open>The text of a file whose every line is ended by a newline.\<close>

definition file_text :: "string list \<Rightarrow> string" where
  "file_text ls = concat (map (\<lambda>l. l @ [CHR 0x0A]) ls)"

lemma file_lines_text: "\<forall>l \<in> set ls. CHR 0x0A \<notin> set l \<Longrightarrow> file_lines (file_text ls) = ls"
proof -
  assume plain: "\<forall>l \<in> set ls. CHR 0x0A \<notin> set l"
  have "file_text ls = join [CHR 0x0A] (ls @ [[]])"
    by (simp add: file_text_def join_lines_concat)
  moreover have "split_on (CHR 0x0A) (join [CHR 0x0A] (ls @ [[]])) = ls @ [[]]"
    using plain by (intro split_on_join) auto
  ultimately show ?thesis by (simp add: file_lines_def ends_with_empty_def)
qed

lemma file_contents_text: "\<not> ends_with_empty ls \<Longrightarrow> file_contents ls = file_text ls"
  by (simp add: file_contents_def file_text_def join_lines_concat)

lemma derive_script:
  assumes "unambiguous s tail" and "\<forall>l \<in> set (source_of s tail). CHR 0x0A \<notin> set l"
    and "\<not> ends_with_empty (target_of s tail)"
  shows "derive_new_contents (file_text (source_of s tail)) path (map snd s) =
    Some (Inr (file_text (target_of s tail)))"
proof -
  let ?src = "source_of s tail"
  obtain rs where rs: "replacements_loop ?src path 0 (map snd s) = Inr rs"
    "splice_regions rs 0 ?src = target_of s tail"
    using replacements_loop_script [OF assms(1), of "[]"] by auto
  have ord: "\<forall>c \<in> set (map snd s). ordinary c"
    using assms(1) by (induction s tail rule: unambiguous.induct) auto
  have dis: "disjoint_from (length ?src) 0 rs"
    using replacements_loop_disjoint [OF rs(1) ord] by simp
  then have "compute_replacements ?src path (map snd s) = Inr rs"
    using rs(1) by (simp add: compute_replacements_def sort_key_id_if_sorted disjoint_from_sorted)
  with rs(2) dis assms(2,3) show ?thesis
    by (simp add: derive_new_contents_def file_lines_text apply_replacements_splice file_contents_text)
qed

subsection \<open>Where the code departs from its intention\<close>

lemma seek_eof_no_fallback:
  "seek_sequence [''a'', ''b''] [''a''] 0 True = None"
  by code_simp

lemma pure_addition_lost:
  "derive_new_contents (file_text [''a'', '''']) ''f''
     [\<lparr>change_context = None, old_lines = [''a'', ''''], new_lines = [''b'', ''''], is_end_of_file = False\<rparr>,
      \<lparr>change_context = None, old_lines = [], new_lines = [''c''], is_end_of_file = False\<rparr>] =
   Some (Inr (file_text [''b'', '''']))"
  by code_simp

lemma trailing_blank_line_lost:
  "derive_new_contents (file_text [''a'', '''']) ''f''
     [\<lparr>change_context = None, old_lines = [''a''], new_lines = [''b''], is_end_of_file = False\<rparr>] =
   Some (Inr (file_text [''b'']))"
  by code_simp

subsection \<open>Properties\<close>

text \<open>
  What \<open>seek_sequence\<close> finds is there: the position is not before the search start, the
  pattern fits into the file, and line by line the file and the pattern are equal up to
  white space and typographic punctuation.
\<close>

theorem seek_sequence_finds_match:
  assumes "seek_sequence ls pattern start eof = Some i" and "pattern \<noteq> []"
  shows "(if eof then length ls - length pattern else start) \<le> i \<and> i + length pattern \<le> length ls \<and>
    map normalise (take (length pattern) (drop i ls)) = map normalise pattern"
  using seek_sequence_sound [OF assms] by (simp add: search_from_def loose_match_def)

theorem seek_sequence_finds_match_witness:
  "seek_sequence [''a'', ''  b '', ''c''] [''b'', ''c''] 0 False = Some 1 \<and>
   map normalise (take 2 (drop 1 [''a'', ''  b '', ''c''])) = map normalise [''b'', ''c'']"
proof -
  have run: "seek_sequence [''a'', ''  b '', ''c''] [''b'', ''c''] 0 False = Some 1" by code_simp
  from seek_sequence_finds_match [OF run] run show ?thesis by simp
qed

text \<open>
  A search fails only when it must: if \<open>seek_sequence\<close> returns nothing, no position from
  the search start on matches the pattern, not even up to white space and punctuation.
\<close>

theorem seek_sequence_misses_nothing:
  assumes "seek_sequence ls pattern start eof = None"
    and "(if eof then length ls - length pattern else start) \<le> i" and "i + length pattern \<le> length ls"
  shows "map normalise (take (length pattern) (drop i ls)) \<noteq> map normalise pattern"
  using seek_sequence_complete [OF assms(1)] assms(2,3) by (auto simp: search_from_def loose_match_def)

theorem seek_sequence_misses_nothing_witness:
  "seek_sequence [''a'', ''b'', ''c''] [''b'', ''d''] 0 False = None \<and>
   map normalise (take 2 (drop 1 [''a'', ''b'', ''c''])) \<noteq> map normalise [''b'', ''d'']"
proof -
  have run: "seek_sequence [''a'', ''b'', ''c''] [''b'', ''d''] 0 False = None" by code_simp
  from seek_sequence_misses_nothing [OF run, of 1] run show ?thesis by simp
qed

text \<open>
  Deriving the new contents of a file never panics: whatever the file and the chunks,
  every index \<open>apply_replacements\<close> inserts at is inside the vector, so the result is new
  contents or an error.
\<close>

theorem derive_never_panics:
  "\<exists>r. derive_new_contents original_contents path chunks = Some r"
  by (rule derive_new_contents_total)

text \<open>
  For ordinary chunks (with old lines, not tied to the end of the file) the in-place
  removals and insertions, done from the last replacement to the first, are one walk over
  the file from left to right that splices the new lines into disjoint regions.
\<close>

theorem replacements_are_a_splice:
  assumes "compute_replacements ls path chunks = Inr rs"
    and "\<forall>c \<in> set chunks. old_lines c \<noteq> [] \<and> \<not> is_end_of_file c"
  shows "apply_replacements ls rs = Some (splice_regions rs 0 ls)"
  using compute_replacements_disjoint [OF assms(1)] assms(2) apply_replacements_splice
  by (auto simp: ordinary_def)

definition sample_chunks :: "update_file_chunk list" where
  "sample_chunks =
     [\<lparr>change_context = None, old_lines = [''b''], new_lines = [''B'', ''B2''], is_end_of_file = False\<rparr>,
      \<lparr>change_context = None, old_lines = [''d'', ''e''], new_lines = [], is_end_of_file = False\<rparr>]"

theorem replacements_are_a_splice_witness:
  "compute_replacements [''a'', ''b'', ''c'', ''d'', ''e''] ''f'' sample_chunks =
     Inr [(1, 1, [''B'', ''B2'']), (3, 2, [])] \<and>
   apply_replacements [''a'', ''b'', ''c'', ''d'', ''e''] [(1, 1, [''B'', ''B2'']), (3, 2, [])] =
     Some (splice_regions [(1, 1, [''B'', ''B2'']), (3, 2, [])] 0 [''a'', ''b'', ''c'', ''d'', ''e''])"
proof -
  have run: "compute_replacements [''a'', ''b'', ''c'', ''d'', ''e''] ''f'' sample_chunks =
     Inr [(1, 1, [''B'', ''B2'']), (3, 2, [])]" by code_simp
  moreover have "\<forall>c \<in> set sample_chunks. old_lines c \<noteq> [] \<and> \<not> is_end_of_file c" by code_simp
  ultimately show ?thesis using replacements_are_a_splice by blast
qed



end
