(* ===== verification/Patch_Files.thy ===== *)
theory Patch_Files
  imports Patch_Apply
begin

section \<open>Applying hunks to a file system\<close>

text \<open>
  The effectful half of \<open>codex-rs/apply-patch/src/lib.rs\<close>: \<open>apply_hunks_to_files\<close> with its
  helpers and the delta it keeps of what was committed. The file system is the trait object
  \<open>ExecutorFileSystem\<close> (\<open>codex-rs/file-system/src/lib.rs\<close>): a record of operations over a
  state \<open>'s\<close>, a parameter of every definition here. A write or removal returns the next
  state beside its result, since a failed one may still have changed something. The
  \<open>sandbox\<close> argument is passed on unchanged by all this code and is left inside the record.
\<close>

subsection \<open>The file system interface and the delta\<close>

record file_metadata =
  is_directory :: bool
  is_file :: bool
  is_symlink :: bool
  created_at_ms :: int
  modified_at_ms :: int

record 's executor_fs =
  read_file_text :: "'s \<Rightarrow> string \<Rightarrow> io_error + string"
  write_file :: "'s \<Rightarrow> string \<Rightarrow> string \<Rightarrow> 's \<times> (io_error + unit)"
  create_directory :: "'s \<Rightarrow> string \<Rightarrow> bool \<Rightarrow> 's \<times> (io_error + unit)"
  get_metadata :: "'s \<Rightarrow> string \<Rightarrow> io_error + file_metadata"
  remove :: "'s \<Rightarrow> string \<Rightarrow> bool \<Rightarrow> bool \<Rightarrow> 's \<times> (io_error + unit)"

text \<open>\<open>AbsolutePathBuf\<close>: joining a path to a base, and the parent directory.\<close>

record path_ops =
  resolve_path_against_base :: "string \<Rightarrow> string \<Rightarrow> string"
  path_parent :: "string \<Rightarrow> string option"

fun error_kind :: "io_error \<Rightarrow> string" where
  "error_kind (IoError kind _) = kind"

definition NotFound :: string where
  "NotFound = ''NotFound''"

definition InvalidInput :: string where
  "InvalidInput = ''InvalidInput''"

datatype applied_file_change =
    ChangeAdd string "string option"  \<comment> \<open>content, overwritten\_content\<close>
  | ChangeDelete string
  | ChangeUpdate "string option" string "string option" string
      \<comment> \<open>move\_path, old\_content, overwritten\_move\_content, new\_content\<close>

record applied_patch_delta =
  changes :: "(string \<times> applied_file_change) list"
  exact :: bool

definition empty_delta :: applied_patch_delta where
  "empty_delta = \<lparr>changes = [], exact = True\<rparr>"

text \<open>\<open>AppliedPatchDelta::append\<close>.\<close>

definition delta_append :: "applied_patch_delta \<Rightarrow> applied_patch_delta \<Rightarrow> applied_patch_delta" where
  "delta_append d other = \<lparr>changes = changes d @ changes other, exact = (exact d \<and> exact other)\<rparr>"

record affected_paths =
  added :: "string list"
  modified :: "string list"
  deleted :: "string list"

text \<open>The errors of \<open>apply_hunks_to_files\<close>: \<open>anyhow\<close> with or without an I/O source.\<close>

datatype apply_failure =
    NoFilesModified
  | WithContext string io_error
  | DeriveFailure apply_patch_error
  | ApplyPanic  \<comment> \<open>a panic while the new contents are derived\<close>

subsection \<open>Helpers\<close>

definition ensure_not_directory :: "'s executor_fs \<Rightarrow> 's \<Rightarrow> string \<Rightarrow> io_error + unit" where
  "ensure_not_directory fs s path =
     (case get_metadata fs s path of
        Inl e \<Rightarrow> Inl e
      | Inr metadata \<Rightarrow>
          if is_directory metadata then Inl (IoError InvalidInput ''path is a directory'') else Inr ())"

definition remove_failure_was_side_effect_free ::
    "'s executor_fs \<Rightarrow> 's \<Rightarrow> string \<Rightarrow> string option \<Rightarrow> bool" where
  "remove_failure_was_side_effect_free fs s path expected_content =
     (case expected_content of
        Some expected \<Rightarrow>
          (case read_file_text fs s path of Inr content \<Rightarrow> content = expected | Inl _ \<Rightarrow> False)
      | None \<Rightarrow> False)"

text \<open>The flag \<open>exact\<close> is an in-out argument of the next two.\<close>

definition note_existing_path_delta_support :: "'s executor_fs \<Rightarrow> 's \<Rightarrow> string \<Rightarrow> bool \<Rightarrow> bool" where
  "note_existing_path_delta_support fs s path ex =
     (case get_metadata fs s path of
        Inr metadata \<Rightarrow> if is_file metadata \<and> \<not> is_symlink metadata then ex else False
      | Inl source \<Rightarrow> if error_kind source = NotFound then ex else False)"

definition read_optional_file_text_for_delta ::
    "'s executor_fs \<Rightarrow> 's \<Rightarrow> string \<Rightarrow> bool \<Rightarrow> string option \<times> bool" where
  "read_optional_file_text_for_delta fs s path ex =
     (let ex1 = note_existing_path_delta_support fs s path ex in
      case read_file_text fs s path of
        Inr content \<Rightarrow> (Some content, ex1)
      | Inl source \<Rightarrow> if error_kind source = NotFound then (None, ex1) else (None, False))"

definition write_file_with_missing_parent_retry ::
    "'s executor_fs \<Rightarrow> path_ops \<Rightarrow> 's \<Rightarrow> string \<Rightarrow> string \<Rightarrow> 's \<times> (apply_failure + unit)" where
  "write_file_with_missing_parent_retry fs paths s path contents =
     (let write_again = (\<lambda>s.
        (case write_file fs s path contents of
           (s', Inr _) \<Rightarrow> (s', Inr ())
         | (s', Inl e) \<Rightarrow> (s', Inl (WithContext (''Failed to write file '' @ path) e))))
      in case write_file fs s path contents of
        (s1, Inr _) \<Rightarrow> (s1, Inr ())
      | (s1, Inl err) \<Rightarrow>
          if error_kind err = NotFound then
            (case path_parent paths path of
               Some parent \<Rightarrow>
                 (case create_directory fs s1 parent True of
                    (s2, Inl e) \<Rightarrow>
                      (s2, Inl (WithContext (''Failed to create parent directories for '' @ path) e))
                  | (s2, Inr _) \<Rightarrow> write_again s2)
             | None \<Rightarrow> write_again s1)
          else (s1, Inl (WithContext (''Failed to write file '' @ path) err)))"

definition derive_new_contents_from_chunks ::
    "'s executor_fs \<Rightarrow> 's \<Rightarrow> string \<Rightarrow> update_file_chunk list \<Rightarrow> apply_failure + (string \<times> string)" where
  "derive_new_contents_from_chunks fs s path chunks =
     (case read_file_text fs s path of
        Inl err \<Rightarrow> Inl (DeriveFailure (IoFailure (''Failed to read file to update '' @ path) err))
      | Inr original_contents \<Rightarrow>
          (case derive_new_contents original_contents path chunks of
             None \<Rightarrow> Inl ApplyPanic
           | Some (Inl e) \<Rightarrow> Inl (DeriveFailure e)
           | Some (Inr new_contents) \<Rightarrow> Inr (original_contents, new_contents)))"

subsection \<open>One hunk\<close>

record 's apply_run =
  fs_state :: 's
  delta :: applied_patch_delta
  affected :: affected_paths

definition push_change :: "string \<Rightarrow> applied_file_change \<Rightarrow> applied_patch_delta \<Rightarrow> applied_patch_delta" where
  "push_change path change d = d\<lparr>changes := changes d @ [(path, change)]\<rparr>"

text \<open>\<open>fs.remove\<close> with neither flag, as every caller here uses it.\<close>

definition remove_plain :: "'s executor_fs \<Rightarrow> 's \<Rightarrow> string \<Rightarrow> 's \<times> (io_error + unit)" where
  "remove_plain fs s path = remove fs s path False False"

definition apply_add_file ::
    "'s executor_fs \<Rightarrow> path_ops \<Rightarrow> string \<Rightarrow> string \<Rightarrow> string \<Rightarrow> 's apply_run
     \<Rightarrow> 's apply_run \<times> (apply_failure + unit)" where
  "apply_add_file fs paths path_abs affected_path contents r =
     (let (overwritten_content, ex) =
        read_optional_file_text_for_delta fs (fs_state r) path_abs (exact (delta r)) in
      case write_file_with_missing_parent_retry fs paths (fs_state r) path_abs contents of
        (s1, Inl e) \<Rightarrow> (r\<lparr>fs_state := s1, delta := (delta r)\<lparr>exact := False\<rparr>\<rparr>, Inl e)
      | (s1, Inr _) \<Rightarrow>
          (r\<lparr>fs_state := s1,
             delta := push_change path_abs (ChangeAdd contents overwritten_content) ((delta r)\<lparr>exact := ex\<rparr>),
             affected := (affected r)\<lparr>added := added (affected r) @ [affected_path]\<rparr>\<rparr>, Inr ()))"

definition apply_delete_file ::
    "'s executor_fs \<Rightarrow> string \<Rightarrow> string \<Rightarrow> 's apply_run \<Rightarrow> 's apply_run \<times> (apply_failure + unit)" where
  "apply_delete_file fs path_abs affected_path r =
     (let ex1 = note_existing_path_delta_support fs (fs_state r) path_abs (exact (delta r));
          deleted_content =
            (case read_file_text fs (fs_state r) path_abs of Inr c \<Rightarrow> Some c | Inl _ \<Rightarrow> None);
          ex2 = (if deleted_content = None then False else ex1);
          failed = WithContext (''Failed to delete file '' @ path_abs) in
      case ensure_not_directory fs (fs_state r) path_abs of
        Inl e \<Rightarrow> (r\<lparr>delta := (delta r)\<lparr>exact := ex2\<rparr>\<rparr>, Inl (failed e))
      | Inr _ \<Rightarrow>
          (case remove_plain fs (fs_state r) path_abs of
             (s1, Inl e) \<Rightarrow>
               (r\<lparr>fs_state := s1,
                  delta := (delta r)\<lparr>exact :=
                    (ex2 \<and> remove_failure_was_side_effect_free fs s1 path_abs deleted_content)\<rparr>\<rparr>,
                Inl (failed e))
           | (s1, Inr _) \<Rightarrow>
               (r\<lparr>fs_state := s1,
                  delta := (case deleted_content of
                      Some content \<Rightarrow> push_change path_abs (ChangeDelete content) ((delta r)\<lparr>exact := ex2\<rparr>)
                    | None \<Rightarrow> (delta r)\<lparr>exact := ex2\<rparr>),
                  affected := (affected r)\<lparr>deleted := deleted (affected r) @ [affected_path]\<rparr>\<rparr>, Inr ())))"

text \<open>The second half of a rename: the original is removed, and the change completed.\<close>

definition remove_original ::
    "'s executor_fs \<Rightarrow> string \<Rightarrow> string \<Rightarrow> string \<Rightarrow> string \<Rightarrow> string option \<Rightarrow> string \<Rightarrow> 's apply_run
     \<Rightarrow> 's apply_run \<times> (apply_failure + unit)" where
  "remove_original fs path_abs dest_abs affected_path original overwritten new_contents r =
     (let failed = WithContext (''Failed to remove original '' @ path_abs);
          dest_write_change_index = length (changes (delta r)) - 1 in
      case ensure_not_directory fs (fs_state r) path_abs of
        Inl e \<Rightarrow> (r, Inl (failed e))
      | Inr _ \<Rightarrow>
          (case remove_plain fs (fs_state r) path_abs of
             (s1, Inl e) \<Rightarrow>
               (r\<lparr>fs_state := s1,
                  delta := (delta r)\<lparr>exact :=
                    (exact (delta r) \<and> remove_failure_was_side_effect_free fs s1 path_abs (Some original))\<rparr>\<rparr>,
                Inl (failed e))
           | (s1, Inr _) \<Rightarrow>
               (r\<lparr>fs_state := s1,
                  delta := (delta r)\<lparr>changes := (changes (delta r))[dest_write_change_index :=
                    (path_abs, ChangeUpdate (Some dest_abs) original overwritten new_contents)]\<rparr>,
                  affected := (affected r)\<lparr>modified := modified (affected r) @ [affected_path]\<rparr>\<rparr>, Inr ())))"

definition apply_update_file ::
    "'s executor_fs \<Rightarrow> path_ops \<Rightarrow> string \<Rightarrow> string \<Rightarrow> string \<Rightarrow> string option \<Rightarrow> update_file_chunk list
     \<Rightarrow> 's apply_run \<Rightarrow> 's apply_run \<times> (apply_failure + unit)" where
  "apply_update_file fs paths cwd path_abs affected_path move_path chunks r0 =
     (let ex1 = note_existing_path_delta_support fs (fs_state r0) path_abs (exact (delta r0));
          r = r0\<lparr>delta := (delta r0)\<lparr>exact := ex1\<rparr>\<rparr> in
      case derive_new_contents_from_chunks fs (fs_state r) path_abs chunks of
        Inl e \<Rightarrow> (r, Inl e)
      | Inr (original, new_contents) \<Rightarrow>
      (case move_path of
        Some dest \<Rightarrow>
          (let dest_abs = resolve_path_against_base paths dest cwd;
               (overwritten, ex2) =
                 read_optional_file_text_for_delta fs (fs_state r) dest_abs (exact (delta r)) in
           case write_file_with_missing_parent_retry fs paths (fs_state r) dest_abs new_contents of
             (s1, Inl e) \<Rightarrow> (r\<lparr>fs_state := s1, delta := (delta r)\<lparr>exact := False\<rparr>\<rparr>, Inl e)
           | (s1, Inr _) \<Rightarrow>
               remove_original fs path_abs dest_abs affected_path original overwritten new_contents
                 (r\<lparr>fs_state := s1,
                    delta := push_change dest_abs (ChangeAdd new_contents overwritten)
                      ((delta r)\<lparr>exact := ex2\<rparr>)\<rparr>))
      | None \<Rightarrow>
          (case write_file fs (fs_state r) path_abs new_contents of
             (s1, Inl e) \<Rightarrow>
               (r\<lparr>fs_state := s1, delta := (delta r)\<lparr>exact := False\<rparr>\<rparr>,
                Inl (WithContext (''Failed to write file '' @ path_abs) e))
           | (s1, Inr _) \<Rightarrow>
               (r\<lparr>fs_state := s1,
                  delta := push_change path_abs (ChangeUpdate None original None new_contents) (delta r),
                  affected := (affected r)\<lparr>modified := modified (affected r) @ [affected_path]\<rparr>\<rparr>, Inr ()))))"

definition apply_hunk ::
    "'s executor_fs \<Rightarrow> path_ops \<Rightarrow> string \<Rightarrow> hunk \<Rightarrow> 's apply_run \<Rightarrow> 's apply_run \<times> (apply_failure + unit)" where
  "apply_hunk fs paths cwd h r =
     (let affected_path = hunk_path h;
          path_abs = resolve_path (resolve_path_against_base paths) h cwd in
      case h of
        AddFile _ contents \<Rightarrow> apply_add_file fs paths path_abs affected_path contents r
      | DeleteFile _ \<Rightarrow> apply_delete_file fs path_abs affected_path r
      | UpdateFile _ move_path chunks \<Rightarrow>
          apply_update_file fs paths cwd path_abs affected_path move_path chunks r)"

subsection \<open>All hunks\<close>

fun apply_hunk_list ::
    "'s executor_fs \<Rightarrow> path_ops \<Rightarrow> string \<Rightarrow> hunk list \<Rightarrow> 's apply_run \<Rightarrow> 's apply_run \<times> (apply_failure + unit)" where
  "apply_hunk_list fs paths cwd [] r = (r, Inr ())"
| "apply_hunk_list fs paths cwd (h # hs) r =
     (case apply_hunk fs paths cwd h r of
        (r', Inl e) \<Rightarrow> (r', Inl e)
      | (r', Inr _) \<Rightarrow> apply_hunk_list fs paths cwd hs r')"

definition no_affected_paths :: affected_paths where
  "no_affected_paths = \<lparr>added = [], modified = [], deleted = []\<rparr>"

text \<open>The result: the file system, the delta, and the affected paths or the error.\<close>

definition apply_hunks_to_files ::
    "'s executor_fs \<Rightarrow> path_ops \<Rightarrow> string \<Rightarrow> hunk list \<Rightarrow> 's \<Rightarrow> applied_patch_delta
     \<Rightarrow> 's \<times> applied_patch_delta \<times> (apply_failure + affected_paths)" where
  "apply_hunks_to_files fs paths cwd hs s d =
     (if hs = [] then (s, d, Inl NoFilesModified)
      else (case apply_hunk_list fs paths cwd hs \<lparr>fs_state = s, delta = d, affected = no_affected_paths\<rparr> of
              (r, Inl e) \<Rightarrow> (fs_state r, delta r, Inl e)
            | (r, Inr _) \<Rightarrow> (fs_state r, delta r, Inr (affected r))))"

subsection \<open>The entry points\<close>

text \<open>
  \<open>stdout\<close> and \<open>stderr\<close> are writers: a writer takes a line and its state, and may fail. A
  failed write ends the output.
\<close>

type_synonym 'w writer = "string \<Rightarrow> 'w \<Rightarrow> 'w \<times> (io_error + unit)"

fun write_lines :: "'w writer \<Rightarrow> string list \<Rightarrow> 'w \<Rightarrow> 'w \<times> (io_error + unit)" where
  "write_lines write [] w = (w, Inr ())"
| "write_lines write (l # ls) w =
     (case write (l @ [CHR 0x0A]) w of
        (w', Inl e) \<Rightarrow> (w', Inl e)
      | (w', Inr _) \<Rightarrow> write_lines write ls w')"

definition print_summary :: "'w writer \<Rightarrow> affected_paths \<Rightarrow> 'w \<Rightarrow> 'w \<times> (io_error + unit)" where
  "print_summary write a w =
     write_lines write
       ([''Success. Updated the following files:''] @ map (\<lambda>p. ''A '' @ p) (added a) @
        map (\<lambda>p. ''M '' @ p) (modified a) @ map (\<lambda>p. ''D '' @ p) (deleted a)) w"

text \<open>How errors are printed: \<open>Display\<close> of the error types, and of \<open>anyhow\<close> with a context.\<close>

fun io_error_text :: "io_error \<Rightarrow> string" where
  "io_error_text (IoError _ t) = t"

fun parse_error_text :: "parse_error \<Rightarrow> string" where
  "parse_error_text (InvalidPatchError m) = ''invalid patch: '' @ m"
| "parse_error_text (InvalidHunkError m n) = ''invalid hunk at line '' @ nat_str n @ '', '' @ m"

fun apply_patch_error_text :: "apply_patch_error \<Rightarrow> string" where
  "apply_patch_error_text (ParseError e) = parse_error_text e"
| "apply_patch_error_text (IoFailure ctx src) = ctx @ '': '' @ io_error_text src"
| "apply_patch_error_text (ComputeReplacements m) = m"
| "apply_patch_error_text ImplicitInvocation =
     ''patch detected without explicit call to apply_patch. Rerun as [\"apply_patch\", \"<patch>\"]''"

fun failure_text :: "apply_failure \<Rightarrow> string" where
  "failure_text NoFilesModified = ''No files were modified.''"
| "failure_text (WithContext ctx _) = ctx"
| "failure_text (DeriveFailure e) = apply_patch_error_text e"
| "failure_text ApplyPanic = ''panicked''"

text \<open>An I/O error is found under its context by \<open>downcast_ref\<close>; others are wrapped.\<close>

definition io_failure :: "io_error \<Rightarrow> apply_patch_error" where
  "io_failure err = IoFailure ''I/O error'' err"

fun failure_error :: "apply_failure \<Rightarrow> apply_patch_error" where
  "failure_error (WithContext _ io) = io_failure io"
| "failure_error failure = IoFailure (failure_text failure) (IoError ''Other'' (failure_text failure))"

text \<open>\<open>ApplyPatchFailure\<close> is the error with the delta committed before it.\<close>

definition apply_hunks ::
    "'s executor_fs \<Rightarrow> path_ops \<Rightarrow> 'w writer \<Rightarrow> 'w writer \<Rightarrow> hunk list \<Rightarrow> string \<Rightarrow> 's \<Rightarrow> 'w
     \<Rightarrow> 's \<times> 'w \<times> ((apply_patch_error \<times> applied_patch_delta) + applied_patch_delta)" where
  "apply_hunks fs paths stdout stderr hs cwd s w =
     (case apply_hunks_to_files fs paths cwd hs s empty_delta of
        (s', d, Inr affected_paths) \<Rightarrow>
          (case print_summary stdout affected_paths w of
             (w', Inl e) \<Rightarrow> (s', w', Inl (io_failure e, d))
           | (w', Inr _) \<Rightarrow> (s', w', Inr d))
      | (s', d, Inl failure) \<Rightarrow>
          (case write_lines stderr [failure_text failure] w of
             (w', Inl e) \<Rightarrow> (s', w', Inl (io_failure e, d))
           | (w', Inr _) \<Rightarrow> (s', w', Inl (failure_error failure, d))))"

fun parse_failure_line :: "parse_error \<Rightarrow> string" where
  "parse_failure_line (InvalidPatchError m) = ''Invalid patch: '' @ m"
| "parse_failure_line (InvalidHunkError m n) = ''Invalid patch hunk on line '' @ nat_str n @ '': '' @ m"

definition apply_patch ::
    "'s executor_fs \<Rightarrow> path_ops \<Rightarrow> 'w writer \<Rightarrow> 'w writer \<Rightarrow> string \<Rightarrow> string \<Rightarrow> 's \<Rightarrow> 'w
     \<Rightarrow> 's \<times> 'w \<times> ((apply_patch_error \<times> applied_patch_delta) + applied_patch_delta)" where
  "apply_patch fs paths stdout stderr text cwd s w =
     (case parse_patch text of
        Inr source \<Rightarrow> apply_hunks fs paths stdout stderr (hunks source) cwd s w
      | Inl e \<Rightarrow>
          (case write_lines stderr [parse_failure_line e] w of
             (w', Inl io) \<Rightarrow> (s, w', Inl (io_failure io, empty_delta))
           | (w', Inr _) \<Rightarrow> (s, w', Inl (ParseError e, empty_delta))))"

subsection \<open>What an exact delta promises\<close>

text \<open>
  The files as a map from paths to contents. A change can be replayed on such a map and
  undone from it: the delta is meant to be exact in the sense that replaying it on the
  files before gives the files after, and undoing it gives the files before again.
\<close>

type_synonym files = "string \<rightharpoonup> string"

fun replay_change :: "string \<times> applied_file_change \<Rightarrow> files \<Rightarrow> files" where
  "replay_change (p, ChangeAdd c _) m = m(p \<mapsto> c)"
| "replay_change (p, ChangeDelete _) m = m(p := None)"
| "replay_change (p, ChangeUpdate None _ _ c) m = m(p \<mapsto> c)"
| "replay_change (p, ChangeUpdate (Some d) _ _ c) m = m(d \<mapsto> c, p := None)"

fun undo_change :: "string \<times> applied_file_change \<Rightarrow> files \<Rightarrow> files" where
  "undo_change (p, ChangeAdd _ overwritten) m = m(p := overwritten)"
| "undo_change (p, ChangeDelete c) m = m(p \<mapsto> c)"
| "undo_change (p, ChangeUpdate None original _ _) m = m(p \<mapsto> original)"
| "undo_change (p, ChangeUpdate (Some d) original overwritten _) m = m(d := overwritten, p \<mapsto> original)"

definition replay :: "(string \<times> applied_file_change) list \<Rightarrow> files \<Rightarrow> files" where
  "replay cs m = fold replay_change cs m"

definition undo :: "(string \<times> applied_file_change) list \<Rightarrow> files \<Rightarrow> files" where
  "undo cs m = foldr undo_change cs m"

text \<open>A path the delta can describe: a regular file that is no symbolic link, or nothing.\<close>

definition plain_path :: "'s executor_fs \<Rightarrow> 's \<Rightarrow> string \<Rightarrow> bool" where
  "plain_path fs s p \<longleftrightarrow>
     (case get_metadata fs s p of
        Inr m \<Rightarrow> is_file m \<and> \<not> is_symlink m
      | Inl e \<Rightarrow> error_kind e = NotFound)"

definition explains :: "('s \<Rightarrow> files) \<Rightarrow> 's \<Rightarrow> (string \<times> applied_file_change) list \<Rightarrow> 's \<Rightarrow> bool" where
  "explains view s cs s' \<longleftrightarrow> replay cs (view s) = view s' \<and> undo cs (view s') = view s"

definition step_explained :: "('s \<Rightarrow> files) \<Rightarrow> 's apply_run \<Rightarrow> 's apply_run \<Rightarrow> bool" where
  "step_explained view r r' \<longleftrightarrow>
     (exact (delta r') \<longrightarrow>
        exact (delta r) \<and>
        (\<exists>cs. changes (delta r') = changes (delta r) @ cs \<and> explains view (fs_state r) cs (fs_state r')))"

lemma explains_Nil: "view s' = view s \<Longrightarrow> explains view s [] s'"
  by (simp add: explains_def replay_def undo_def)

lemma explains_append:
  "explains view s cs s' \<Longrightarrow> explains view s' cs' s'' \<Longrightarrow> explains view s (cs @ cs') s''"
  by (simp add: explains_def replay_def undo_def)

lemma explains_one:
  "explains view s [c] s' \<longleftrightarrow> replay_change c (view s) = view s' \<and> undo_change c (view s') = view s"
  by (simp add: explains_def replay_def undo_def)

lemma step_explained_refl: "step_explained view r r"
  by (auto simp: step_explained_def intro: explains_Nil)

lemma step_explained_trans:
  "step_explained view r r' \<Longrightarrow> step_explained view r' r'' \<Longrightarrow> step_explained view r r''"
  unfolding step_explained_def by (metis append_assoc explains_append)

lemma note_exact:
  "note_existing_path_delta_support fs s p ex \<longleftrightarrow> ex \<and> plain_path fs s p"
  by (auto simp: note_existing_path_delta_support_def plain_path_def split: sum.splits)

text \<open>
  The laws a file system must keep for this. They speak of plain paths only: through a
  symbolic link a write reaches another file, which is why the code gives up exactness there.
\<close>

locale text_fs =
  fixes fs :: "'s executor_fs" and paths :: path_ops and view :: "'s \<Rightarrow> files"
  assumes read_view:
      "plain_path fs s p \<Longrightarrow> read_file_text fs s p = Inr c \<Longrightarrow> view s p = Some c"
    and read_missing:
      "plain_path fs s p \<Longrightarrow> read_file_text fs s p = Inl e \<Longrightarrow> error_kind e = NotFound \<Longrightarrow> view s p = None"
    and write_view:
      "plain_path fs s p \<Longrightarrow> write_file fs s p c = (s', Inr ()) \<Longrightarrow> view s' = (view s)(p \<mapsto> c)"
    and write_plain:
      "plain_path fs s p \<Longrightarrow> write_file fs s p c = (s', Inr ()) \<Longrightarrow> plain_path fs s q \<Longrightarrow> plain_path fs s' q"
    and write_missing:
      "write_file fs s p c = (s', Inl e) \<Longrightarrow> error_kind e = NotFound \<Longrightarrow> s' = s"
    and create_view:
      "create_directory fs s d True = (s', Inr ()) \<Longrightarrow> view s' = view s"
    and create_plain:
      "create_directory fs s d True = (s', Inr ()) \<Longrightarrow> plain_path fs s p \<Longrightarrow>
         view s p \<noteq> None \<or> path_parent paths p = Some d \<Longrightarrow> plain_path fs s' p"
    and remove_view:
      "plain_path fs s p \<Longrightarrow> remove fs s p False False = (s', Inr ()) \<Longrightarrow> view s' = (view s)(p := None)"
    and remove_failed:
      "plain_path fs s p \<Longrightarrow> remove fs s p False False = (s', Inl e) \<Longrightarrow>
         plain_path fs s' p \<and> (view s' = view s \<or> view s' = (view s)(p := None))"
begin

lemma write_retry_view:
  assumes "plain_path fs s p" and "write_file_with_missing_parent_retry fs paths s p c = (s', Inr u)"
  shows "view s' = (view s)(p \<mapsto> c) \<and> (\<forall>q. plain_path fs s q \<longrightarrow> view s q \<noteq> None \<longrightarrow> plain_path fs s' q)"
proof -
  have once: "view s2 = (view s1)(p \<mapsto> c) \<and> (\<forall>q. plain_path fs s1 q \<longrightarrow> plain_path fs s2 q)"
    if "plain_path fs s1 p" "write_file fs s1 p c = (s2, Inr v)" for s1 s2 v
    using that write_view [of s1 p c s2] write_plain [of s1 p c s2] by auto
  from assms(2) consider
      "write_file fs s p c = (s', Inr ())"
    | s1 e d s2 where "write_file fs s p c = (s1, Inl e)" "error_kind e = NotFound"
        "path_parent paths p = Some d" "create_directory fs s1 d True = (s2, Inr ())"
        "write_file fs s2 p c = (s', Inr ())"
    | s1 e where "write_file fs s p c = (s1, Inl e)" "error_kind e = NotFound"
        "write_file fs s1 p c = (s', Inr ())"
    by (auto simp: write_file_with_missing_parent_retry_def Let_def
        split: prod.splits sum.splits option.splits if_splits)
  then show ?thesis
  proof cases
    case 1
    with once assms(1) show ?thesis by blast
  next
    case 2
    have "s1 = s" using 2(1,2) by (rule write_missing)
    with 2 assms(1) have "view s2 = view s" "plain_path fs s2 p"
      using create_view create_plain by blast+
    moreover have "plain_path fs s2 q" if "plain_path fs s q" "view s q \<noteq> None" for q
      using that 2(4) \<open>s1 = s\<close> create_plain by blast
    ultimately show ?thesis using once 2(5) by metis
  next
    case 3
    then have "s1 = s" using write_missing by blast
    with 3 once assms(1) show ?thesis by blast
  qed
qed

lemma read_optional_exact:
  assumes "read_optional_file_text_for_delta fs s p ex = (overwritten, True)"
  shows "ex \<and> plain_path fs s p \<and> view s p = overwritten"
  using assms
  by (auto simp: read_optional_file_text_for_delta_def note_exact Let_def
      intro: read_view read_missing split: sum.splits if_splits)

lemma side_effect_free:
  assumes "plain_path fs s p" and "remove fs s p False False = (s', Inl e)"
    and "remove_failure_was_side_effect_free fs s' p expected"
  shows "view s' = view s"
proof -
  obtain c where "read_file_text fs s' p = Inr c"
    using assms(3) by (auto simp: remove_failure_was_side_effect_free_def split: option.splits sum.splits)
  then have "view s' p = Some c" using remove_failed [OF assms(1,2)] read_view by blast
  then show ?thesis using remove_failed [OF assms(1,2)] by auto
qed

lemma add_explained:
  assumes "apply_add_file fs paths p a c r = (r', res)"
  shows "step_explained view r r'"
  unfolding step_explained_def
proof (intro impI)
  assume ex: "exact (delta r')"
  obtain ow ex' where ro: "read_optional_file_text_for_delta fs (fs_state r) p (exact (delta r)) = (ow, ex')"
    by fastforce
  with assms ex obtain s1 u where
    w: "write_file_with_missing_parent_retry fs paths (fs_state r) p c = (s1, Inr u)" and
    r': "fs_state r' = s1" "changes (delta r') = changes (delta r) @ [(p, ChangeAdd c ow)]" and ex': ex'
    by (auto simp: apply_add_file_def push_change_def split: prod.splits sum.splits)
  from ro ex' have "exact (delta r) \<and> plain_path fs (fs_state r) p \<and> view (fs_state r) p = ow"
    by (auto dest: read_optional_exact)
  moreover from this have "explains view (fs_state r) [(p, ChangeAdd c ow)] s1"
    using write_retry_view [OF _ w] by (auto simp: explains_one)
  ultimately show "exact (delta r) \<and> (\<exists>cs. changes (delta r') = changes (delta r) @ cs \<and>
      explains view (fs_state r) cs (fs_state r'))"
    using r' by blast
qed

lemma delete_explained:
  assumes "apply_delete_file fs p a r = (r', res)"
  shows "step_explained view r r'"
  unfolding step_explained_def
proof (intro impI)
  assume ex: "exact (delta r')"
  from assms ex obtain c where
    read: "read_file_text fs (fs_state r) p = Inr c" and
    ex0: "exact (delta r)" and plain: "plain_path fs (fs_state r) p"
    by (auto simp: apply_delete_file_def note_exact Let_def push_change_def
        split: sum.splits prod.splits option.splits if_splits)
  from read_view [OF plain read] have v: "view (fs_state r) p = Some c" .
  from assms ex read consider
      "fs_state r' = fs_state r" "changes (delta r') = changes (delta r)"
    | e where "remove fs (fs_state r) p False False = (fs_state r', Inl e)"
        "changes (delta r') = changes (delta r)"
        "remove_failure_was_side_effect_free fs (fs_state r') p (Some c)"
    | "remove fs (fs_state r) p False False = (fs_state r', Inr ())"
        "changes (delta r') = changes (delta r) @ [(p, ChangeDelete c)]"
    by (auto simp: apply_delete_file_def Let_def push_change_def remove_plain_def split: sum.splits prod.splits)
  then have "\<exists>cs. changes (delta r') = changes (delta r) @ cs \<and> explains view (fs_state r) cs (fs_state r')"
  proof cases
    case 1
    then show ?thesis by (auto intro: explains_Nil)
  next
    case 2
    then show ?thesis using side_effect_free [OF plain 2(1,3)] by (auto intro: explains_Nil)
  next
    case 3
    have "explains view (fs_state r) [(p, ChangeDelete c)] (fs_state r')"
      using remove_view [OF plain 3(1)] v by (auto simp: explains_one)
    with 3 show ?thesis by blast
  qed
  with ex0 show "exact (delta r) \<and> (\<exists>cs. changes (delta r') = changes (delta r) @ cs \<and>
      explains view (fs_state r) cs (fs_state r'))" by blast
qed

text \<open>
  A rename: from files \<open>m\<close> the destination has been written and recorded as the last
  change; removing the original turns that change into the whole rename.
\<close>

lemma rename_explained:
  assumes "remove_original fs p d a original ow c r = (r', res)"
    and "changes (delta r) = cs0 @ [(d, ChangeAdd c ow)]"
    and "view (fs_state r) = m(d \<mapsto> c)" and "m d = ow" and "m p = Some original"
    and "exact (delta r) \<longrightarrow> plain_path fs (fs_state r) p"
    and "exact (delta r')"
  shows "exact (delta r) \<and> (\<exists>ch. changes (delta r') = cs0 @ [ch] \<and>
    replay_change ch m = view (fs_state r') \<and> undo_change ch (view (fs_state r')) = m)"
proof -
  have ex0: "exact (delta r)"
    using assms(1,7) by (auto simp: remove_original_def Let_def split: sum.splits prod.splits)
  with assms(6) have plain: "plain_path fs (fs_state r) p" by blast
  from assms(1,2,7) consider
      "fs_state r' = fs_state r" "changes (delta r') = cs0 @ [(d, ChangeAdd c ow)]"
    | e where "remove fs (fs_state r) p False False = (fs_state r', Inl e)"
        "changes (delta r') = cs0 @ [(d, ChangeAdd c ow)]"
        "remove_failure_was_side_effect_free fs (fs_state r') p (Some original)"
    | "remove fs (fs_state r) p False False = (fs_state r', Inr ())"
        "changes (delta r') = cs0 @ [(p, ChangeUpdate (Some d) original ow c)]"
    by (auto simp: remove_original_def Let_def remove_plain_def split: sum.splits prod.splits)
  then show ?thesis
  proof cases
    case 1
    with assms(3,4) ex0 show ?thesis by auto
  next
    case 2
    have "view (fs_state r') = m(d \<mapsto> c)"
      using side_effect_free [OF plain 2(1,3)] assms(3) by simp
    with 2 assms(4) ex0 show ?thesis by auto
  next
    case 3
    have v': "view (fs_state r') = m(d \<mapsto> c, p := None)"
      using remove_view [OF plain 3(1)] assms(3) by simp
    have "undo_change (p, ChangeUpdate (Some d) original ow c) (view (fs_state r')) = m"
      using v' assms(4,5) by (auto simp: fun_eq_iff)
    moreover have "replay_change (p, ChangeUpdate (Some d) original ow c) m = view (fs_state r')"
      using v' by simp
    ultimately show ?thesis using 3(2) ex0 by blast
  qed
qed

lemma update_explained:
  assumes "apply_update_file fs paths cwd p a mv chunks r0 = (r', res)"
  shows "step_explained view r0 r'"
  unfolding step_explained_def
proof (intro impI)
  assume ex: "exact (delta r')"
  define s where "s = fs_state r0"
  define ex1 where "ex1 = note_existing_path_delta_support fs s p (exact (delta r0))"
  define r where "r = r0\<lparr>delta := (delta r0)\<lparr>exact := ex1\<rparr>\<rparr>"
  let ?goal = "exact (delta r0) \<and> (\<exists>cs. changes (delta r') = changes (delta r0) @ cs \<and>
      explains view s cs (fs_state r'))"
  have "?goal"
  proof (cases "derive_new_contents_from_chunks fs s p chunks")
    case (Inl e)
    with assms ex have "r' = r" "ex1"
      by (auto simp: apply_update_file_def Let_def s_def ex1_def r_def)
    then show ?thesis by (auto simp: r_def s_def ex1_def note_exact intro: explains_Nil)
  next
    case (Inr oc)
    obtain original c where oc: "oc = (original, c)" by (cases oc)
    have read: "read_file_text fs s p = Inr original"
      using Inr oc by (auto simp: derive_new_contents_from_chunks_def split: sum.splits option.splits)
    show ?thesis
    proof (cases mv)
      case None
      with assms ex Inr oc have ex1: ex1 and w: "write_file fs s p c = (fs_state r', Inr ())"
        and ch: "changes (delta r') = changes (delta r0) @ [(p, ChangeUpdate None original None c)]"
        by (auto simp: apply_update_file_def Let_def s_def ex1_def push_change_def split: sum.splits prod.splits)
      from ex1 have plain: "plain_path fs s p" and ex0: "exact (delta r0)"
        by (auto simp: ex1_def note_exact)
      have "explains view s [(p, ChangeUpdate None original None c)] (fs_state r')"
        using write_view [OF plain w] read_view [OF plain read] by (auto simp: explains_one)
      with ch ex0 show ?thesis by blast
    next
      case (Some dest)
      let ?d = "resolve_path_against_base paths dest cwd"
      obtain ow ex2 where ro: "read_optional_file_text_for_delta fs s ?d ex1 = (ow, ex2)" by fastforce
      from assms ex Inr oc Some ro obtain s1 u where
        w: "write_file_with_missing_parent_retry fs paths s ?d c = (s1, Inr u)" and
        rm: "remove_original fs p ?d a original ow c
          (r\<lparr>fs_state := s1, delta := push_change ?d (ChangeAdd c ow) ((delta r)\<lparr>exact := ex2\<rparr>)\<rparr>) = (r', res)"
        by (auto simp: apply_update_file_def Let_def s_def ex1_def r_def split: sum.splits prod.splits)
      have "ex2" using rm ex by (auto simp: remove_original_def push_change_def Let_def split: sum.splits prod.splits)
      with ro have d: "ex1" "plain_path fs s ?d" "view s ?d = ow"
        by (auto dest: read_optional_exact)
      then have p: "plain_path fs s p" "exact (delta r0)" by (auto simp: ex1_def note_exact)
      note v = write_retry_view [OF d(2) w] and orig = read_view [OF p(1) read]
      from rename_explained [OF rm, of "changes (delta r0)" "view s"] v d(3) orig p(1) ex obtain ch where
        "changes (delta r') = changes (delta r0) @ [ch]" "explains view s [ch] (fs_state r')"
        by (auto simp: push_change_def r_def explains_one)
      with p(2) show ?thesis by blast
    qed
  qed
  then show "exact (delta r0) \<and> (\<exists>cs. changes (delta r') = changes (delta r0) @ cs \<and>
      explains view (fs_state r0) cs (fs_state r'))" by (simp add: s_def)
qed

lemma hunk_explained: "apply_hunk fs paths cwd h r = (r', res) \<Longrightarrow> step_explained view r r'"
  by (cases h) (auto simp: apply_hunk_def Let_def intro: add_explained delete_explained update_explained)

lemma hunks_explained: "apply_hunk_list fs paths cwd hs r = (r', res) \<Longrightarrow> step_explained view r r'"
proof (induction hs arbitrary: r)
  case (Cons h hs)
  then show ?case
    by (auto intro: hunk_explained step_explained_trans split: prod.splits sum.splits)
qed (auto intro: step_explained_refl)

lemma exact_delta_explains:
  assumes "apply_hunks_to_files fs paths cwd hs s empty_delta = (s', d', res)" and "exact d'"
  shows "replay (changes d') (view s) = view s' \<and> undo (changes d') (view s') = view s"
proof (cases "hs = []")
  case True
  with assms show ?thesis by (auto simp: apply_hunks_to_files_def empty_delta_def replay_def undo_def)
next
  case False
  let ?r = "\<lparr>fs_state = s, delta = empty_delta, affected = no_affected_paths\<rparr>"
  obtain r' res' where run: "apply_hunk_list fs paths cwd hs ?r = (r', res')" by fastforce
  with False assms have "s' = fs_state r'" "d' = delta r'"
    by (auto simp: apply_hunks_to_files_def split: sum.splits)
  with hunks_explained [OF run] assms(2) show ?thesis
    by (auto simp: step_explained_def explains_def empty_delta_def)
qed

text \<open>Moving a file onto itself deletes it.\<close>

lemma self_move_deletes:
  assumes "resolve_path_against_base paths dest cwd = resolve_path_against_base paths p cwd"
    and "apply_hunks_to_files fs paths cwd [UpdateFile p (Some dest) chunks] s empty_delta = (s', d', Inr a)"
    and "exact d'"
  shows "view s' (resolve_path_against_base paths p cwd) = None"
proof -
  have "\<exists>original ow c. changes d' = [(resolve_path_against_base paths p cwd,
      ChangeUpdate (Some (resolve_path_against_base paths p cwd)) original ow c)]"
    using assms(1,2)
    by (auto simp: apply_hunks_to_files_def apply_hunk_def resolve_path_def apply_update_file_def
        remove_original_def push_change_def empty_delta_def Let_def split: sum.splits prod.splits)
  with exact_delta_explains [OF assms(2,3)] show ?thesis
    by (auto simp: replay_def fun_eq_iff split: if_splits)
qed

end

end
