(* ===== verification/Rust_Utf8.thy ===== *)
theory Rust_Utf8
  imports Rust_Prelude
begin

section \<open>std::str::from\_utf8\<close>

text \<open>
  The validation of UTF-8 by the Rust standard library, with what its error reports: how
  many bytes are valid, and how long the invalid sequence is (\<open>None\<close> when the input ends
  inside a sequence that may still become valid).
\<close>

definition byte :: "char \<Rightarrow> nat" where
  "byte c = of_char c"

definition is_continuation :: "char \<Rightarrow> bool" where
  "is_continuation c \<longleftrightarrow> digit7 c \<and> \<not> digit6 c"

definition is_char_boundary :: "string \<Rightarrow> nat \<Rightarrow> bool" where
  "is_char_boundary s k \<longleftrightarrow> k = 0 \<or> k = length s \<or> (k < length s \<and> \<not> is_continuation (s ! k))"

text \<open>The second byte a first byte of a long sequence allows.\<close>

definition second_ok :: "nat \<Rightarrow> char \<Rightarrow> bool" where
  "second_ok first c \<longleftrightarrow>
     (if first = 0xE0 then 0xA0 \<le> byte c \<and> byte c \<le> 0xBF
      else if first = 0xED then 0x80 \<le> byte c \<and> byte c \<le> 0x9F
      else if first = 0xF0 then 0x90 \<le> byte c \<and> byte c \<le> 0xBF
      else if first = 0xF4 then 0x80 \<le> byte c \<and> byte c \<le> 0x8F
      else is_continuation c)"

text \<open>The number of bytes after the first one, \<open>None\<close> for a byte that starts no sequence.\<close>

definition trailing_len :: "nat \<Rightarrow> nat option" where
  "trailing_len b =
     (if b < 0x80 then Some 0
      else if 0xC2 \<le> b \<and> b \<le> 0xDF then Some 1
      else if 0xE0 \<le> b \<and> b \<le> 0xEF then Some 2
      else if 0xF0 \<le> b \<and> b \<le> 0xF4 then Some 3
      else None)"

text \<open>Checking \<open>n\<close> more bytes; \<open>k\<close> bytes of the sequence have been seen.\<close>

fun check_trailing :: "nat \<Rightarrow> nat \<Rightarrow> nat \<Rightarrow> string \<Rightarrow> nat option + unit" where
  "check_trailing first k 0 bs = Inr ()"
| "check_trailing first k (Suc n) [] = Inl None"
| "check_trailing first k (Suc n) (b # bs) =
     (if (if k = 1 then second_ok first b else is_continuation b)
      then check_trailing first (Suc k) n bs
      else Inl (Some k))"

text \<open>The first sequence of a string: its length, or the \<open>error_len\<close>.\<close>

definition first_sequence :: "char \<Rightarrow> string \<Rightarrow> nat option + nat" where
  "first_sequence b bs =
     (case trailing_len (byte b) of
        None \<Rightarrow> Inl (Some 1)
      | Some n \<Rightarrow>
          (case check_trailing (byte b) 1 n bs of Inl e \<Rightarrow> Inl e | Inr _ \<Rightarrow> Inr (Suc n)))"

function utf8_scan :: "nat \<Rightarrow> string \<Rightarrow> (nat \<times> nat option) + unit" where
  "utf8_scan i [] = Inr ()"
| "utf8_scan i (b # bs) =
     (case first_sequence b bs of
        Inl error_len \<Rightarrow> Inl (i, error_len)
      | Inr n \<Rightarrow> utf8_scan (i + n) (drop (n - 1) bs))"
  by pat_completeness auto
termination
  by (relation "measure (\<lambda>(_, s). length s)") auto

text \<open>\<open>Inl (valid_up_to, error_len)\<close> is the \<open>Utf8Error\<close>.\<close>

definition from_utf8 :: "string \<Rightarrow> (nat \<times> nat option) + string" where
  "from_utf8 s = (case utf8_scan 0 s of Inl e \<Rightarrow> Inl e | Inr _ \<Rightarrow> Inr s)"

subsection \<open>Facts about the scan\<close>

lemma utf8_scan_shift:
  "utf8_scan (i + k) s = map_sum (apfst ((+) k)) id (utf8_scan i s)"
proof (induction i s rule: utf8_scan.induct)
  case (2 i b bs)
  then show ?case
    by (auto simp: add.commute add.left_commute split: sum.splits)
qed simp

lemma check_trailing_prefix:
  "check_trailing f k n bs = Inr u \<Longrightarrow> n \<le> length bs \<and> check_trailing f k n (bs @ cs) = Inr ()
     \<and> check_trailing f k n (take n bs) = Inr ()"
  by (induction f k n bs rule: check_trailing.induct) (auto split: if_splits)

lemma check_trailing_error:
  "check_trailing f k n bs = Inl (Some e) \<Longrightarrow> check_trailing f k n (bs @ cs) = Inl (Some e)"
  by (induction f k n bs rule: check_trailing.induct) (auto split: if_splits)

lemma check_trailing_short: "check_trailing f k n bs = Inl None \<Longrightarrow> length bs < n"
  by (induction f k n bs rule: check_trailing.induct) (auto split: if_splits)

lemma first_sequence_ok:
  assumes "first_sequence b bs = Inr n"
  shows "0 < n \<and> n \<le> Suc (length bs) \<and> first_sequence b (bs @ cs) = Inr n
    \<and> first_sequence b (take (n - 1) bs) = Inr n"
  using assms check_trailing_prefix [of "byte b" 1 "n - 1" bs _ cs]
  by (auto simp: first_sequence_def split: option.splits sum.splits)

lemma first_sequence_bad:
  "first_sequence b bs = Inl (Some e) \<Longrightarrow> first_sequence b (bs @ cs) = Inl (Some e)"
  using check_trailing_error [of "byte b" 1 _ bs e cs]
  by (auto simp: first_sequence_def split: option.splits sum.splits)

text \<open>
  Scanning a concatenation: a valid first part is passed over; an error that no further
  byte can repair is the error of the whole; an unfinished sequence is taken up again.
\<close>

lemma utf8_scan_append:
  "utf8_scan i (s @ t) =
     (case utf8_scan i s of
        Inr _ \<Rightarrow> utf8_scan (i + length s) t
      | Inl (v, Some e) \<Rightarrow> Inl (v, Some e)
      | Inl (v, None) \<Rightarrow> utf8_scan v (drop (v - i) s @ t))"
proof (induction i s rule: utf8_scan.induct)
  case (2 i b bs)
  show ?case
  proof (cases "first_sequence b bs")
    case (Inl e)
    then show ?thesis
      using first_sequence_bad [of b bs _ t] by (cases e) (auto simp del: utf8_scan.simps(2), auto)
  next
    case (Inr n)
    note n = first_sequence_ok [OF Inr, of t]
    have ge: "i + n \<le> v" if "utf8_scan (i + n) (drop (n - 1) bs) = Inl (v, e)" for v e
    proof -
      have "utf8_scan (0 + (i + n)) (drop (n - 1) bs) = Inl (v, e)" using that by simp
      then show ?thesis unfolding utf8_scan_shift by (cases "utf8_scan 0 (drop (n - 1) bs)") auto
    qed
    have "drop (v - (i + n)) (drop (n - 1) bs) = drop (v - i) (b # bs)" if "i + n \<le> v" for v
    proof -
      from that n obtain m where "v - i = Suc m" "v - (i + n) + (n - 1) = m"
        by (cases "v - i") auto
      then show ?thesis by simp
    qed
    with "2.IH" [OF Inr] Inr n ge show ?thesis
      by (auto split: sum.splits option.splits prod.splits)
  qed
qed simp

lemma utf8_scan_error_bounds:
  "utf8_scan i s = Inl (v, e) \<Longrightarrow> i \<le> v \<and> v - i < length s \<and> utf8_scan i (take (v - i) s) = Inr ()"
proof (induction i s rule: utf8_scan.induct)
  case (2 i b bs)
  show ?case
  proof (cases "first_sequence b bs")
    case (Inr n)
    note n = first_sequence_ok [OF Inr, of "[]"]
    from 2 Inr have IH: "i + n \<le> v" "v - (i + n) < length (drop (n - 1) bs)"
      "utf8_scan (i + n) (take (v - (i + n)) (drop (n - 1) bs)) = Inr ()" by auto
    obtain m where m: "v - i = Suc m" "m = (n - 1) + (v - (i + n))"
      using IH(1) n by (cases "v - i") auto
    have "take m bs = take (n - 1) bs @ take (v - (i + n)) (drop (n - 1) bs)"
      unfolding m(2) by (rule take_add)
    moreover have "first_sequence b (take (n - 1) bs @ x) = Inr n" for x
      using first_sequence_ok [of b "take (n - 1) bs" n x] n by blast
    moreover have "length (take (n - 1) bs) = n - 1"
    proof -
      from n have "n \<le> Suc (length bs)" by blast
      then show ?thesis by simp
    qed
    ultimately show ?thesis using m IH n by auto
  qed (use 2 in auto)
qed simp

lemma from_utf8_error:
  assumes "from_utf8 s = Inl (v, e)"
  shows "v < length s \<and> from_utf8 (take v s) = Inr (take v s)"
  using assms utf8_scan_error_bounds [of 0 s v e]
  by (auto simp: from_utf8_def split: sum.splits)

lemma from_utf8_append:
  assumes "from_utf8 s = Inr s'"
  shows "from_utf8 (s @ t) = map_sum (apfst ((+) (length s))) (\<lambda>u. s @ u) (from_utf8 t)"
proof -
  have "utf8_scan 0 s = Inr ()"
    using assms by (auto simp: from_utf8_def split: sum.splits)
  then have "utf8_scan 0 (s @ t) = map_sum (apfst ((+) (length s))) id (utf8_scan 0 t)"
    using utf8_scan_append [of 0 s t] utf8_scan_shift [of 0 "length s" t] by simp
  then show ?thesis by (cases "utf8_scan 0 t") (auto simp: from_utf8_def)
qed

end
