(* ===== verification/Direct_Fs.thy ===== *)
theory Direct_Fs
  imports Patch_Files Rust_Utf8
begin

section \<open>The direct file system\<close>

text \<open>
  \<open>DirectFileSystem\<close> of \<open>codex-rs/exec-server/src/local_file_system.rs\<close>, the provider of the
  file system interface the patch code runs on. \<open>tokio::fs\<close> is not code of the repository:
  it is the record \<open>os_ops\<close>, a parameter, and the locale \<open>os_files\<close> states what its
  documentation promises of it. From these promises the operations of \<open>DirectFileSystem\<close>
  keep the laws of \<open>text_fs\<close>.
\<close>

subsection \<open>The operations\<close>

record os_metadata =
  os_is_dir :: bool
  os_is_file :: bool
  os_is_symlink :: bool
  os_len :: int
  os_created :: "int option"
  os_modified :: "int option"

record 's os_ops =
  tokio_metadata :: "'s \<Rightarrow> string \<Rightarrow> io_error + os_metadata"
  tokio_symlink_metadata :: "'s \<Rightarrow> string \<Rightarrow> io_error + os_metadata"
  tokio_read :: "'s \<Rightarrow> string \<Rightarrow> io_error + string"
  tokio_write :: "'s \<Rightarrow> string \<Rightarrow> string \<Rightarrow> 's \<times> (io_error + unit)"
  tokio_create_dir :: "'s \<Rightarrow> string \<Rightarrow> 's \<times> (io_error + unit)"
  tokio_create_dir_all :: "'s \<Rightarrow> string \<Rightarrow> 's \<times> (io_error + unit)"
  tokio_remove_dir :: "'s \<Rightarrow> string \<Rightarrow> 's \<times> (io_error + unit)"
  tokio_remove_dir_all :: "'s \<Rightarrow> string \<Rightarrow> 's \<times> (io_error + unit)"
  tokio_remove_file :: "'s \<Rightarrow> string \<Rightarrow> 's \<times> (io_error + unit)"

definition MAX_READ_FILE_BYTES :: int where
  "MAX_READ_FILE_BYTES = 512 * 1024 * 1024"

definition reject_sandbox_context :: "'c option \<Rightarrow> io_error + unit" where
  "reject_sandbox_context sandbox =
     (if sandbox \<noteq> None
      then Inl (IoError InvalidInput ''direct filesystem operations do not accept sandbox context'')
      else Inr ())"

definition direct_read_file :: "'s os_ops \<Rightarrow> 'c option \<Rightarrow> 's \<Rightarrow> string \<Rightarrow> io_error + string" where
  "direct_read_file os sandbox s path =
     (case reject_sandbox_context sandbox of
        Inl e \<Rightarrow> Inl e
      | Inr _ \<Rightarrow>
          (case tokio_metadata os s path of
             Inl e \<Rightarrow> Inl e
           | Inr metadata \<Rightarrow>
               if MAX_READ_FILE_BYTES < os_len metadata
               then Inl (IoError InvalidInput ''file is too large to read: limit is 536870912 bytes'')
               else tokio_read os s path))"

text \<open>The trait's own \<open>read_file_text\<close> (\<open>codex-rs/file-system/src/lib.rs\<close>).\<close>

definition direct_read_file_text :: "'s os_ops \<Rightarrow> 'c option \<Rightarrow> 's \<Rightarrow> string \<Rightarrow> io_error + string" where
  "direct_read_file_text os sandbox s path =
     (case direct_read_file os sandbox s path of
        Inl e \<Rightarrow> Inl e
      | Inr bytes \<Rightarrow>
          (case from_utf8 bytes of
             Inl _ \<Rightarrow> Inl (IoError ''InvalidData'' ''invalid utf-8 sequence'')
           | Inr text \<Rightarrow> Inr text))"

definition direct_write_file ::
    "'s os_ops \<Rightarrow> 'c option \<Rightarrow> 's \<Rightarrow> string \<Rightarrow> string \<Rightarrow> 's \<times> (io_error + unit)" where
  "direct_write_file os sandbox s path contents =
     (case reject_sandbox_context sandbox of
        Inl e \<Rightarrow> (s, Inl e)
      | Inr _ \<Rightarrow> tokio_write os s path contents)"

definition direct_create_directory ::
    "'s os_ops \<Rightarrow> 'c option \<Rightarrow> 's \<Rightarrow> string \<Rightarrow> bool \<Rightarrow> 's \<times> (io_error + unit)" where
  "direct_create_directory os sandbox s path recursive =
     (case reject_sandbox_context sandbox of
        Inl e \<Rightarrow> (s, Inl e)
      | Inr _ \<Rightarrow>
          if recursive then tokio_create_dir_all os s path else tokio_create_dir os s path)"

definition direct_get_metadata ::
    "'s os_ops \<Rightarrow> 'c option \<Rightarrow> 's \<Rightarrow> string \<Rightarrow> io_error + file_metadata" where
  "direct_get_metadata os sandbox s path =
     (case reject_sandbox_context sandbox of
        Inl e \<Rightarrow> Inl e
      | Inr _ \<Rightarrow>
          (case tokio_metadata os s path of
             Inl e \<Rightarrow> Inl e
           | Inr metadata \<Rightarrow>
               (case tokio_symlink_metadata os s path of
                  Inl e \<Rightarrow> Inl e
                | Inr symlink_metadata \<Rightarrow>
                    Inr \<lparr>is_directory = os_is_dir metadata, is_file = os_is_file metadata,
                         is_symlink = os_is_symlink symlink_metadata,
                         created_at_ms = (case os_created metadata of None \<Rightarrow> 0 | Some t \<Rightarrow> t),
                         modified_at_ms = (case os_modified metadata of None \<Rightarrow> 0 | Some t \<Rightarrow> t)\<rparr>)))"

definition direct_remove ::
    "'s os_ops \<Rightarrow> 'c option \<Rightarrow> 's \<Rightarrow> string \<Rightarrow> bool \<Rightarrow> bool \<Rightarrow> 's \<times> (io_error + unit)" where
  "direct_remove os sandbox s path recursive force =
     (case reject_sandbox_context sandbox of
        Inl e \<Rightarrow> (s, Inl e)
      | Inr _ \<Rightarrow>
          (case tokio_symlink_metadata os s path of
             Inr metadata \<Rightarrow>
               if os_is_dir metadata
               then (if recursive then tokio_remove_dir_all os s path else tokio_remove_dir os s path)
               else tokio_remove_file os s path
           | Inl err \<Rightarrow>
               if error_kind err = NotFound \<and> force then (s, Inr ()) else (s, Inl err)))"

text \<open>The trait object the patch code gets, for calls without a sandbox.\<close>

definition direct_fs :: "'s os_ops \<Rightarrow> 's executor_fs" where
  "direct_fs os =
     \<lparr>read_file_text = direct_read_file_text os (None :: unit option),
      write_file = direct_write_file os (None :: unit option),
      create_directory = direct_create_directory os (None :: unit option),
      get_metadata = direct_get_metadata os (None :: unit option),
      remove = direct_remove os (None :: unit option)\<rparr>"

lemma reject_None [simp]: "reject_sandbox_context None = Inr ()"
  by (simp add: reject_sandbox_context_def)

lemma direct_fs_simps [simp]:
  "read_file_text (direct_fs os) = direct_read_file_text os (None :: unit option)"
  "write_file (direct_fs os) s p c = tokio_write os s p c"
  "create_directory (direct_fs os) s d True = tokio_create_dir_all os s d"
  "get_metadata (direct_fs os) = direct_get_metadata os (None :: unit option)"
  "remove (direct_fs os) = direct_remove os (None :: unit option)"
  by (simp_all add: direct_fs_def direct_write_file_def direct_create_directory_def)

subsection \<open>What the operating system promises\<close>

text \<open>
  A regular file, not reached through a link; and a path where nothing is. Both calls for
  metadata agree on a path that is no link.
\<close>

definition os_regular :: "'s os_ops \<Rightarrow> 's \<Rightarrow> string \<Rightarrow> bool" where
  "os_regular os s p \<longleftrightarrow>
     (\<exists>m l. tokio_metadata os s p = Inr m \<and> tokio_symlink_metadata os s p = Inr l \<and>
            os_is_file m \<and> \<not> os_is_symlink l)"

definition os_absent :: "'s os_ops \<Rightarrow> 's \<Rightarrow> string \<Rightarrow> bool" where
  "os_absent os s p \<longleftrightarrow>
     (\<exists>e. error_kind e = NotFound \<and>
        (tokio_metadata os s p = Inl e \<or>
         (\<exists>m. tokio_metadata os s p = Inr m \<and> tokio_symlink_metadata os s p = Inl e)))"

definition os_plain :: "'s os_ops \<Rightarrow> 's \<Rightarrow> string \<Rightarrow> bool" where
  "os_plain os s p \<longleftrightarrow> os_regular os s p \<or> os_absent os s p"

lemma plain_direct_fs: "plain_path (direct_fs os) s p = os_plain os s p"
  by (auto simp: plain_path_def os_plain_def os_regular_def os_absent_def direct_get_metadata_def
      split: sum.splits)

locale os_files =
  fixes os :: "'s os_ops" and paths :: path_ops and view :: "'s \<Rightarrow> files"
  assumes os_read:
      "os_plain os s p \<Longrightarrow> tokio_read os s p = Inr c \<Longrightarrow> view s p = Some c"
    and os_missing:
      "os_plain os s p \<Longrightarrow> tokio_metadata os s p = Inl e \<or> tokio_read os s p = Inl e
        \<Longrightarrow> error_kind e = NotFound \<Longrightarrow> view s p = None"
    and os_write:
      "os_plain os s p \<Longrightarrow> tokio_write os s p c = (s', Inr ()) \<Longrightarrow>
        view s' = (view s)(p \<mapsto> c) \<and> (\<forall>q. os_plain os s q \<longrightarrow> os_plain os s' q)"
    and os_write_missing:
      "tokio_write os s p c = (s', Inl e) \<Longrightarrow> error_kind e = NotFound \<Longrightarrow> s' = s"
    and os_create:
      "tokio_create_dir_all os s d = (s', Inr ()) \<Longrightarrow>
        view s' = view s \<and>
        (\<forall>p. os_plain os s p \<longrightarrow> view s p \<noteq> None \<or> path_parent paths p = Some d \<longrightarrow> os_plain os s' p)"
    and os_regular_no_dir:
      "os_plain os s p \<Longrightarrow> tokio_symlink_metadata os s p = Inr l \<Longrightarrow> \<not> os_is_dir l"
    and os_remove_file:
      "os_plain os s p \<Longrightarrow> tokio_remove_file os s p = (s', Inr ()) \<Longrightarrow> view s' = (view s)(p := None)"
    and os_remove_failed:
      "os_plain os s p \<Longrightarrow> tokio_remove_file os s p = (s', Inl e) \<Longrightarrow>
        os_plain os s' p \<and> (view s' = view s \<or> view s' = (view s)(p := None))"
begin

lemma direct_read_cases:
  "direct_read_file_text os None s p = Inr c \<Longrightarrow> tokio_read os s p = Inr c"
  "direct_read_file_text os None s p = Inl e \<Longrightarrow> error_kind e = NotFound \<Longrightarrow>
     tokio_metadata os s p = Inl e \<or> tokio_read os s p = Inl e"
  by (auto simp: direct_read_file_text_def direct_read_file_def from_utf8_def InvalidInput_def NotFound_def
      split: sum.splits if_splits)

lemma direct_remove_ok:
  assumes "os_plain os s p" and "direct_remove os None s p False False = (s', Inr ())"
  shows "view s' = (view s)(p := None)"
  using assms os_regular_no_dir os_remove_file
  by (auto simp: direct_remove_def split: sum.splits if_splits)

lemma direct_remove_failed:
  assumes "os_plain os s p" and "direct_remove os None s p False False = (s', Inl e)"
  shows "os_plain os s' p \<and> (view s' = view s \<or> view s' = (view s)(p := None))"
  using assms os_regular_no_dir os_remove_failed
  by (auto simp: direct_remove_def split: sum.splits if_splits)

end

sublocale os_files \<subseteq> text_fs "direct_fs os" paths view
  by unfold_locales
     (auto simp: plain_direct_fs dest: os_read os_missing os_write os_write_missing os_create
        direct_remove_ok direct_remove_failed direct_read_cases)

context os_files
begin

lemma text_fs_direct: "text_fs (direct_fs os) paths view"
  by unfold_locales

end

subsection \<open>An operating system in memory\<close>

text \<open>
  A disk of files and directories keeps these promises. It stands for \<open>tokio::fs\<close> where a
  theorem is evaluated on a concrete input.
\<close>

datatype node = FileNode string | DirNode

type_synonym disk = "string \<rightharpoonup> node"

definition disk_files :: "disk \<Rightarrow> files" where
  "disk_files s p = (case s p of Some (FileNode c) \<Rightarrow> Some c | _ \<Rightarrow> None)"

definition disk_parent :: "string \<Rightarrow> string option" where
  "disk_parent p =
     (case dropWhile (\<lambda>c. c \<noteq> CHR ''/'') (rev p) of
        [] \<Rightarrow> None
      | _ # r \<Rightarrow> if r = [] then None else Some (rev r))"

definition ancestors :: "string \<Rightarrow> string list" where
  "ancestors d = map (\<lambda>n. take n d) (filter (\<lambda>n. n = length d \<or> d ! n = CHR ''/'') [1 ..< Suc (length d)])"

definition disk_missing :: io_error where
  "disk_missing = IoError NotFound ''No such file or directory (os error 2)''"

definition disk_metadata :: "disk \<Rightarrow> string \<Rightarrow> io_error + os_metadata" where
  "disk_metadata s p =
     (case s p of
        None \<Rightarrow> Inl disk_missing
      | Some (FileNode c) \<Rightarrow>
          Inr \<lparr>os_is_dir = False, os_is_file = True, os_is_symlink = False, os_len = int (length c),
               os_created = None, os_modified = None\<rparr>
      | Some DirNode \<Rightarrow>
          Inr \<lparr>os_is_dir = True, os_is_file = False, os_is_symlink = False, os_len = 0,
               os_created = None, os_modified = None\<rparr>)"

definition disk_read :: "disk \<Rightarrow> string \<Rightarrow> io_error + string" where
  "disk_read s p =
     (case s p of
        None \<Rightarrow> Inl disk_missing
      | Some (FileNode c) \<Rightarrow> Inr c
      | Some DirNode \<Rightarrow> Inl (IoError ''IsADirectory'' ''Is a directory (os error 21)''))"

definition disk_write :: "disk \<Rightarrow> string \<Rightarrow> string \<Rightarrow> disk \<times> (io_error + unit)" where
  "disk_write s p c =
     (if s p = Some DirNode then (s, Inl (IoError ''IsADirectory'' ''Is a directory (os error 21)''))
      else (case disk_parent p of
              Some d \<Rightarrow> if s d = Some DirNode then (s(p \<mapsto> FileNode c), Inr ()) else (s, Inl disk_missing)
            | None \<Rightarrow> (s(p \<mapsto> FileNode c), Inr ())))"

definition disk_create_dir_all :: "disk \<Rightarrow> string \<Rightarrow> disk \<times> (io_error + unit)" where
  "disk_create_dir_all s d =
     (if \<exists>a \<in> set (ancestors d). s a \<noteq> None \<and> s a \<noteq> Some DirNode
      then (s, Inl (IoError ''NotADirectory'' ''Not a directory (os error 20)''))
      else (fold (\<lambda>a s. s(a \<mapsto> DirNode)) (ancestors d) s, Inr ()))"

definition disk_remove_file :: "disk \<Rightarrow> string \<Rightarrow> disk \<times> (io_error + unit)" where
  "disk_remove_file s p =
     (case s p of
        None \<Rightarrow> (s, Inl disk_missing)
      | Some (FileNode c) \<Rightarrow> (s(p := None), Inr ())
      | Some DirNode \<Rightarrow> (s, Inl (IoError ''IsADirectory'' ''Is a directory (os error 21)'')))"

definition disk_unsupported :: "disk \<Rightarrow> string \<Rightarrow> disk \<times> (io_error + unit)" where
  "disk_unsupported s p = (s, Inl (IoError ''Unsupported'' ''operation not supported''))"

definition disk_os :: "disk os_ops" where
  "disk_os =
     \<lparr>tokio_metadata = disk_metadata, tokio_symlink_metadata = disk_metadata, tokio_read = disk_read,
      tokio_write = disk_write, tokio_create_dir = disk_unsupported,
      tokio_create_dir_all = disk_create_dir_all, tokio_remove_dir = disk_unsupported,
      tokio_remove_dir_all = disk_unsupported, tokio_remove_file = disk_remove_file\<rparr>"

text \<open>Paths are joined by a slash; an absolute path replaces the base.\<close>

definition disk_paths :: path_ops where
  "disk_paths =
     \<lparr>resolve_path_against_base =
        (\<lambda>p base. if starts_with p ''/'' then p else base @ ''/'' @ p),
      path_parent = disk_parent\<rparr>"

lemma disk_plain: "os_plain disk_os s p \<longleftrightarrow> s p \<noteq> Some DirNode"
  by (auto simp: os_plain_def os_regular_def os_absent_def disk_os_def disk_metadata_def disk_missing_def
      split: option.splits node.splits)

lemma disk_parent_shorter: "disk_parent p = Some d \<Longrightarrow> length d < length p"
  using length_dropWhile_le [of "\<lambda>c. c \<noteq> CHR ''/''" "rev p"]
  by (auto simp: disk_parent_def split: list.splits if_splits)

lemma ancestors_shorter: "a \<in> set (ancestors d) \<Longrightarrow> length a \<le> length d"
  by (auto simp: ancestors_def)

lemma fold_dirs: "fold (\<lambda>a s. s(a \<mapsto> DirNode)) as s q = (if q \<in> set as then Some DirNode else s q)"
  by (induction as arbitrary: s) auto

lemma disk_os_simps [simp]:
  "tokio_metadata disk_os = disk_metadata"
  "tokio_symlink_metadata disk_os = disk_metadata"
  "tokio_read disk_os = disk_read"
  "tokio_write disk_os = disk_write"
  "tokio_create_dir_all disk_os = disk_create_dir_all"
  "tokio_remove_file disk_os = disk_remove_file"
  "path_parent disk_paths = disk_parent"
  by (simp_all add: disk_os_def disk_paths_def)

lemma disk_read_view:
  "disk_read s p = Inr c \<Longrightarrow> disk_files s p = Some c"
  "disk_metadata s p = Inl e \<Longrightarrow> disk_files s p = None"
  "disk_read s p = Inl e \<Longrightarrow> disk_files s p = None"
  by (auto simp: disk_read_def disk_metadata_def disk_files_def split: option.splits node.splits)

lemma disk_write_cases:
  assumes "disk_write s p c = (s', r)"
  shows "(r = Inr () \<and> s' = s(p \<mapsto> FileNode c)) \<or> (\<exists>e. r = Inl e \<and> s' = s)"
  using assms by (auto simp: disk_write_def split: if_splits option.splits)

lemma disk_files_upd:
  "disk_files (s(p \<mapsto> FileNode c)) = (disk_files s)(p \<mapsto> c)"
  "disk_files (s(p := None)) = (disk_files s)(p := None)"
  by (auto simp: disk_files_def fun_eq_iff)

lemma disk_remove_cases:
  assumes "disk_remove_file s p = (s', r)"
  shows "(r = Inr () \<and> s' = s(p := None)) \<or> (\<exists>e. r = Inl e \<and> s' = s)"
  using assms by (auto simp: disk_remove_file_def split: option.splits node.splits)

lemma disk_create_view:
  assumes "disk_create_dir_all s d = (s', Inr ())"
  shows "disk_files s' = disk_files s"
    and "s p \<noteq> Some DirNode \<Longrightarrow> disk_files s p \<noteq> None \<or> disk_parent p = Some d \<Longrightarrow> s' p \<noteq> Some DirNode"
proof -
  have s': "s' = fold (\<lambda>a s. s(a \<mapsto> DirNode)) (ancestors d) s"
    and free: "\<And>a. a \<in> set (ancestors d) \<Longrightarrow> s a = None \<or> s a = Some DirNode"
    using assms by (auto simp: disk_create_dir_all_def split: if_splits)
  show "disk_files s' = disk_files s"
    using free by (force simp: s' fun_eq_iff disk_files_def fold_dirs)
  assume p: "s p \<noteq> Some DirNode" "disk_files s p \<noteq> None \<or> disk_parent p = Some d"
  have "p \<notin> set (ancestors d)"
  proof
    assume a: "p \<in> set (ancestors d)"
    with free p(1) have "disk_files s p = None" by (force simp: disk_files_def)
    with p(2) disk_parent_shorter ancestors_shorter [OF a] show False by fastforce
  qed
  with p(1) show "s' p \<noteq> Some DirNode" by (simp add: s' fold_dirs)
qed

interpretation disk: os_files disk_os disk_paths disk_files
proof (unfold_locales, goal_cases)
  case (1 s p c)
  then show ?case by (simp add: disk_read_view)
next
  case (2 s p e)
  then show ?case by (auto simp: disk_read_view)
next
  case (3 s p c s')
  then show ?case using disk_write_cases [of s p c s' "Inr ()"] by (auto simp: disk_plain disk_files_upd)
next
  case (4 s p c s' e)
  then show ?case using disk_write_cases [of s p c s' "Inl e"] by auto
next
  case (5 s d s')
  then have "disk_create_dir_all s d = (s', Inr ())" by simp
  from disk_create_view [OF this] show ?case by (simp add: disk_plain)
next
  case (6 s p l)
  then show ?case
    by (auto simp: disk_plain disk_metadata_def split: option.splits node.splits)
next
  case (7 s p s')
  then show ?case using disk_remove_cases [of s p s' "Inr ()"] by (auto simp: disk_files_upd)
next
  case (8 s p s' e)
  then show ?case using disk_remove_cases [of s p s' "Inl e"] by auto
qed

subsection \<open>Properties\<close>

lemma apply_hunks_run:
  assumes "apply_hunks fs paths out err hs cwd s w = (s', w', r)"
    and "apply_hunks_to_files fs paths cwd hs s empty_delta = (t, d, res)"
  shows "s' = t \<and> d = (case r of Inl (_, d) \<Rightarrow> d | Inr d \<Rightarrow> d)"
  using assms by (auto simp: apply_hunks_def split: sum.splits prod.splits)


definition sample_disk :: disk where
  "sample_disk =
     [''/w'' \<mapsto> DirNode, ''/w/a.txt'' \<mapsto> FileNode (file_text [''one'', ''two'']),
      ''/w/b.txt'' \<mapsto> FileNode ''old'']"

definition sample_patch :: string where
  "sample_patch = join [CHR 0x0A]
     [''*** Begin Patch'', ''*** Update File: a.txt'', ''*** Move to: d/c.txt'', ''@@'', ''-two'', ''+2'',
      ''*** Delete File: b.txt'', ''*** Update File: missing.txt'', ''@@'', ''+x'', ''*** End Patch'']"

definition sample_changes :: "(string \<times> applied_file_change) list" where
  "sample_changes =
     [(''/w/a.txt'', ChangeUpdate (Some ''/w/d/c.txt'') (file_text [''one'', ''two'']) None (file_text [''one'', ''2''])),
      (''/w/b.txt'', ChangeDelete ''old'')]"

text \<open>A writer that keeps what is written.\<close>

definition to_string :: "string writer" where
  "to_string l w = (w @ l, Inr ())"


end
