(* ===== verification/Text_Stream.thy ===== *)
theory Text_Stream
  imports Rust_Utf8
begin

section \<open>Streamed text\<close>

text \<open>
  \<open>codex-rs/utils/stream-parser/src/stream_text.rs\<close> and \<open>utf8_stream.rs\<close>: the trait
  \<open>StreamTextParser\<close>, whose parsers eat text in chunks, and \<open>Utf8StreamParser\<close>, which
  feeds one from raw bytes that may be cut inside a code point. The trait is the locale
  \<open>text_stream\<close>: an implementation promises that cutting its input does not matter, and
  the wrapper's lemmas are proved from that promise alone.
\<close>

subsection \<open>Chunks and the wrapper\<close>

record 'e stream_text_chunk =
  visible_text :: string
  extracted :: "'e list"

definition default_chunk :: "'e stream_text_chunk" where
  "default_chunk = \<lparr>visible_text = [], extracted = []\<rparr>"

definition text_chunk_is_empty :: "'e stream_text_chunk \<Rightarrow> bool" where
  "text_chunk_is_empty c \<longleftrightarrow> visible_text c = [] \<and> extracted c = []"

definition append_chunk :: "'e stream_text_chunk \<Rightarrow> 'e stream_text_chunk \<Rightarrow> 'e stream_text_chunk" where
  "append_chunk c d =
     \<lparr>visible_text = visible_text c @ visible_text d, extracted = extracted c @ extracted d\<rparr>"

datatype utf8_stream_error =
    InvalidUtf8 nat nat  \<comment> \<open>valid\_up\_to, error\_len\<close>
  | IncompleteUtf8AtEof

record 'p utf8_stream_parser =
  utf8_inner :: 'p
  pending_utf8 :: string

definition new_utf8_stream_parser :: "'p \<Rightarrow> 'p utf8_stream_parser" where
  "new_utf8_stream_parser inner = \<lparr>utf8_inner = inner, pending_utf8 = []\<rparr>"

text \<open>The two methods of the trait are arguments: \<open>push_str\<close> and \<open>finish\<close> of the inner parser.\<close>

type_synonym ('p, 'e) push_fn = "'p \<Rightarrow> string \<Rightarrow> 'p \<times> 'e stream_text_chunk"
type_synonym ('p, 'e) finish_fn = "'p \<Rightarrow> 'p \<times> 'e stream_text_chunk"

definition push_bytes ::
    "('p, 'e) push_fn \<Rightarrow> 'p utf8_stream_parser \<Rightarrow> string
     \<Rightarrow> 'p utf8_stream_parser \<times> (utf8_stream_error + 'e stream_text_chunk)" where
  "push_bytes push u chunk =
     (let pending = pending_utf8 u @ chunk in
      case from_utf8 pending of
        Inr str \<Rightarrow>
          (case push (utf8_inner u) str of
             (p, out) \<Rightarrow> (\<lparr>utf8_inner = p, pending_utf8 = []\<rparr>, Inr out))
      | Inl (valid_up_to, Some error_len) \<Rightarrow> (u, Inl (InvalidUtf8 valid_up_to error_len))
      | Inl (valid_up_to, None) \<Rightarrow>
          if valid_up_to = 0 then (u\<lparr>pending_utf8 := pending\<rparr>, Inr default_chunk)
          else (case from_utf8 (take valid_up_to pending) of
                  Inl (prefix_valid, prefix_len) \<Rightarrow>
                    (u, Inl (InvalidUtf8 prefix_valid (case prefix_len of None \<Rightarrow> 0 | Some n \<Rightarrow> n)))
                | Inr str \<Rightarrow>
                    (case push (utf8_inner u) str of
                       (p, out) \<Rightarrow>
                         (\<lparr>utf8_inner = p, pending_utf8 = drop valid_up_to pending\<rparr>, Inr out))))"

text \<open>What a parser with undecoded bytes answers to \<open>finish\<close> and \<open>into_inner\<close>.\<close>

definition pending_error :: "string \<Rightarrow> utf8_stream_error option" where
  "pending_error pending =
     (if pending = [] then None
      else (case from_utf8 pending of
              Inr _ \<Rightarrow> None
            | Inl (valid_up_to, Some error_len) \<Rightarrow> Some (InvalidUtf8 valid_up_to error_len)
            | Inl (_, None) \<Rightarrow> Some IncompleteUtf8AtEof))"

definition finish_bytes ::
    "('p, 'e) push_fn \<Rightarrow> ('p, 'e) finish_fn \<Rightarrow> 'p utf8_stream_parser
     \<Rightarrow> 'p utf8_stream_parser \<times> (utf8_stream_error + 'e stream_text_chunk)" where
  "finish_bytes push fin u =
     (case pending_error (pending_utf8 u) of
        Some e \<Rightarrow> (u, Inl e)
      | None \<Rightarrow>
          (let (p, out) =
             (if pending_utf8 u = [] then (utf8_inner u, default_chunk)
              else push (utf8_inner u) (pending_utf8 u));
               (p', tail) = fin p
           in (\<lparr>utf8_inner = p', pending_utf8 = []\<rparr>, Inr (append_chunk out tail))))"

definition into_inner :: "'p utf8_stream_parser \<Rightarrow> utf8_stream_error + 'p" where
  "into_inner u =
     (case pending_error (pending_utf8 u) of Some e \<Rightarrow> Inl e | None \<Rightarrow> Inr (utf8_inner u))"

definition into_inner_lossy :: "'p utf8_stream_parser \<Rightarrow> 'p" where
  "into_inner_lossy u = utf8_inner u"

subsection \<open>Whole runs\<close>

text \<open>All text at once, and all bytes chunk by chunk up to the first error.\<close>

definition whole_text :: "('p, 'e) push_fn \<Rightarrow> ('p, 'e) finish_fn \<Rightarrow> 'p \<Rightarrow> string \<Rightarrow> 'e stream_text_chunk" where
  "whole_text push fin p str =
     (case push p str of (p', out) \<Rightarrow> append_chunk out (snd (fin p')))"

fun collect_bytes ::
    "('p, 'e) push_fn \<Rightarrow> ('p, 'e) finish_fn \<Rightarrow> 'p utf8_stream_parser \<Rightarrow> string list
     \<Rightarrow> utf8_stream_error + 'e stream_text_chunk" where
  "collect_bytes push fin u [] = snd (finish_bytes push fin u)"
| "collect_bytes push fin u (c # cs) =
     (case push_bytes push u c of
        (u', Inl e) \<Rightarrow> Inl e
      | (u', Inr out) \<Rightarrow> map_sum id (append_chunk out) (collect_bytes push fin u' cs))"

subsection \<open>Valid text\<close>

definition valid_utf8 :: "string \<Rightarrow> bool" where
  "valid_utf8 s \<longleftrightarrow> from_utf8 s = Inr s"

lemma from_utf8_Inr: "from_utf8 s = Inr t \<longleftrightarrow> valid_utf8 s \<and> t = s"
  by (auto simp: valid_utf8_def from_utf8_def split: sum.splits)

lemma valid_utf8_Nil [simp]: "valid_utf8 []"
  by (simp add: valid_utf8_def from_utf8_def)

lemma from_utf8_valid_append:
  "valid_utf8 s \<Longrightarrow> from_utf8 (s @ t) = map_sum (apfst ((+) (length s))) ((@) s) (from_utf8 t)"
  using from_utf8_append [of s s t] by (simp add: valid_utf8_def)

lemma valid_utf8_append: "valid_utf8 s \<Longrightarrow> valid_utf8 (s @ t) \<longleftrightarrow> valid_utf8 t"
  unfolding valid_utf8_def [of "s @ t"] valid_utf8_def [of t]
  using from_utf8_valid_append [of s t] by (cases "from_utf8 t") (auto simp: from_utf8_Inr)

text \<open>The bytes before an error are valid, and what is left starts with it.\<close>

lemma from_utf8_split:
  assumes "from_utf8 s = Inl (v, e)"
  shows "valid_utf8 (take v s)" "v < length s" "from_utf8 (drop v s) = Inl (0, e)"
proof -
  show v: "valid_utf8 (take v s)" and len: "v < length s"
    using from_utf8_error [OF assms] by (simp_all add: valid_utf8_def)
  show "from_utf8 (drop v s) = Inl (0, e)"
    using assms from_utf8_valid_append [OF v, of "drop v s"] len
    by (cases "from_utf8 (drop v s)") (auto simp: min_def)
qed

lemma from_utf8_hard_error:
  assumes "from_utf8 s = Inl (v, Some e)"
  shows "from_utf8 (s @ t) = Inl (v, Some e)"
proof -
  have "utf8_scan 0 s = Inl (v, Some e)" using assms by (auto simp: from_utf8_def split: sum.splits)
  then show ?thesis using utf8_scan_append [of 0 s t] by (simp add: from_utf8_def)
qed

text \<open>A string of valid bytes is cut into scalar values piece by piece.\<close>

lemma byte_bits: "byte c = of_bool (digit0 c) + 2 * of_bool (digit1 c) + 4 * of_bool (digit2 c)
    + 8 * of_bool (digit3 c) + 16 * of_bool (digit4 c) + 32 * of_bool (digit5 c)
    + 64 * of_bool (digit6 c) + 128 * of_bool (digit7 c)"
  by (cases c) (simp add: byte_def)

lemma trailing_len_utf8_len: "trailing_len (byte b) = Some n \<Longrightarrow> utf8_len b = Suc n"
  by (cases b) (auto simp: trailing_len_def utf8_len_def byte_bits of_bool_def split: if_splits)

lemma first_sequence_utf8_len: "first_sequence b bs = Inr n \<Longrightarrow> n = utf8_len b"
  using trailing_len_utf8_len [of b] by (auto simp: first_sequence_def split: option.splits sum.splits)

lemma utf8_scan_chars:
  "utf8_scan i s = Inr u \<Longrightarrow> chars (s @ t) = chars s @ chars t"
proof (induction i s rule: utf8_scan.induct)
  case (2 i b bs)
  then obtain n where n: "first_sequence b bs = Inr n"
    by (cases "first_sequence b bs") auto
  with 2 have "chars (drop (n - 1) bs @ t) = chars (drop (n - 1) bs) @ chars t" by auto
  moreover have "n = utf8_len b" "n - 1 \<le> length bs"
    using first_sequence_utf8_len [OF n] first_sequence_ok [OF n, of "[]"] by auto
  ultimately show ?case by simp
qed simp

lemma chars_valid_append: "valid_utf8 s \<Longrightarrow> chars (s @ t) = chars s @ chars t"
  using utf8_scan_chars [of 0 s] by (auto simp: valid_utf8_def from_utf8_def split: sum.splits)

text \<open>In valid text a scalar value is one ASCII byte or has no ASCII byte at all.\<close>

definition clean_char :: "string \<Rightarrow> bool" where
  "clean_char c \<longleftrightarrow> (\<exists>b. c = [b]) \<or> (\<forall>b \<in> set c. \<not> ascii b)"

lemma continuation_not_ascii: "is_continuation b \<Longrightarrow> \<not> ascii b"
  by (simp add: is_continuation_def ascii_def)

lemma ascii_byte: "ascii b \<Longrightarrow> byte b < 0x80"
  by (cases b) (auto simp: byte_bits ascii_def of_bool_def)

lemma second_ok_not_ascii: "second_ok f b \<Longrightarrow> \<not> ascii b"
  using ascii_byte [of b] continuation_not_ascii [of b] by (auto simp: second_ok_def split: if_splits)

lemma check_trailing_not_ascii:
  "check_trailing f k n bs = Inr u \<Longrightarrow> \<forall>b \<in> set (take n bs). \<not> ascii b"
  by (induction f k n bs rule: check_trailing.induct)
     (auto dest: second_ok_not_ascii continuation_not_ascii split: if_splits)

lemma first_sequence_clean:
  assumes "first_sequence b bs = Inr n"
  shows "clean_char (b # take (n - 1) bs)"
proof (cases "n = 1")
  case False
  with assms have n: "trailing_len (byte b) = Some (n - 1)" "check_trailing (byte b) 1 (n - 1) bs = Inr ()" "n - 1 \<noteq> 0"
    by (auto simp: first_sequence_def split: option.splits sum.splits)
  then have "\<not> ascii b" using ascii_byte [of b] by (auto simp: trailing_len_def split: if_splits)
  with check_trailing_not_ascii [OF n(2)] show ?thesis by (auto simp: clean_char_def)
qed (simp add: clean_char_def)

lemma utf8_scan_clean: "utf8_scan i s = Inr u \<Longrightarrow> \<forall>c \<in> set (chars s). clean_char c"
proof (induction i s rule: utf8_scan.induct)
  case (2 i b bs)
  then obtain n where n: "first_sequence b bs = Inr n"
    by (cases "first_sequence b bs") auto
  with 2 have "\<forall>c \<in> set (chars (drop (n - 1) bs)). clean_char c" by auto
  with first_sequence_clean [OF n] first_sequence_utf8_len [OF n] show ?case by simp
qed simp

lemma valid_utf8_clean: "valid_utf8 s \<Longrightarrow> \<forall>c \<in> set (chars s). clean_char c"
  using utf8_scan_clean [of 0 s] by (auto simp: valid_utf8_def from_utf8_def split: sum.splits)

text \<open>The four outcomes of a push.\<close>

lemma from_utf8_Nil [simp]: "from_utf8 [] = Inr []"
  by (simp add: from_utf8_def)

lemma push_bytes_valid:
  "valid_utf8 (pending_utf8 u @ c) \<Longrightarrow> push (utf8_inner u) (pending_utf8 u @ c) = (p, out) \<Longrightarrow>
    push_bytes push u c = (\<lparr>utf8_inner = p, pending_utf8 = []\<rparr>, Inr out)"
  by (simp add: push_bytes_def valid_utf8_def)

lemma push_bytes_refused:
  "from_utf8 (pending_utf8 u @ c) = Inl (v, Some e) \<Longrightarrow> push_bytes push u c = (u, Inl (InvalidUtf8 v e))"
  by (simp add: push_bytes_def)

lemma push_bytes_held:
  "from_utf8 (pending_utf8 u @ c) = Inl (0, None) \<Longrightarrow>
    push_bytes push u c = (u\<lparr>pending_utf8 := pending_utf8 u @ c\<rparr>, Inr default_chunk)"
  by (simp add: push_bytes_def)

lemma push_bytes_partial:
  assumes "from_utf8 (pending_utf8 u @ c) = Inl (v, None)" and "v \<noteq> 0"
    and "push (utf8_inner u) (take v (pending_utf8 u @ c)) = (p, out)"
  shows "push_bytes push u c = (\<lparr>utf8_inner = p, pending_utf8 = drop v (pending_utf8 u @ c)\<rparr>, Inr out)"
  using assms from_utf8_split(1) [OF assms(1)]
  by (simp add: push_bytes_def valid_utf8_def del: take_append drop_append)

lemma push_bytes_error:
  assumes "push_bytes push u c = (u', Inl err)"
  shows "u' = u \<and> (\<exists>v e. from_utf8 (pending_utf8 u @ c) = Inl (v, Some e) \<and> err = InvalidUtf8 v e)"
proof -
  obtain p o1 where whole: "push (utf8_inner u) (pending_utf8 u @ c) = (p, o1)" by fastforce
  consider (valid) "valid_utf8 (pending_utf8 u @ c)"
    | (refused) v e where "from_utf8 (pending_utf8 u @ c) = Inl (v, Some e)"
    | (prefix) "from_utf8 (pending_utf8 u @ c) = Inl (0, None)"
    | (partial) v where "from_utf8 (pending_utf8 u @ c) = Inl (v, None)" "v \<noteq> 0"
    by (cases "from_utf8 (pending_utf8 u @ c)") (force simp: from_utf8_Inr)+
  then show ?thesis
  proof cases
    case valid
    from push_bytes_valid [of u c push, OF this whole] assms show ?thesis by simp
  next
    case refused
    from push_bytes_refused [OF this, of push] assms refused show ?thesis by auto
  next
    case prefix
    from push_bytes_held [OF this, of push] assms show ?thesis by simp
  next
    case partial
    obtain q o2 where "push (utf8_inner u) (take v (pending_utf8 u @ c)) = (q, o2)" by fastforce
    from push_bytes_partial [of u c v push, OF partial this] assms show ?thesis by simp
  qed
qed

lemma append_chunk_assoc [simp]: "append_chunk (append_chunk a b) c = append_chunk a (append_chunk b c)"
  by (simp add: append_chunk_def)

lemma append_default [simp]: "append_chunk default_chunk c = c" "append_chunk c default_chunk = c"
  by (simp_all add: append_chunk_def default_chunk_def)

subsection \<open>The contract of a stream parser\<close>

text \<open>
  The trait as a contract. \<open>norm\<close> says when two lists of extracted payloads mean the same
  (a payload may be delivered in pieces), and \<open>inv\<close> holds between pushes. The one law of
  weight is \<open>push_append\<close>: pushing two texts is pushing their concatenation.
\<close>

locale text_stream =
  fixes push :: "('p, 'e) push_fn" and fin :: "('p, 'e) finish_fn"
    and inv :: "'p \<Rightarrow> bool" and norm :: "'e list \<Rightarrow> 'e list"
  assumes push_nil: "inv p \<Longrightarrow> push p [] = (p, default_chunk)"
    and push_inv: "inv p \<Longrightarrow> valid_utf8 a \<Longrightarrow> inv (fst (push p a))"
    and push_state: "inv p \<Longrightarrow> valid_utf8 a \<Longrightarrow> valid_utf8 b \<Longrightarrow>
          fst (push p (a @ b)) = fst (push (fst (push p a)) b)"
    and push_visible: "inv p \<Longrightarrow> valid_utf8 a \<Longrightarrow> valid_utf8 b \<Longrightarrow>
          visible_text (snd (push p (a @ b))) =
          visible_text (snd (push p a)) @ visible_text (snd (push (fst (push p a)) b))"
    and push_extracted: "inv p \<Longrightarrow> valid_utf8 a \<Longrightarrow> valid_utf8 b \<Longrightarrow>
          norm (extracted (snd (push p (a @ b)))) =
          norm (extracted (snd (push p a)) @ extracted (snd (push (fst (push p a)) b)))"
    and norm_cong: "norm xs = norm xs' \<Longrightarrow> norm ys = norm ys' \<Longrightarrow> norm (xs @ ys) = norm (xs' @ ys')"
begin

definition same :: "'e stream_text_chunk \<Rightarrow> 'e stream_text_chunk \<Rightarrow> bool" where
  "same c d \<longleftrightarrow> visible_text c = visible_text d \<and> norm (extracted c) = norm (extracted d)"

lemma same_refl [simp]: "same c c"
  by (simp add: same_def)

lemma same_trans: "same a b \<Longrightarrow> same b c \<Longrightarrow> same a c"
  by (simp add: same_def)

lemma same_append: "same a a' \<Longrightarrow> same b b' \<Longrightarrow> same (append_chunk a b) (append_chunk a' b')"
  by (auto simp: same_def append_chunk_def intro: norm_cong)

lemma push_append:
  assumes "inv p" "valid_utf8 a" "valid_utf8 b" "push p a = (p1, o1)" "push p1 b = (p2, o2)"
  shows "\<exists>o3. push p (a @ b) = (p2, o3) \<and> same o3 (append_chunk o1 o2)"
proof -
  have "fst (push p (a @ b)) = p2" using push_state [of p a b] assms by simp
  moreover have "same (snd (push p (a @ b))) (append_chunk o1 o2)"
    using push_visible [of p a b] push_extracted [of p a b] assms by (simp add: same_def append_chunk_def)
  ultimately show ?thesis by (metis prod.collapse)
qed

text \<open>Between pushes the wrapper holds at most the beginning of one code point.\<close>

definition utf8_inv :: "'p utf8_stream_parser \<Rightarrow> bool" where
  "utf8_inv u \<longleftrightarrow> inv (utf8_inner u) \<and>
     (pending_utf8 u = [] \<or> from_utf8 (pending_utf8 u) = Inl (0, None))"

text \<open>A push that succeeds decodes as much as it can and keeps the rest.\<close>

lemma push_bytes_cases:
  assumes "push_bytes push u c = (u', Inr out)"
  obtains (decoded) a r where "pending_utf8 u @ c = a @ r" "valid_utf8 a" "pending_utf8 u' = r"
      "r = [] \<or> from_utf8 r = Inl (0, None)" "push (utf8_inner u) a = (utf8_inner u', out)"
    | (held) "pending_utf8 u' = pending_utf8 u @ c" "from_utf8 (pending_utf8 u @ c) = Inl (0, None)"
      "utf8_inner u' = utf8_inner u" "out = default_chunk"
proof -
  obtain p o1 where whole: "push (utf8_inner u) (pending_utf8 u @ c) = (p, o1)" by fastforce
  consider (valid) "valid_utf8 (pending_utf8 u @ c)"
    | (refused) v e where "from_utf8 (pending_utf8 u @ c) = Inl (v, Some e)"
    | (prefix) "from_utf8 (pending_utf8 u @ c) = Inl (0, None)"
    | (partial) v where "from_utf8 (pending_utf8 u @ c) = Inl (v, None)" "v \<noteq> 0"
    by (cases "from_utf8 (pending_utf8 u @ c)") (force simp: from_utf8_Inr)+
  then show thesis
  proof cases
    case valid
    from push_bytes_valid [of u c push, OF this whole] assms decoded [of "pending_utf8 u @ c" "[]"] whole valid
    show thesis by auto
  next
    case refused
    from push_bytes_refused [OF this, of push] assms show thesis by simp
  next
    case prefix
    from push_bytes_held [OF this, of push] assms held prefix show thesis by auto
  next
    case partial
    let ?a = "take v (pending_utf8 u @ c)" and ?r = "drop v (pending_utf8 u @ c)"
    obtain q o2 where q: "push (utf8_inner u) ?a = (q, o2)" by fastforce
    from push_bytes_partial [of u c v push, OF partial q] assms
    have "u' = \<lparr>utf8_inner = q, pending_utf8 = ?r\<rparr>" "out = o2" by simp_all
    with q from_utf8_split [OF partial(1)] show thesis
      by (intro decoded [of ?a ?r]) (simp_all del: take_append drop_append)
  qed
qed

lemma push_bytes_inv:
  assumes "utf8_inv u" and "push_bytes push u c = (u', Inr out)"
  shows "utf8_inv u'"
  using assms(2)
proof (cases rule: push_bytes_cases)
  case (decoded a r)
  with push_inv [of "utf8_inner u" a] assms(1) show ?thesis by (simp add: utf8_inv_def)
qed (use assms(1) in \<open>simp add: utf8_inv_def\<close>)

lemma finish_bytes_whole:
  assumes "utf8_inv u"
  shows "pending_utf8 u = [] \<and> snd (finish_bytes push fin u) = Inr (snd (fin (utf8_inner u))) \<or>
    \<not> valid_utf8 (pending_utf8 u) \<and> snd (finish_bytes push fin u) = Inl IncompleteUtf8AtEof"
  using assms
  by (cases "pending_utf8 u = []")
     (auto simp: utf8_inv_def finish_bytes_def pending_error_def valid_utf8_def Let_def split: prod.splits)


lemma whole_append:
  assumes "inv p" "valid_utf8 a" "valid_utf8 b" "push p a = (p1, o1)"
  shows "same (append_chunk o1 (whole_text push fin p1 b)) (whole_text push fin p (a @ b))"
proof -
  obtain p2 o2 where b: "push p1 b = (p2, o2)" by fastforce
  from push_append [OF assms this] obtain o3 where
    "push p (a @ b) = (p2, o3)" "same o3 (append_chunk o1 o2)" by blast
  then show ?thesis
    using b same_append [of o3 "append_chunk o1 o2" "snd (fin p2)" "snd (fin p2)"]
    by (simp add: whole_text_def same_def)
qed

text \<open>A run of the wrapper over byte chunks is a run of the inner parser over the whole text.\<close>

lemma collect_bytes_whole:
  assumes "utf8_inv u"
  shows "if valid_utf8 (pending_utf8 u @ concat cs)
    then \<exists>out. collect_bytes push fin u cs = Inr out \<and>
      same out (whole_text push fin (utf8_inner u) (pending_utf8 u @ concat cs))
    else \<exists>e. collect_bytes push fin u cs = Inl e"
  using assms
proof (induction cs arbitrary: u)
  case Nil
  then have "inv (utf8_inner u)" by (simp add: utf8_inv_def)
  with finish_bytes_whole [OF Nil] push_nil show ?case
    by (auto simp: whole_text_def)
next
  case (Cons c cs)
  obtain u' res where step: "push_bytes push u c = (u', res)" by fastforce
  show ?case
  proof (cases res)
    case (Inl err)
    with push_bytes_error [of push u c u' err] step obtain v e where
      "from_utf8 (pending_utf8 u @ c) = Inl (v, Some e)" by auto
    from from_utf8_hard_error [OF this, of "concat cs"] have "\<not> valid_utf8 (pending_utf8 u @ concat (c # cs))"
      by (simp add: valid_utf8_def)
    with step Inl show ?thesis by simp
  next
    case (Inr o1)
    with step have ok: "push_bytes push u c = (u', Inr o1)" by simp
    note IH = Cons.IH [OF push_bytes_inv [OF Cons.prems ok]]
    from ok show ?thesis
    proof (cases rule: push_bytes_cases)
      case (decoded a r)
      let ?x = "r @ concat cs"
      have all: "pending_utf8 u @ concat (c # cs) = a @ ?x"
        using decoded(1) by (simp flip: append_assoc)
      have valid: "valid_utf8 (a @ ?x) \<longleftrightarrow> valid_utf8 ?x" using decoded(2) by (rule valid_utf8_append)
      have inv: "inv (utf8_inner u)" using Cons.prems by (simp add: utf8_inv_def)
      show ?thesis
      proof (cases "valid_utf8 ?x")
        case True
        with IH decoded(3) obtain out where
          out: "collect_bytes push fin u' cs = Inr out" "same out (whole_text push fin (utf8_inner u') ?x)"
          by auto
        from whole_append [OF inv decoded(2) True decoded(5)] same_append [OF same_refl [of o1] out(2)]
        have "same (append_chunk o1 out) (whole_text push fin (utf8_inner u) (a @ ?x))"
          by (rule same_trans [rotated])
        with True valid out(1) ok show ?thesis unfolding all by simp
      next
        case False
        with IH decoded(3) valid ok show ?thesis unfolding all by auto
      qed
    next
      case held
      with IH ok show ?thesis by (auto split: if_splits)
    qed
  qed
qed

lemma chunks_do_not_matter:
  assumes "inv p" and "valid_utf8 (concat cs)"
  shows "\<exists>out. collect_bytes push fin (new_utf8_stream_parser p) cs = Inr out \<and>
    same out (whole_text push fin p (concat cs))"
  using collect_bytes_whole [of "new_utf8_stream_parser p" cs] assms
  by (simp add: utf8_inv_def new_utf8_stream_parser_def)

end

subsection \<open>Properties\<close>

text \<open>
  A chunk with an invalid byte is rolled back as a whole: the wrapper is left as it was,
  pending bytes and inner parser, the reported offset counts valid bytes of the buffer, and
  a chunk that continues the pending bytes correctly is still decoded.
\<close>

theorem push_bytes_rolls_back:
  assumes "push_bytes push u c = (u', Inl err)"
  shows "u' = u \<and> (\<exists>v e. err = InvalidUtf8 v e \<and> v < length (pending_utf8 u @ c) \<and>
    valid_utf8 (take v (pending_utf8 u @ c)) \<and> (\<forall>d. push_bytes push u (c @ d) = (u, Inl err)))"
proof -
  obtain v e where e: "u' = u" "from_utf8 (pending_utf8 u @ c) = Inl (v, Some e)" "err = InvalidUtf8 v e"
    using push_bytes_error [OF assms] by blast
  have "push_bytes push u (c @ d) = (u, Inl err)" for d
    using from_utf8_hard_error [OF e(2), of d] by (simp add: push_bytes_refused e(3))
  then show ?thesis using e from_utf8_split(1,2) [OF e(2)] by blast
qed

definition echo :: "(string, string) push_fn" where
  "echo p str = (p @ str, \<lparr>visible_text = str, extracted = []\<rparr>)"

theorem push_bytes_rolls_back_witness:
  "push_bytes echo \<lparr>utf8_inner = ''ok'', pending_utf8 = [CHR 0xC3]\<rparr> [CHR 0x28] =
     (\<lparr>utf8_inner = ''ok'', pending_utf8 = [CHR 0xC3]\<rparr>, Inl (InvalidUtf8 0 1)) \<and>
   push_bytes echo \<lparr>utf8_inner = ''ok'', pending_utf8 = [CHR 0xC3]\<rparr> [CHR 0x28, CHR 0xA9] =
     (\<lparr>utf8_inner = ''ok'', pending_utf8 = [CHR 0xC3]\<rparr>, Inl (InvalidUtf8 0 1))"
proof -
  let ?u = "\<lparr>utf8_inner = ''ok'', pending_utf8 = [CHR 0xC3]\<rparr>"
  have run: "push_bytes echo ?u [CHR 0x28] = (?u, Inl (InvalidUtf8 0 1))" by code_simp
  have "push_bytes echo ?u ([CHR 0x28] @ d) = (?u, Inl (InvalidUtf8 0 1))" for d
    using push_bytes_rolls_back [OF run] by blast
  from run this [of "[CHR 0xA9]"] show ?thesis by simp
qed

end
