(* ===== verification/Inline_Tags.thy ===== *)
theory Inline_Tags
  imports Text_Stream
begin

section \<open>Hidden inline tags\<close>

text \<open>
  \<open>codex-rs/utils/stream-parser/src/inline_hidden_tag.rs\<close>: the parser that hides configured
  inline tags while text streams in, and \<open>citation.rs\<close>, its use for memory citations. The
  parser keeps back the longest end of its buffer that may still become a tag.
\<close>

subsection \<open>State\<close>

record 't extracted_inline_tag =
  ext_tag :: 't
  ext_content :: string

record 't inline_tag_spec =
  spec_tag :: 't
  spec_open :: string
  spec_close :: string

record 't active_inline_tag =
  act_tag :: 't
  act_close :: string
  act_content :: string

record 't inline_parser =
  inline_specs :: "'t inline_tag_spec list"
  inline_pending :: string
  inline_active :: "'t active_inline_tag option"

text \<open>\<open>InlineHiddenTagParser::new\<close>; \<open>None\<close> is a failed assertion.\<close>

definition new_inline_parser :: "'t inline_tag_spec list \<Rightarrow> 't inline_parser option" where
  "new_inline_parser specs =
     (if specs = [] \<or> (\<exists>spec \<in> set specs. spec_open spec = [] \<or> spec_close spec = []) then None
      else Some \<lparr>inline_specs = specs, inline_pending = [], inline_active = None\<rparr>)"

subsection \<open>Searching\<close>

definition longest_suffix_prefix_len :: "string \<Rightarrow> string \<Rightarrow> nat" where
  "longest_suffix_prefix_len s needle =
     (case List.find (\<lambda>k. is_char_boundary needle k \<and> ends_with s (take k needle))
             (rev [1 ..< Suc (min (length s) (length needle - 1))]) of
        Some k \<Rightarrow> k
      | None \<Rightarrow> 0)"

text \<open>The order of \<open>find_next_open\<close>: leftmost, then longest, then first in the list.\<close>

fun open_before :: "nat \<times> nat \<times> nat \<Rightarrow> nat \<times> nat \<times> nat \<Rightarrow> bool" where
  "open_before (pos_a, len_a, idx_a) (pos_b, len_b, idx_b) \<longleftrightarrow>
     pos_a < pos_b \<or> pos_a = pos_b \<and> (len_b < len_a \<or> len_a = len_b \<and> idx_a < idx_b)"

definition open_candidates :: "'t inline_tag_spec list \<Rightarrow> string \<Rightarrow> (nat \<times> nat \<times> nat) list" where
  "open_candidates specs pending =
     List.map_filter
       (\<lambda>(idx, spec). map_option (\<lambda>pos. (pos, length (spec_open spec), idx)) (str_find (spec_open spec) pending))
       (List.enumerate 0 specs)"

definition find_next_open :: "'t inline_tag_spec list \<Rightarrow> string \<Rightarrow> (nat \<times> nat) option" where
  "find_next_open specs pending =
     map_option (\<lambda>(pos, len, idx). (pos, idx)) (min_by open_before (open_candidates specs pending))"

definition max_open_prefix_suffix_len :: "'t inline_tag_spec list \<Rightarrow> string \<Rightarrow> nat" where
  "max_open_prefix_suffix_len specs pending =
     fold max (map (\<lambda>spec. longest_suffix_prefix_len pending (spec_open spec)) specs) 0"

lemma open_candidates_iff:
  "(pos, len, idx) \<in> set (open_candidates specs pending) \<longleftrightarrow>
     idx < length specs \<and> len = length (spec_open (specs ! idx)) \<and>
     str_find (spec_open (specs ! idx)) pending = Some pos"
  by (force simp: open_candidates_def List.map_filter_def in_set_enumerate_eq image_iff)

lemma find_next_open_Some:
  "find_next_open specs pending = Some (i, idx) \<Longrightarrow>
    idx < length specs \<and> str_find (spec_open (specs ! idx)) pending = Some i"
  by (auto simp: find_next_open_def open_candidates_iff dest!: min_by_in)

lemma find_bound: "str_find p s = Some i \<Longrightarrow> i + length p \<le> length s"
  by (simp add: str_find_Some occurs_at_bound)

lemma find_drains: "str_find p s = Some i \<Longrightarrow> p \<noteq> [] \<Longrightarrow> length s - (i + length p) < length s"
  using find_bound [of p s i] by (cases p) auto

subsection \<open>The loop\<close>

text \<open>
  The loop of \<open>push_str\<close> over the active tag and the pending text: their new values, and what
  is put out. Each turn drains a whole tag. A tag that is empty would never end the loop;
  \<open>new\<close> refuses it, and the two guards below stand for that assertion.
\<close>

definition visible :: "string \<Rightarrow> 'e stream_text_chunk" where
  "visible str = \<lparr>visible_text = str, extracted = []\<rparr>"

definition extraction :: "'t \<Rightarrow> string \<Rightarrow> 't extracted_inline_tag stream_text_chunk" where
  "extraction t content = \<lparr>visible_text = [], extracted = [\<lparr>ext_tag = t, ext_content = content\<rparr>]\<rparr>"

function inline_loop ::
    "'t inline_tag_spec list \<Rightarrow> 't active_inline_tag option \<Rightarrow> string
     \<Rightarrow> 't active_inline_tag option \<times> string \<times> 't extracted_inline_tag stream_text_chunk" where
  "inline_loop specs (Some active) pending =
     (case str_find (act_close active) pending of
        Some close_idx \<Rightarrow>
          if act_close active = [] then (Some active, pending, default_chunk)
          else
            (let (active', pending', out) =
               inline_loop specs None (drop (close_idx + length (act_close active)) pending)
             in (active', pending',
                 append_chunk (extraction (act_tag active) (act_content active @ take close_idx pending)) out))
      | None \<Rightarrow>
          (let keep = longest_suffix_prefix_len pending (act_close active);
               n = length pending - keep
           in (Some (active\<lparr>act_content := act_content active @ take n pending\<rparr>), drop n pending,
               default_chunk)))"
| "inline_loop specs None pending =
     (case find_next_open specs pending of
        Some (open_idx, spec_idx) \<Rightarrow>
          if spec_open (specs ! spec_idx) = [] then (None, pending, default_chunk)
          else
            (let spec = specs ! spec_idx;
                 (active', pending', out) =
                   inline_loop specs
                     (Some \<lparr>act_tag = spec_tag spec, act_close = spec_close spec, act_content = []\<rparr>)
                     (drop (open_idx + length (spec_open spec)) pending)
             in (active', pending', append_chunk (visible (take open_idx pending)) out))
      | None \<Rightarrow>
          (let keep = max_open_prefix_suffix_len specs pending;
               n = length pending - keep
           in (None, drop n pending, visible (take n pending))))"
  by pat_completeness auto
termination
  by (relation "measure (\<lambda>(_, _, pending). length pending)")
     (auto dest!: find_next_open_Some dest: find_drains)

definition inline_push_str ::
    "('t inline_parser, 't extracted_inline_tag) push_fn" where
  "inline_push_str p chunk =
     (case inline_loop (inline_specs p) (inline_active p) (inline_pending p @ chunk) of
        (active, pending, out) \<Rightarrow> (p\<lparr>inline_active := active, inline_pending := pending\<rparr>, out))"

definition inline_finish :: "('t inline_parser, 't extracted_inline_tag) finish_fn" where
  "inline_finish p =
     (case inline_active p of
        Some active \<Rightarrow>
          (p\<lparr>inline_active := None, inline_pending := []\<rparr>,
           extraction (act_tag active) (act_content active @ inline_pending p))
      | None \<Rightarrow> (p\<lparr>inline_pending := []\<rparr>, visible (inline_pending p)))"

subsection \<open>What is kept back\<close>

definition ascii_text :: "string \<Rightarrow> bool" where
  "ascii_text s \<longleftrightarrow> (\<forall>c \<in> set s. ascii c)"

lemma find_last_Some:
  "List.find P (rev [1 ..< Suc m]) = Some k \<Longrightarrow> P k \<and> 1 \<le> k \<and> k \<le> m \<and> (\<forall>j. k < j \<and> j \<le> m \<longrightarrow> \<not> P j)"
proof (induction m)
  case (Suc m)
  have step: "List.find P (rev [1 ..< Suc (Suc m)]) =
      (if P (Suc m) then Some (Suc m) else List.find P (rev [1 ..< Suc m]))" by simp
  show ?case
  proof (cases "P (Suc m)")
    case True
    with Suc.prems have "k = Suc m" unfolding step by simp
    with True show ?thesis by auto
  next
    case False
    with Suc.prems have "List.find P (rev [1 ..< Suc m]) = Some k" unfolding step by simp
    from Suc.IH [OF this] False show ?thesis by (auto simp: le_Suc_eq)
  qed
qed simp

lemma find_last_None: "List.find P (rev [1 ..< Suc m]) = None \<Longrightarrow> 1 \<le> j \<Longrightarrow> j \<le> m \<Longrightarrow> \<not> P j"
  by (simp only: find_None_iff) auto

lemma ascii_boundary: "ascii_text n \<Longrightarrow> k \<le> length n \<Longrightarrow> is_char_boundary n k"
  by (auto simp: is_char_boundary_def ascii_text_def is_continuation_def ascii_def)

lemma kept_is_prefix:
  "ends_with s (take (longest_suffix_prefix_len s n) n) \<and> longest_suffix_prefix_len s n \<le> length s \<and>
    (longest_suffix_prefix_len s n = 0 \<or> longest_suffix_prefix_len s n < length n)"
proof (cases "List.find (\<lambda>k. is_char_boundary n k \<and> ends_with s (take k n))
    (rev [1 ..< Suc (min (length s) (length n - 1))])")
  case None
  then show ?thesis by (simp add: longest_suffix_prefix_len_def ends_with_iff)
next
  case (Some k)
  with find_last_Some [OF Some] show ?thesis by (auto simp: longest_suffix_prefix_len_def)
qed

lemma kept_obtain:
  assumes "longest_suffix_prefix_len s n \<noteq> 0"
  obtains r where "s = r @ take (longest_suffix_prefix_len s n) n" "longest_suffix_prefix_len s n < length n"
  using assms kept_is_prefix [of s n] by (auto simp: ends_with_iff)

lemma kept_greatest:
  assumes "ascii_text n" and "k < length n" and "ends_with s (take k n)"
  shows "k \<le> longest_suffix_prefix_len s n"
proof (rule ccontr)
  let ?P = "\<lambda>k. is_char_boundary n k \<and> ends_with s (take k n)"
  let ?m = "min (length s) (length n - 1)"
  assume less: "\<not> k \<le> longest_suffix_prefix_len s n"
  have P: "?P k" using assms ascii_boundary [of n k] by simp
  have "length (take k n) \<le> length s" using assms(3) by (auto simp: ends_with_iff)
  with assms(2) less have k: "1 \<le> k" "k \<le> ?m" by auto
  show False
  proof (cases "List.find ?P (rev [1 ..< Suc ?m])")
    case None
    from find_last_None [OF None k] P show False by simp
  next
    case (Some j)
    with find_last_Some [OF Some] P k less show False
      by (auto simp: longest_suffix_prefix_len_def not_le)
  qed
qed

text \<open>
  A tag that is not in the text read so far starts, if anywhere, in the part kept back; so
  what is put out can never be the beginning of a tag, and searching the part kept back
  together with the text to come is searching the whole.
\<close>

lemma occurrence_starts_in_kept:
  assumes "ascii_text n" and "\<And>i. \<not> occurs_at n x i" and "longest_suffix_prefix_len x n \<le> k" and "k \<le> length x"
    and "occurs_at n (x @ y) i"
  shows "length x - k \<le> i"
proof (rule ccontr)
  assume early: "\<not> length x - k \<le> i"
  from assms(5) obtain u v where uv: "x @ y = u @ n @ v" "length u = i" by (auto simp: occurs_at_def)
  with early have "length u < length x" by simp
  with uv(1) obtain w where x: "x = u @ w" "w @ y = n @ v" by (auto simp: append_eq_append_conv2)
  have long: "length x < i + length n"
    using assms(2) [of i] occurs_at_cut [OF assms(5)] not_le by blast
  with x uv(2) have "length w < length n" by simp
  moreover from x(2) this have "w = take (length w) n"
    by (metis append_eq_append_conv_if append_eq_conv_conj less_imp_le_nat)
  then have "ends_with x (take (length w) n)" using x(1) by (auto simp: ends_with_iff)
  ultimately have "length w \<le> longest_suffix_prefix_len x n" using kept_greatest [OF assms(1)] by blast
  with assms(3) early x(1) uv(2) show False by simp
qed

lemma find_in_kept:
  assumes "ascii_text n" and "str_find n (t @ p) = None"
    and "longest_suffix_prefix_len (t @ p) n \<le> length p"
  shows "str_find n (t @ p @ y) = map_option ((+) (length t)) (str_find n (p @ y))"
proof (rule str_find_shift)
  fix i assume "occurs_at n (t @ p @ y) i"
  then show "length t \<le> i"
    using occurrence_starts_in_kept [of n "t @ p" "length p" y i] assms by (simp add: str_find_None)
qed

lemma kept_shift:
  assumes "ascii_text n" and "longest_suffix_prefix_len (t @ p) n \<le> length p"
  shows "longest_suffix_prefix_len (t @ p @ y) n = longest_suffix_prefix_len (p @ y) n"
proof (rule antisym)
  let ?k1 = "longest_suffix_prefix_len (t @ p @ y) n" and ?k2 = "longest_suffix_prefix_len (p @ y) n"
  show "?k2 \<le> ?k1"
  proof (cases "?k2 = 0")
    case False
    then obtain r where r: "p @ y = r @ take ?k2 n" "?k2 < length n" by (rule kept_obtain)
    then have "t @ p @ y = (t @ r) @ take ?k2 n" by simp
    then have "ends_with (t @ p @ y) (take ?k2 n)" unfolding ends_with_iff by blast
    with r(2) show ?thesis using kept_greatest [OF assms(1)] by blast
  qed simp
  show "?k1 \<le> ?k2"
  proof (cases "?k1 = 0")
    case False
    then obtain r where r: "t @ p @ y = r @ take ?k1 n" and k1: "?k1 < length n" by (rule kept_obtain)
    have len: "length t + length (p @ y) = length r + ?k1"
      using arg_cong [OF r, of length] k1 by simp
    show ?thesis
    proof (cases "?k1 \<le> length (p @ y)")
      case True
      with len have "length t \<le> length r" by simp
      moreover have "p @ y = drop (length t) (r @ take ?k1 n)" by (simp flip: r)
      ultimately have "p @ y = drop (length t) r @ take ?k1 n" by simp
      then show ?thesis using kept_greatest [OF assms(1) k1, of "p @ y"] unfolding ends_with_iff by blast
    next
      case False
      with False len have "length r \<le> length t" by simp
      then have "take (length r) t = r" using arg_cong [OF r, of "take (length r)"] by simp
      then obtain w where t: "t = r @ w" by (metis append_take_drop_id)
      have w: "t = r @ w" "w @ p @ y = take ?k1 n" using t arg_cong [OF r, of "drop (length r)"] by simp_all
      have "length w \<noteq> 0" using len False w(1) by (cases w) auto
      have "take (length (w @ p)) n = take (length (w @ p)) (take ?k1 n)"
        using len w(1) by (simp add: min_def)
      also have "\<dots> = w @ p" by (simp flip: w(2))
      finally have j: "take (length (w @ p)) n = w @ p" .
      moreover have "length (w @ p) < length n" using len w(1) k1 by simp
      moreover have "ends_with (t @ p) (w @ p)" using w(1) by (auto simp: ends_with_iff)
      ultimately have "length (w @ p) \<le> longest_suffix_prefix_len (t @ p) n"
        using kept_greatest [OF assms(1)] by metis
      then have "length (w @ p) \<le> length p" using assms(2) by (rule order.trans)
      with \<open>length w \<noteq> 0\<close> show ?thesis by simp
    qed
  qed simp
qed

subsection \<open>Searching for an open tag, across a cut\<close>

text \<open>
  No open tag occurs inside another one. Without this the choice between two open tags can
  depend on how the text is cut.
\<close>

fun apart :: "'t inline_tag_spec list \<Rightarrow> bool" where
  "apart [] \<longleftrightarrow> True"
| "apart (spec # specs) \<longleftrightarrow>
     (\<forall>other \<in> set specs.
        \<not> str_contains (spec_open other) (spec_open spec) \<and> \<not> str_contains (spec_open spec) (spec_open other)) \<and>
     apart specs"

definition wf_specs :: "'t inline_tag_spec list \<Rightarrow> bool" where
  "wf_specs specs \<longleftrightarrow>
     (\<forall>spec \<in> set specs. spec_open spec \<noteq> [] \<and> spec_close spec \<noteq> [] \<and>
        ascii_text (spec_open spec) \<and> ascii_text (spec_close spec)) \<and> apart specs"

lemma apart_nth:
  "apart specs \<Longrightarrow> i < length specs \<Longrightarrow> j < length specs \<Longrightarrow> i \<noteq> j \<Longrightarrow>
    \<not> occurs_at (spec_open (specs ! i)) (spec_open (specs ! j)) k"
proof (induction specs arbitrary: i j)
  case (Cons spec specs)
  then show ?case
    by (cases i; cases j) (auto simp: str_contains_def str_find_None dest: nth_mem)
qed simp

lemma wf_specs_nth:
  "wf_specs specs \<Longrightarrow> i < length specs \<Longrightarrow>
    spec_open (specs ! i) \<noteq> [] \<and> spec_close (specs ! i) \<noteq> [] \<and>
    ascii_text (spec_open (specs ! i)) \<and> ascii_text (spec_close (specs ! i))"
  by (auto simp: wf_specs_def)

lemma find_next_open_None:
  "find_next_open specs s = None \<longleftrightarrow> (\<forall>spec \<in> set specs. str_find (spec_open spec) s = None)"
proof -
  have "open_candidates specs s = [] \<longleftrightarrow> (\<forall>spec \<in> set specs. str_find (spec_open spec) s = None)"
  proof
    assume e: "open_candidates specs s = []"
    show "\<forall>spec \<in> set specs. str_find (spec_open spec) s = None"
    proof
      fix spec assume "spec \<in> set specs"
      then obtain i where "i < length specs" "specs ! i = spec" by (auto simp: in_set_conv_nth)
      then show "str_find (spec_open spec) s = None"
        using open_candidates_iff [of _ _ i specs s] e by (cases "str_find (spec_open spec) s") auto
    qed
  next
    assume none: "\<forall>spec \<in> set specs. str_find (spec_open spec) s = None"
    have "c \<notin> set (open_candidates specs s)" for c
      using none by (cases c) (auto simp: open_candidates_iff)
    then show "open_candidates specs s = []" by (cases "open_candidates specs s") auto
  qed
  then show ?thesis by (simp add: find_next_open_def)
qed

lemma occurs_inside:
  assumes "occurs_at a s i" and "occurs_at b s j" and "j \<le> i" and "i + length a \<le> j + length b"
  shows "occurs_at a b (i - j)"
proof -
  from assms(2) obtain u v where s: "s = u @ b @ v" "length u = j" by (auto simp: occurs_at_def)
  have "occurs_at a (u @ (b @ v)) i" using assms(1) unfolding s(1) .
  moreover obtain d where d: "i = j + d" using assms(3) le_Suc_ex by blast
  ultimately have "occurs_at a (u @ (b @ v)) (length u + d)" using s(2) by simp
  then have "occurs_at a (b @ v) d" unfolding occurs_at_shift .
  then have "occurs_at a b d" using assms(4) d by (intro occurs_at_cut [of a b v d]) simp_all
  then show ?thesis using d by simp
qed

lemma open_before_asym: "open_before x y \<Longrightarrow> \<not> open_before y x"
  by (cases x; cases y) auto

lemma open_before_total: "open_before x y \<Longrightarrow> \<not> open_before z y \<Longrightarrow> open_before x z"
  by (cases x; cases y; cases z) auto

text \<open>The open tag found in a text is still the one found when more text follows.\<close>

lemma find_next_open_append:
  assumes wf: "wf_specs specs" and found: "find_next_open specs x = Some (i, idx)"
  shows "find_next_open specs (x @ y) = Some (i, idx)"
proof -
  obtain len where m: "min_by open_before (open_candidates specs x) = Some (i, len, idx)"
    using found by (auto simp: find_next_open_def)
  have idx: "idx < length specs" "len = length (spec_open (specs ! idx))"
    "str_find (spec_open (specs ! idx)) x = Some i"
    using min_by_in [OF m] by (auto simp: open_candidates_iff)
  have occ: "occurs_at (spec_open (specs ! idx)) (x @ y) i" "i + len \<le> length x"
    using idx occurs_at_append occurs_at_bound by (auto simp: str_find_Some)
  have "min_by open_before (open_candidates specs (x @ y)) = Some (i, len, idx)"
  proof (rule min_by_unique)
    show "(i, len, idx) \<in> set (open_candidates specs (x @ y))"
      using idx str_find_append by (simp add: open_candidates_iff)
    fix c assume c: "c \<in> set (open_candidates specs (x @ y))" "c \<noteq> (i, len, idx)"
    obtain i' len' idx' where cc: "c = (i', len', idx')" by (cases c)
    have idx': "idx' < length specs" "len' = length (spec_open (specs ! idx'))"
      "str_find (spec_open (specs ! idx')) (x @ y) = Some i'"
      using c cc by (auto simp: open_candidates_iff)
    have ne: "idx \<noteq> idx'"
      using c(2) cc idx idx' str_find_append [of "spec_open (specs ! idx)" x i y] by auto
    have occ': "occurs_at (spec_open (specs ! idx')) (x @ y) i'" using idx'(3) by (simp add: str_find_Some)
    have apart: "apart specs" using wf by (simp add: wf_specs_def)
    have no: "\<not> (i' \<le> i \<and> i + len \<le> i' + len')" "\<not> (i \<le> i' \<and> i' + len' \<le> i + len)"
      using occurs_inside [OF occ(1) occ'] occurs_inside [OF occ' occ(1)]
        apart_nth [OF apart idx(1) idx'(1) ne] apart_nth [OF apart idx'(1) idx(1)] ne idx(2) idx'(2)
      by blast+
    show "open_before (i, len, idx) c \<and> \<not> open_before c (i, len, idx)"
    proof (cases "i' + len' \<le> length x")
      case True
      then have "str_find (spec_open (specs ! idx')) x = Some i'"
        using idx'(2,3) str_find_cut by blast
      then have cx: "c \<in> set (open_candidates specs x)" using idx' by (simp add: cc open_candidates_iff)
      have "\<not> open_before c (i, len, idx)"
        by (rule min_by_least [OF open_before_total m cx open_before_asym])
      then show ?thesis using c(2) by (auto simp: cc)
    next
      case False
      with no occ(2) show ?thesis by (auto simp: cc)
    qed
  qed
  then show ?thesis by (simp add: find_next_open_def)
qed

lemma map_filter_shift:
  assumes "\<And>x. x \<in> set xs \<Longrightarrow> f x = map_option g (h x)"
  shows "List.map_filter f xs = map g (List.map_filter h xs)"
  using assms by (induction xs) (auto simp: map_filter_simps split: option.splits)

lemma kept_le_max:
  "spec \<in> set specs \<Longrightarrow> longest_suffix_prefix_len s (spec_open spec) \<le> max_open_prefix_suffix_len specs s"
proof -
  have mono: "m \<le> fold max xs m" for xs and m :: nat
    by (induction xs arbitrary: m) (auto intro: order.trans [OF max.cobounded2])
  have "k \<le> fold max xs m" if "k \<in> set xs" for k m :: nat and xs
    using that by (induction xs arbitrary: m) (auto intro: order.trans [OF max.cobounded1 mono])
  then show "spec \<in> set specs \<Longrightarrow> ?thesis" by (simp add: max_open_prefix_suffix_len_def)
qed

lemma max_kept_bound: "max_open_prefix_suffix_len specs s \<le> length s"
proof -
  have "fold max xs m \<le> n" if "\<forall>k \<in> set xs. k \<le> n" "m \<le> n" for xs and m n :: nat
    using that by (induction xs arbitrary: m) auto
  then show ?thesis using kept_is_prefix by (fastforce simp: max_open_prefix_suffix_len_def)
qed

lemma find_next_open_kept:
  assumes wf: "wf_specs specs" and none: "find_next_open specs (t @ p) = None"
    and kept: "max_open_prefix_suffix_len specs (t @ p) \<le> length p"
  shows "find_next_open specs (t @ p @ y) = map_option (apfst ((+) (length t))) (find_next_open specs (p @ y))"
    and "max_open_prefix_suffix_len specs (t @ p @ y) = max_open_prefix_suffix_len specs (p @ y)"
proof -
  have one: "ascii_text (spec_open spec)" "str_find (spec_open spec) (t @ p) = None"
    "longest_suffix_prefix_len (t @ p) (spec_open spec) \<le> length p" if "spec \<in> set specs" for spec
    using wf none kept kept_le_max [OF that, of "t @ p"] that
    by (auto simp: wf_specs_def find_next_open_None)
  have "open_candidates specs (t @ p @ y) = map (apfst ((+) (length t))) (open_candidates specs (p @ y))"
    unfolding open_candidates_def
  proof (rule map_filter_shift, clarify)
    fix idx spec assume "(idx, spec) \<in> set (List.enumerate 0 specs)"
    then have "spec \<in> set specs" by (auto simp: in_set_enumerate_eq)
    from find_in_kept [OF one [OF this], of y]
    show "map_option (\<lambda>pos. (pos, length (spec_open spec), idx)) (str_find (spec_open spec) (t @ p @ y)) =
      map_option (apfst ((+) (length t)))
        (map_option (\<lambda>pos. (pos, length (spec_open spec), idx)) (str_find (spec_open spec) (p @ y)))"
      by (simp add: option.map_comp comp_def)
  qed
  moreover have "open_before (apfst ((+) (length t)) c) (apfst ((+) (length t)) d) = open_before c d" for c d
    by (cases c; cases d) auto
  ultimately show "find_next_open specs (t @ p @ y) = map_option (apfst ((+) (length t))) (find_next_open specs (p @ y))"
    by (simp add: find_next_open_def min_by_map [of open_before _ open_before] option.map_comp comp_def split_def apfst_def map_prod_def)
  show "max_open_prefix_suffix_len specs (t @ p @ y) = max_open_prefix_suffix_len specs (p @ y)"
    using one kept_shift [of _ t p y] by (simp add: max_open_prefix_suffix_len_def cong: map_cong)
qed

subsection \<open>Cutting the input does not matter\<close>

fun active_ok :: "'t active_inline_tag option \<Rightarrow> bool" where
  "active_ok None \<longleftrightarrow> True"
| "active_ok (Some a) \<longleftrightarrow> act_close a \<noteq> [] \<and> ascii_text (act_close a)"

lemma append_visible [simp]: "append_chunk (visible a) (append_chunk (visible b) c) = append_chunk (visible (a @ b)) c"
  by (simp add: append_chunk_def visible_def)

lemma inline_loop_open:
  "find_next_open specs s = Some (i, idx) \<Longrightarrow> spec_open (specs ! idx) \<noteq> [] \<Longrightarrow>
    inline_loop specs None s =
      (let (a, p, out) = inline_loop specs
         (Some \<lparr>act_tag = spec_tag (specs ! idx), act_close = spec_close (specs ! idx), act_content = []\<rparr>)
         (drop (i + length (spec_open (specs ! idx))) s)
       in (a, p, append_chunk (visible (take i s)) out))"
  by (subst inline_loop.simps(2)) (simp add: Let_def del: inline_loop.simps)

lemma inline_loop_append:
  assumes "wf_specs specs"
  shows "active_ok a \<Longrightarrow> inline_loop specs a (x @ y) =
    (let (a1, p1, o1) = inline_loop specs a x; (a2, p2, o2) = inline_loop specs a1 (p1 @ y)
     in (a2, p2, append_chunk o1 o2))"
  using assms
proof (induction specs a x rule: inline_loop.induct)
  case (1 specs active x)
  then have close: "act_close active \<noteq> []" "ascii_text (act_close active)" by simp_all
  show ?case
  proof (cases "str_find (act_close active) x")
    case (Some i)
    note after = str_find_append [OF Some, of y]
    have "drop (i + length (act_close active)) (x @ y) = drop (i + length (act_close active)) x @ y"
      "take i (x @ y) = take i x"
      using find_bound [OF Some] by simp_all
    with 1 Some after close show ?thesis
      by (auto simp: Let_def simp del: drop_append take_append split: prod.splits)
  next
    case None
    define n where "n = length x - longest_suffix_prefix_len x (act_close active)"
    define t p where "t = take n x" and "p = drop n x"
    have x: "x = t @ p" by (simp add: t_def p_def)
    have kept: "longest_suffix_prefix_len (t @ p) (act_close active) \<le> length p"
      using kept_is_prefix [of x "act_close active"] by (simp add: x [symmetric]) (simp add: p_def n_def)
    note find = find_in_kept [OF close(2) _ kept, of y] and keep = kept_shift [OF close(2) kept, of y]
    have n: "length x - longest_suffix_prefix_len x (act_close active) = length t"
      by (simp add: t_def n_def)
    have first: "inline_loop specs (Some active) x =
        (Some (active\<lparr>act_content := act_content active @ t\<rparr>), p, default_chunk)"
      using None by (simp add: Let_def n del: x) (simp add: x)
    show ?thesis
    proof (cases "str_find (act_close active) (p @ y)")
      case (Some j)
      then have "str_find (act_close active) (t @ p @ y) = Some (length t + j)"
        using find None x by simp
      with Some close show ?thesis
        unfolding first unfolding x
        by (simp add: Let_def split: prod.splits)
    next
      case none: None
      then have "str_find (act_close active) (t @ p @ y) = None" using find None x by simp
      moreover have "longest_suffix_prefix_len (p @ y) (act_close active) \<le> length (p @ y)"
        using kept_is_prefix by blast
      ultimately show ?thesis
        using none unfolding first unfolding x
        by (simp add: Let_def keep)
    qed
  qed
next
  case (2 specs x)
  show ?case
  proof (cases "find_next_open specs x")
    case (Some c)
    obtain i idx where c: "c = (i, idx)" by (cases c)
    note found = Some [unfolded c] and after = find_next_open_append [OF 2(3) Some [unfolded c], of y]
    have idx: "idx < length specs" "str_find (spec_open (specs ! idx)) x = Some i"
      using find_next_open_Some [OF found] by blast+
    note ok = wf_specs_nth [OF 2(3) idx(1)]
    let ?rest = "drop (i + length (spec_open (specs ! idx))) x"
    let ?act = "Some \<lparr>act_tag = spec_tag (specs ! idx), act_close = spec_close (specs ! idx), act_content = []\<rparr>"
    have IH: "inline_loop specs ?act (?rest @ y) =
      (let (a1, p1, o1) = inline_loop specs ?act ?rest; (a2, p2, o2) = inline_loop specs a1 (p1 @ y)
       in (a2, p2, append_chunk o1 o2))"
      using 2(1) [OF Some c [symmetric] _ refl] ok 2(3) by (simp del: inline_loop.simps)
    have "drop (i + length (spec_open (specs ! idx))) (x @ y) = ?rest @ y" "take i (x @ y) = take i x"
      using find_bound [OF idx(2)] by simp_all
    with IH show ?thesis
      using inline_loop_open [OF found] inline_loop_open [OF after] ok
      by (simp add: Let_def del: inline_loop.simps drop_append take_append split: prod.splits)
  next
    case None
    define n where "n = length x - max_open_prefix_suffix_len specs x"
    define t p where "t = take n x" and "p = drop n x"
    have x: "x = t @ p" by (simp add: t_def p_def)
    have kept: "max_open_prefix_suffix_len specs (t @ p) \<le> length p"
      using max_kept_bound [of specs x] by (simp add: x [symmetric]) (simp add: p_def n_def)
    note find = find_next_open_kept [OF 2(3) None [unfolded x] kept, of y]
    have n: "length x - max_open_prefix_suffix_len specs x = length t"
      by (simp add: t_def n_def)
    have first: "inline_loop specs None x = (None, p, visible t)"
      using None by (simp add: Let_def n) (simp add: x)
    show ?thesis
    proof (cases "find_next_open specs (p @ y)")
      case (Some c)
      obtain j idx where c: "c = (j, idx)" by (cases c)
      have "idx < length specs" using find_next_open_Some Some c by blast
      with Some c find(1) wf_specs_nth [OF 2(3)] show ?thesis
        unfolding first unfolding x
        by (simp add: Let_def split: prod.splits)
    next
      case none: None
      with find max_kept_bound [of specs "p @ y"] show ?thesis
        unfolding first unfolding x
        by (simp add: Let_def append_chunk_def visible_def)
    qed
  qed
qed

subsection \<open>The contract holds\<close>

definition inline_inv :: "'t inline_parser \<Rightarrow> bool" where
  "inline_inv p \<longleftrightarrow> wf_specs (inline_specs p) \<and> active_ok (inline_active p) \<and>
     inline_loop (inline_specs p) (inline_active p) (inline_pending p) =
       (inline_active p, inline_pending p, default_chunk)"

lemma inline_loop_close:
  "str_find (act_close active) s = Some i \<Longrightarrow> act_close active \<noteq> [] \<Longrightarrow>
    inline_loop specs (Some active) s =
      (let (a, p, out) = inline_loop specs None (drop (i + length (act_close active)) s)
       in (a, p, append_chunk (extraction (act_tag active) (act_content active @ take i s)) out))"
  by (subst inline_loop.simps(1)) (simp add: Let_def del: inline_loop.simps)

lemma inline_loop_active_ok:
  assumes "wf_specs specs"
  shows "active_ok a \<Longrightarrow> inline_loop specs a x = (a1, p1, o1) \<Longrightarrow> active_ok a1"
  using assms
proof (induction specs a x arbitrary: a1 p1 o1 rule: inline_loop.induct)
  case (1 specs active x)
  show ?case
  proof (cases "str_find (act_close active) x")
    case (Some i)
    from "1.prems" Some inline_loop_close [of active x i specs] obtain p2 o2 where
      "inline_loop specs None (drop (i + length (act_close active)) x) = (a1, p2, o2)"
      by (auto simp del: inline_loop.simps split: prod.splits)
    from "1.IH" [OF Some _ _ this] "1.prems" show ?thesis by simp
  next
    case None
    with "1.prems" show ?thesis by (auto simp: Let_def)
  qed
next
  case (2 specs x)
  show ?case
  proof (cases "find_next_open specs x")
    case (Some c)
    obtain i idx where c: "c = (i, idx)" by (cases c)
    have "idx < length specs" using find_next_open_Some Some c by blast
    note ok = wf_specs_nth [OF 2(4) this]
    with 2(3) inline_loop_open [OF Some [unfolded c]] obtain p2 o2 where
      "inline_loop specs (Some \<lparr>act_tag = spec_tag (specs ! idx), act_close = spec_close (specs ! idx), act_content = []\<rparr>)
         (drop (i + length (spec_open (specs ! idx))) x) = (a1, p2, o2)"
      by (auto simp del: inline_loop.simps split: prod.splits)
    from 2(1) [OF Some c [symmetric] _ refl _ this 2(4)] ok show ?thesis by simp
  next
    case None
    with 2(3) show ?thesis by (auto simp: Let_def)
  qed
qed

lemma append_chunk_unit: "append_chunk c d = c \<Longrightarrow> d = default_chunk"
  by (cases d) (auto simp: append_chunk_def default_chunk_def dest: arg_cong [of _ _ visible_text] arg_cong [of _ _ extracted])

lemma inline_loop_stable:
  assumes "wf_specs specs" "active_ok a" "inline_loop specs a x = (a1, p1, o1)"
  shows "inline_loop specs a1 p1 = (a1, p1, default_chunk)"
  using inline_loop_append [OF assms(1,2), of x "[]"] assms(3)
  by (auto simp: Let_def simp del: inline_loop.simps dest!: append_chunk_unit [OF sym] split: prod.splits)

lemma inline_push_inv:
  assumes "inline_inv p"
  shows "inline_inv (fst (inline_push_str p a))"
proof -
  obtain a1 p1 o1 where loop: "inline_loop (inline_specs p) (inline_active p) (inline_pending p @ a) = (a1, p1, o1)"
    by (metis prod_cases3)
  from assms have wf: "wf_specs (inline_specs p)" "active_ok (inline_active p)" by (simp_all add: inline_inv_def)
  from inline_loop_active_ok [OF wf(1,2) loop] inline_loop_stable [OF wf loop] wf(1) show ?thesis
    by (simp add: inline_inv_def inline_push_str_def loop del: inline_loop.simps)
qed

lemma inline_push_append:
  "inline_inv p \<Longrightarrow> inline_push_str p (a @ b) =
    (let (p1, o1) = inline_push_str p a; (p2, o2) = inline_push_str p1 b in (p2, append_chunk o1 o2))"
  using inline_loop_append [of "inline_specs p" "inline_active p" "inline_pending p @ a" b]
  by (auto simp: inline_inv_def inline_push_str_def Let_def simp del: inline_loop.simps split: prod.splits)

lemma inline_push_nil: "inline_inv p \<Longrightarrow> inline_push_str p [] = (p, default_chunk)"
  by (simp add: inline_inv_def inline_push_str_def del: inline_loop.simps)

text \<open>Every parser whose open tags are apart keeps the contract, whatever its tags.\<close>

interpretation inline: text_stream inline_push_str inline_finish inline_inv "\<lambda>xs. xs"
  by unfold_locales
     (auto simp: inline_push_append inline_push_nil inline_push_inv Let_def append_chunk_def split: prod.splits)

subsection \<open>Citations\<close>

datatype citation_tag = Citation

definition CITATION_OPEN :: string where
  "CITATION_OPEN = ''<oai-mem-citation>''"

definition CITATION_CLOSE :: string where
  "CITATION_CLOSE = ''</oai-mem-citation>''"

definition citation_spec :: "citation_tag inline_tag_spec" where
  "citation_spec = \<lparr>spec_tag = Citation, spec_open = CITATION_OPEN, spec_close = CITATION_CLOSE\<rparr>"

record citation_stream_parser =
  citation_inner :: "citation_tag inline_parser"

definition new_citation_parser :: citation_stream_parser where
  "new_citation_parser = \<lparr>citation_inner = the (new_inline_parser [citation_spec])\<rparr>"

definition citation_chunk ::
    "citation_tag extracted_inline_tag stream_text_chunk \<Rightarrow> string stream_text_chunk" where
  "citation_chunk c = \<lparr>visible_text = visible_text c, extracted = map ext_content (extracted c)\<rparr>"

definition citation_push_str :: "(citation_stream_parser, string) push_fn" where
  "citation_push_str p chunk =
     (case inline_push_str (citation_inner p) chunk of
        (inner, out) \<Rightarrow> (\<lparr>citation_inner = inner\<rparr>, citation_chunk out))"

definition citation_finish :: "(citation_stream_parser, string) finish_fn" where
  "citation_finish p =
     (case inline_finish (citation_inner p) of
        (inner, out) \<Rightarrow> (\<lparr>citation_inner = inner\<rparr>, citation_chunk out))"

definition strip_citations :: "string \<Rightarrow> string \<times> string list" where
  "strip_citations str =
     (let (p, out) = citation_push_str new_citation_parser str;
          (p', tail) = citation_finish p;
          all = append_chunk out tail
      in (visible_text all, extracted all))"

definition citation_inv :: "citation_stream_parser \<Rightarrow> bool" where
  "citation_inv p \<longleftrightarrow> inline_inv (citation_inner p)"

lemma citation_chunk_append: "citation_chunk (append_chunk a b) = append_chunk (citation_chunk a) (citation_chunk b)"
  by (simp add: citation_chunk_def append_chunk_def)

lemma citation_push_append:
  "citation_inv p \<Longrightarrow> citation_push_str p (a @ b) =
    (let (p1, o1) = citation_push_str p a; (p2, o2) = citation_push_str p1 b in (p2, append_chunk o1 o2))"
  by (auto simp: citation_push_str_def citation_inv_def inline_push_append citation_chunk_append Let_def split: prod.splits)

lemma citation_push_inv: "citation_inv p \<Longrightarrow> citation_inv (fst (citation_push_str p a))"
  using inline_push_inv [of "citation_inner p" a]
  by (auto simp: citation_push_str_def citation_inv_def split: prod.splits)

lemma citation_push_nil: "citation_inv p \<Longrightarrow> citation_push_str p [] = (p, default_chunk)"
  by (simp add: citation_push_str_def citation_inv_def inline_push_nil citation_chunk_def default_chunk_def)

interpretation citation: text_stream citation_push_str citation_finish citation_inv "\<lambda>xs. xs"
  by unfold_locales
     (auto simp: citation_push_append citation_push_nil citation_push_inv Let_def append_chunk_def split: prod.splits)

lemma new_citation_parser:
  "new_citation_parser =
    \<lparr>citation_inner = \<lparr>inline_specs = [citation_spec], inline_pending = [], inline_active = None\<rparr>\<rparr>"
  by (simp add: new_citation_parser_def new_inline_parser_def citation_spec_def CITATION_OPEN_def CITATION_CLOSE_def)

lemma wf_citation: "wf_specs [citation_spec]"
  by (simp add: wf_specs_def citation_spec_def CITATION_OPEN_def CITATION_CLOSE_def ascii_text_def ascii_def)

lemma citation_inv_new [simp]: "citation_inv new_citation_parser"
proof -
  have "inline_loop [citation_spec] None [] = (None, [], default_chunk)" by code_simp
  then show ?thesis
    by (simp add: citation_inv_def inline_inv_def new_citation_parser wf_citation del: inline_loop.simps)
qed

text \<open>What citations are in a whole text: literal, not nested, closed by the end of the text.\<close>

lemma cited_less: "str_find CITATION_OPEN s = Some i \<Longrightarrow> length s - (n + (i + length CITATION_OPEN)) < length s"
  using find_drains [of CITATION_OPEN s i] by (simp add: CITATION_OPEN_def)

function cited :: "string \<Rightarrow> string \<times> string list" where
  "cited str =
     (case str_find CITATION_OPEN str of
        None \<Rightarrow> (str, [])
      | Some i \<Rightarrow>
          (let body = drop (i + length CITATION_OPEN) str in
           case str_find CITATION_CLOSE body of
             None \<Rightarrow> (take i str, [body])
           | Some j \<Rightarrow>
               (let (seen, citations) = cited (drop (j + length CITATION_CLOSE) body)
                in (take i str @ seen, take j body # citations))))"
  by pat_completeness auto
termination
  by (relation "measure length") (auto dest: cited_less)

declare cited.simps [simp del]

subsection \<open>Properties\<close>

lemma find_next_open_one: "find_next_open [spec] s = map_option (\<lambda>i. (i, 0)) (str_find (spec_open spec) s)"
  by (cases "str_find (spec_open spec) s")
     (simp_all add: find_next_open_def open_candidates_def map_filter_simps)

definition flush ::
    "'t active_inline_tag option \<times> string \<times> 't extracted_inline_tag stream_text_chunk
     \<Rightarrow> string \<times> string list" where
  "flush r =
     (case r of (a, p, out) \<Rightarrow>
        (visible_text out @ (if a = None then p else []),
         map ext_content (extracted out) @ (case a of None \<Rightarrow> [] | Some act \<Rightarrow> [act_content act @ p])))"

lemma strip_citations_flush: "strip_citations str = flush (inline_loop [citation_spec] None str)"
  by (auto simp: strip_citations_def citation_push_str_def citation_finish_def new_citation_parser
      inline_push_str_def inline_finish_def citation_chunk_def append_chunk_def flush_def visible_def
      extraction_def Let_def simp del: inline_loop.simps split: prod.splits option.splits)

lemma flush_append:
  "flush (a, p, append_chunk out out') =
     (visible_text out @ fst (flush (a, p, out')), map ext_content (extracted out) @ snd (flush (a, p, out')))"
  by (simp add: flush_def append_chunk_def)

lemma flush_unclosed:
  "str_find (act_close act) s = None \<Longrightarrow> flush (inline_loop specs (Some act) s) = ([], [act_content act @ s])"
  by (simp add: Let_def flush_def default_chunk_def)

lemma cited_flush: "flush (inline_loop [citation_spec] None str) = cited str"
proof (induction str rule: cited.induct)
  case (1 str)
  show ?case
  proof (cases "str_find CITATION_OPEN str")
    case None
    then show ?thesis
      by (simp add: find_next_open_one citation_spec_def Let_def flush_def visible_def cited.simps)
  next
    case (Some i)
    let ?body = "drop (i + length CITATION_OPEN) str"
    let ?act = "Some \<lparr>act_tag = Citation, act_close = CITATION_CLOSE, act_content = []\<rparr>"
    have ne: "CITATION_OPEN \<noteq> []" "CITATION_CLOSE \<noteq> []" by (simp_all add: CITATION_OPEN_def CITATION_CLOSE_def)
    obtain a p out where body: "inline_loop [citation_spec] ?act ?body = (a, p, out)" by (metis prod_cases3)
    have "inline_loop [citation_spec] None str = (a, p, append_chunk (visible (take i str)) out)"
      using inline_loop_open [of "[citation_spec]" str i 0] Some body ne
      by (simp add: find_next_open_one citation_spec_def del: inline_loop.simps)
    then have fl: "flush (inline_loop [citation_spec] None str) =
        (take i str @ fst (flush (a, p, out)), snd (flush (a, p, out)))"
      by (simp add: flush_append visible_def del: inline_loop.simps)
    show ?thesis
    proof (cases "str_find CITATION_CLOSE ?body")
      case None
      then have "flush (a, p, out) = ([], [?body])"
        using flush_unclosed [of "the ?act" ?body "[citation_spec]"] body by (simp del: inline_loop.simps)
      with fl Some None show ?thesis by (simp add: cited.simps [of str] del: inline_loop.simps)
    next
      case close: (Some j)
      let ?rest = "drop (j + length CITATION_CLOSE) ?body"
      have IH: "flush (inline_loop [citation_spec] None ?rest) = cited ?rest"
        by (rule "1.IH" [OF Some refl close])
      obtain a' p' out' where rest: "inline_loop [citation_spec] None ?rest = (a', p', out')" by (metis prod_cases3)
      with body inline_loop_close [of "the ?act" ?body j "[citation_spec]"] close ne
      have "(a, p, out) = (a', p', append_chunk (extraction Citation (take j ?body)) out')"
        by (simp del: inline_loop.simps drop_drop)
      then have "flush (a, p, out) = (fst (cited ?rest), take j ?body # snd (cited ?rest))"
        using IH rest by (simp add: flush_append extraction_def del: inline_loop.simps drop_drop)
      with fl Some close show ?thesis
        by (simp add: cited.simps [of str] Let_def split_def del: inline_loop.simps drop_drop)
    qed
  qed
qed

text \<open>
  \<open>strip_citations\<close> hides exactly the citations of the text: reading from the left, each
  literal open tag starts a citation that runs to the next close tag, or to the end of the
  text, tags inside a citation being plain text; the rest of the text is visible, in order.
\<close>

theorem strip_citations_correct: "strip_citations str = cited str"
  by (simp add: strip_citations_flush cited_flush del: inline_loop.simps)

text \<open>
  Citations over raw bytes: however the bytes of a valid UTF-8 text are cut, also inside
  a tag or inside a code point, the byte wrapper around the citation parser accepts them all,
  and the visible text and the citations are those of the whole text.
\<close>

theorem citation_chunks_do_not_matter:
  assumes "valid_utf8 (concat chunks)"
  shows "collect_bytes citation_push_str citation_finish (new_utf8_stream_parser new_citation_parser) chunks =
    Inr \<lparr>visible_text = fst (strip_citations (concat chunks)), extracted = snd (strip_citations (concat chunks))\<rparr>"
proof -
  have whole: "whole_text citation_push_str citation_finish new_citation_parser str =
      \<lparr>visible_text = fst (strip_citations str), extracted = snd (strip_citations str)\<rparr>" for str
    by (simp add: whole_text_def strip_citations_def Let_def append_chunk_def split: prod.splits)
  from citation.chunks_do_not_matter [OF citation_inv_new assms] show ?thesis
    by (auto simp: citation.same_def whole)
qed

theorem citation_chunks_do_not_matter_witness:
  "collect_bytes citation_push_str citation_finish (new_utf8_stream_parser new_citation_parser)
     [''A'' @ [CHR 0xC3], CHR 0xA9 # ''<oai-mem'', ''-citation>'' @ [CHR 0xE4],
      [CHR 0xB8, CHR 0xAD] @ ''</oai-mem-citation'', ''>Z'', ''<oai''] =
   Inr \<lparr>visible_text = ''A'' @ [CHR 0xC3, CHR 0xA9] @ ''Z<oai'', extracted = [[CHR 0xE4, CHR 0xB8, CHR 0xAD]]\<rparr>"
proof -
  let ?cs = "[''A'' @ [CHR 0xC3], CHR 0xA9 # ''<oai-mem'', ''-citation>'' @ [CHR 0xE4],
      [CHR 0xB8, CHR 0xAD] @ ''</oai-mem-citation'', ''>Z'', ''<oai'']"
  have "valid_utf8 (concat ?cs)" by code_simp
  moreover have "strip_citations (concat ?cs) =
      (''A'' @ [CHR 0xC3, CHR 0xA9] @ ''Z<oai'', [[CHR 0xE4, CHR 0xB8, CHR 0xAD]])" by code_simp
  ultimately show ?thesis using citation_chunks_do_not_matter [of ?cs] by simp
qed

text \<open>
  With one open tag inside another the cut does matter, so \<open>wf_specs\<close> is needed: the parser
  that knows \<open><a>\<close> and \<open><a>b\<close> takes the longer tag only if it arrives in one piece.
\<close>

lemma cut_matters_with_nested_tags:
  "let specs = [\<lparr>spec_tag = (0::nat), spec_open = ''<a>'', spec_close = ''.''\<rparr>,
                \<lparr>spec_tag = 1, spec_open = ''<a>b'', spec_close = ''.''\<rparr>];
       p = the (new_inline_parser specs)
   in extracted (snd (inline_push_str p ''<a>bc.'')) = [\<lparr>ext_tag = 1, ext_content = ''c''\<rparr>] \<and>
      extracted (snd (inline_push_str (fst (inline_push_str p ''<a>'')) ''bc.'')) = [\<lparr>ext_tag = 0, ext_content = ''bc''\<rparr>]"
  by code_simp

end
