(* ===== verification/Tagged_Lines.thy ===== *)
theory Tagged_Lines
  imports Text_Stream
begin

section \<open>Tag blocks that stand on lines of their own\<close>

text \<open>
  \<open>codex-rs/utils/stream-parser/src/tagged_line_parser.rs\<close>: a line is held back while it may
  still be a tag, everything else is passed on at once; and \<open>proposed_plan.rs\<close>, its use for
  \<open><proposed_plan>\<close> blocks. The code walks a delta by scalar value, so the model walks
  \<open>chars\<close> of it.
\<close>

subsection \<open>State\<close>

record 't tag_spec =
  tag_open :: string
  tag_close :: string
  tag_value :: 't

datatype 't tagged_line_segment =
    Normal string | TagStart 't | TagDelta 't string | TagEnd 't

record 't tagged_line_parser =
  tag_specs :: "'t tag_spec list"
  active_tag :: "'t option"
  detect_tag :: bool
  tag_line_buffer :: string

definition new_tagged_line_parser :: "'t tag_spec list \<Rightarrow> 't tagged_line_parser" where
  "new_tagged_line_parser specs =
     \<lparr>tag_specs = specs, active_tag = None, detect_tag = True, tag_line_buffer = []\<rparr>"

subsection \<open>Segments\<close>

text \<open>\<open>push_segment\<close>: empty text is dropped, and text joins a last segment of its kind.\<close>

fun push_segment :: "'t tagged_line_segment \<Rightarrow> 't tagged_line_segment list \<Rightarrow> 't tagged_line_segment list" where
  "push_segment (Normal delta) segments =
     (if delta = [] then segments
      else (case rev segments of
              Normal existing # earlier \<Rightarrow> rev earlier @ [Normal (existing @ delta)]
            | _ \<Rightarrow> segments @ [Normal delta]))"
| "push_segment (TagDelta tag delta) segments =
     (if delta = [] then segments
      else (case rev segments of
              TagDelta existing_tag existing # earlier \<Rightarrow>
                if existing_tag = tag then rev earlier @ [TagDelta tag (existing @ delta)]
                else segments @ [TagDelta tag delta]
            | _ \<Rightarrow> segments @ [TagDelta tag delta]))"
| "push_segment (TagStart tag) segments = segments @ [TagStart tag]"
| "push_segment (TagEnd tag) segments = segments @ [TagEnd tag]"

definition text_segment :: "'t option \<Rightarrow> string \<Rightarrow> 't tagged_line_segment" where
  "text_segment active str = (case active of Some tag \<Rightarrow> TagDelta tag str | None \<Rightarrow> Normal str)"

definition push_text ::
    "'t tagged_line_parser \<Rightarrow> string \<Rightarrow> 't tagged_line_segment list \<Rightarrow> 't tagged_line_segment list" where
  "push_text p str segments = push_segment (text_segment (active_tag p) str) segments"

subsection \<open>Lines\<close>

definition is_tag_prefix :: "'t tag_spec list \<Rightarrow> string \<Rightarrow> bool" where
  "is_tag_prefix specs slug \<longleftrightarrow>
     (\<exists>spec \<in> set specs. starts_with (tag_open spec) (trim_end slug) \<or> starts_with (tag_close spec) (trim_end slug))"

definition match_open :: "'t tag_spec list \<Rightarrow> string \<Rightarrow> 't option" where
  "match_open specs slug = map_option tag_value (List.find (\<lambda>spec. tag_open spec = slug) specs)"

definition match_close :: "'t tag_spec list \<Rightarrow> string \<Rightarrow> 't option" where
  "match_close specs slug = map_option tag_value (List.find (\<lambda>spec. tag_close spec = slug) specs)"

definition without_newline :: "string \<Rightarrow> string" where
  "without_newline line = (case strip_suffix [CHR 0x0A] line of None \<Rightarrow> line | Some l \<Rightarrow> l)"

text \<open>What a whole line is: a tag that opens or closes a block here, or text.\<close>

definition line_segment ::
    "'t tag_spec list \<Rightarrow> 't option \<Rightarrow> string \<Rightarrow> 't option \<times> 't tagged_line_segment" where
  "line_segment specs active line =
     (let slug = trim_end (trim_start (without_newline line)) in
      case (match_open specs slug, match_close specs slug) of
        (Some tag, close) \<Rightarrow>
          if active = None then (Some tag, TagStart tag)
          else if close \<noteq> None \<and> active = close then (None, TagEnd (the close))
          else (active, text_segment active line)
      | (None, Some tag) \<Rightarrow>
          if active = Some tag then (None, TagEnd tag) else (active, text_segment active line)
      | (None, None) \<Rightarrow> (active, text_segment active line))"

definition finish_line ::
    "'t tagged_line_parser \<Rightarrow> 't tagged_line_segment list \<Rightarrow> 't tagged_line_parser \<times> 't tagged_line_segment list" where
  "finish_line p segments =
     (let (active, segment) = line_segment (tag_specs p) (active_tag p) (tag_line_buffer p)
      in (p\<lparr>tag_line_buffer := [], active_tag := active, detect_tag := True\<rparr>, push_segment segment segments))"

fun parse_chars ::
    "'t tagged_line_parser \<Rightarrow> string \<Rightarrow> 't tagged_line_segment list \<Rightarrow> string list
     \<Rightarrow> 't tagged_line_parser \<times> 't tagged_line_segment list" where
  "parse_chars p run segments [] = (p, if run \<noteq> [] then push_text p run segments else segments)"
| "parse_chars p run segments (ch # cs) =
     (if detect_tag p then
        (let segments = (if run \<noteq> [] then push_text p run segments else segments);
             buffered = tag_line_buffer p @ ch
         in if ch = [CHR 0x0A] then
              (let (p', segments) = finish_line (p\<lparr>tag_line_buffer := buffered\<rparr>) segments
               in parse_chars p' [] segments cs)
            else
              (let slug = trim_start buffered
               in if slug = [] \<or> is_tag_prefix (tag_specs p) slug
                  then parse_chars (p\<lparr>tag_line_buffer := buffered\<rparr>) [] segments cs
                  else parse_chars (p\<lparr>tag_line_buffer := [], detect_tag := False\<rparr>) []
                         (push_text p buffered segments) cs))
      else if ch = [CHR 0x0A]
        then parse_chars (p\<lparr>detect_tag := True\<rparr>) [] (push_text p (run @ ch) segments) cs
      else parse_chars p (run @ ch) segments cs)"

definition tagged_parse ::
    "'t tagged_line_parser \<Rightarrow> string \<Rightarrow> 't tagged_line_parser \<times> 't tagged_line_segment list" where
  "tagged_parse p delta = parse_chars p [] [] (chars delta)"

definition tagged_finish ::
    "'t tagged_line_parser \<Rightarrow> 't tagged_line_parser \<times> 't tagged_line_segment list" where
  "tagged_finish p =
     (let (p1, segments) =
        (if tag_line_buffer p \<noteq> [] then finish_line p [] else (p, []));
          segments =
            (case active_tag p1 of None \<Rightarrow> segments | Some tag \<Rightarrow> push_segment (TagEnd tag) segments)
      in (p1\<lparr>active_tag := None, detect_tag := True\<rparr>, segments))"

subsection \<open>The proposed plan\<close>

definition OPEN_TAG :: string where
  "OPEN_TAG = ''<proposed_plan>''"

definition CLOSE_TAG :: string where
  "CLOSE_TAG = ''</proposed_plan>''"

datatype plan_tag = ProposedPlan

datatype proposed_plan_segment =
    PlanNormal string | ProposedPlanStart | ProposedPlanDelta string | ProposedPlanEnd

record proposed_plan_parser =
  plan_parser :: "plan_tag tagged_line_parser"

definition plan_spec :: "plan_tag tag_spec" where
  "plan_spec = \<lparr>tag_open = OPEN_TAG, tag_close = CLOSE_TAG, tag_value = ProposedPlan\<rparr>"

definition new_proposed_plan_parser :: proposed_plan_parser where
  "new_proposed_plan_parser = \<lparr>plan_parser = new_tagged_line_parser [plan_spec]\<rparr>"

fun map_segment :: "plan_tag tagged_line_segment \<Rightarrow> proposed_plan_segment" where
  "map_segment (Normal str) = PlanNormal str"
| "map_segment (TagStart ProposedPlan) = ProposedPlanStart"
| "map_segment (TagDelta ProposedPlan str) = ProposedPlanDelta str"
| "map_segment (TagEnd ProposedPlan) = ProposedPlanEnd"

fun plan_visible :: "proposed_plan_segment \<Rightarrow> string" where
  "plan_visible (PlanNormal str) = str"
| "plan_visible _ = []"

definition map_segments :: "plan_tag tagged_line_segment list \<Rightarrow> proposed_plan_segment stream_text_chunk" where
  "map_segments segments =
     \<lparr>visible_text = concat (map (plan_visible \<circ> map_segment) segments), extracted = map map_segment segments\<rparr>"

definition plan_push_str :: "(proposed_plan_parser, proposed_plan_segment) push_fn" where
  "plan_push_str p chunk =
     (case tagged_parse (plan_parser p) chunk of
        (inner, segments) \<Rightarrow> (\<lparr>plan_parser = inner\<rparr>, map_segments segments))"

definition plan_finish :: "(proposed_plan_parser, proposed_plan_segment) finish_fn" where
  "plan_finish p =
     (case tagged_finish (plan_parser p) of
        (inner, segments) \<Rightarrow> (\<lparr>plan_parser = inner\<rparr>, map_segments segments))"

definition strip_proposed_plan_blocks :: "string \<Rightarrow> string" where
  "strip_proposed_plan_blocks str =
     (let (p, out) = plan_push_str new_proposed_plan_parser str
      in visible_text out @ visible_text (snd (plan_finish p)))"

text \<open>The loop of \<open>extract_proposed_plan_text\<close>: the text of the last block, if there is one.\<close>

fun plan_text_step :: "proposed_plan_segment \<Rightarrow> bool \<times> string \<Rightarrow> bool \<times> string" where
  "plan_text_step ProposedPlanStart _ = (True, [])"
| "plan_text_step (ProposedPlanDelta delta) (saw, plan_text) = (saw, plan_text @ delta)"
| "plan_text_step _ acc = acc"

definition extract_proposed_plan_text :: "string \<Rightarrow> string option" where
  "extract_proposed_plan_text str =
     (let (p, out) = plan_push_str new_proposed_plan_parser str;
          (saw_plan_block, plan_text) =
            fold plan_text_step (extracted out @ extracted (snd (plan_finish p))) (False, [])
      in if saw_plan_block then Some plan_text else None)"

subsection \<open>Joining segments\<close>

definition join_segments ::
    "'t tagged_line_segment list \<Rightarrow> 't tagged_line_segment list \<Rightarrow> 't tagged_line_segment list" where
  "join_segments earlier later = fold push_segment later earlier"

lemma push_text_nil [simp]: "push_segment (text_segment a []) segs = segs"
  by (cases a) (auto simp: text_segment_def)

lemma push_text_twice:
  "push_segment (text_segment a (x @ y)) segs = push_segment (text_segment a y) (push_segment (text_segment a x) segs)"
  by (cases a; cases "rev segs"; cases "hd (rev segs)") (auto simp: text_segment_def)

lemma push_normal_twice:
  "push_segment (Normal (x @ y)) segs = push_segment (Normal y) (push_segment (Normal x) segs)"
  using push_text_twice [of None x y segs] by (simp only: text_segment_def option.case)

lemma push_delta_twice:
  "push_segment (TagDelta tag (x @ y)) segs = push_segment (TagDelta tag y) (push_segment (TagDelta tag x) segs)"
  using push_text_twice [of "Some tag" x y segs] by (simp only: text_segment_def option.case)

lemma join_segments_simps [simp]:
  "join_segments a [] = a"
  "join_segments a (xs @ [x]) = push_segment x (join_segments a xs)"
  by (simp_all add: join_segments_def)

lemma join_segments_append: "join_segments a (xs @ ys) = join_segments (join_segments a xs) ys"
  by (simp add: join_segments_def)

lemma push_segment_cases:
  obtains (empty) "push_segment x segs = segs" "\<And>segs. push_segment x segs = segs"
  | (normal) ss e d where "segs = ss @ [Normal e]" "x = Normal d" "push_segment x segs = ss @ [Normal (e @ d)]"
  | (delta) ss t e d where "segs = ss @ [TagDelta t e]" "x = TagDelta t d"
      "push_segment x segs = ss @ [TagDelta t (e @ d)]"
  | (other) "push_segment x segs = segs @ [x]"
proof (cases "x = Normal [] \<or> (\<exists>t. x = TagDelta t [])")
  case True
  then have "push_segment x segs = segs" for segs by auto
  then show thesis using empty by blast
next
  case nonempty: False
  show thesis
  proof (cases segs rule: rev_cases)
    case Nil
    then show thesis using nonempty other by (cases x) auto
  next
    case (snoc ss s)
    then have "(\<exists>e d. s = Normal e \<and> x = Normal d \<and> push_segment x segs = ss @ [Normal (e @ d)]) \<or>
        (\<exists>t e d. s = TagDelta t e \<and> x = TagDelta t d \<and> push_segment x segs = ss @ [TagDelta t (e @ d)]) \<or>
        push_segment x segs = segs @ [x]"
      using nonempty by (cases x; cases s) auto
    with snoc show thesis using normal delta other by blast
  qed
qed

lemma join_push: "join_segments a (push_segment x segs) = push_segment x (join_segments a segs)"
proof (cases rule: push_segment_cases [of x segs])
  case (normal ss e d)
  then show ?thesis by (simp only: join_segments_simps push_normal_twice)
next
  case (delta ss t e d)
  then show ?thesis by (simp only: join_segments_simps push_delta_twice)
qed (simp_all del: push_segment.simps)

lemma join_assoc: "join_segments a (join_segments b xs) = join_segments (join_segments a b) xs"
  by (induction xs rule: rev_induct) (simp_all add: join_push)

lemma join_join: "join_segments a (join_segments [] xs) = join_segments a xs"
  by (induction xs rule: rev_induct) (simp_all add: join_push)

subsection \<open>Cutting the input does not matter\<close>

lemma parse_chars_run: "parse_chars p run segs cs = parse_chars p [] (push_text p run segs) cs"
proof (induction cs arbitrary: p run segs)
  case Nil
  then show ?case by (simp add: push_text_def)
next
  case (Cons ch cs)
  show ?case
  proof (cases "detect_tag p \<or> ch = [CHR 0x0A]")
    case True
    then show ?thesis by (auto simp: Let_def push_text_def push_text_twice)
  next
    case False
    then have "parse_chars p run segs (ch # cs) = parse_chars p [] (push_text p (run @ ch) segs) cs"
      using Cons.IH [of p "run @ ch" segs] by simp
    also have "\<dots> = parse_chars p [] (push_text p ch (push_text p run segs)) cs"
      by (simp add: push_text_def push_text_twice)
    also have "\<dots> = parse_chars p [] (push_text p run segs) (ch # cs)"
      using Cons.IH [of p ch "push_text p run segs"] False by simp
    finally show ?thesis .
  qed
qed

lemma parse_chars_append:
  "parse_chars p run segs (a @ b) = (case parse_chars p run segs a of (p1, segs1) \<Rightarrow> parse_chars p1 [] segs1 b)"
proof (induction p run segs a rule: parse_chars.induct)
  case (1 p run segs)
  show ?case using parse_chars_run [of p run segs b] by (simp add: push_text_def)
next
  case (2 p run segs ch cs)
  then show ?case by (simp add: Let_def split: prod.splits)
qed

lemma parse_chars_join:
  "parse_chars p run (join_segments a segs) cs =
    (case parse_chars p run segs cs of (p1, segs1) \<Rightarrow> (p1, join_segments a segs1))"
proof (induction cs arbitrary: p run segs)
  case Nil
  show ?case by (simp add: push_text_def join_push)
next
  case (Cons ch cs)
  have flush: "(if run \<noteq> [] then push_text p run (join_segments a segs) else join_segments a segs) =
      join_segments a (if run \<noteq> [] then push_text p run segs else segs)"
    by (simp add: push_text_def join_push)
  have fin: "finish_line q (join_segments a ss) = (case finish_line q ss of (q', ss') \<Rightarrow> (q', join_segments a ss'))" for q ss
    by (simp add: finish_line_def join_push split_def Let_def)
  have out: "push_text q str (join_segments a ss) = join_segments a (push_text q str ss)" for q str ss
    by (simp add: push_text_def join_push)
  show ?case
  proof (cases "detect_tag p")
    case True
    define g where "g = (if run \<noteq> [] then push_text p run segs else segs)"
    have g: "(if run \<noteq> [] then push_text p run (join_segments a segs) else join_segments a segs) = join_segments a g"
      unfolding g_def by (rule flush)
    obtain q ss where line: "finish_line (p\<lparr>tag_line_buffer := tag_line_buffer p @ ch\<rparr>) g = (q, ss)" by fastforce
    show ?thesis
      unfolding parse_chars.simps if_P [OF True] Let_def g g_def [symmetric] fin line
      by (simp add: out Cons.IH)
  next
    case False
    then show ?thesis
      by (simp only: parse_chars.simps Let_def out Cons.IH if_False split: if_splits) simp
  qed
qed

lemma tagged_parse_append:
  assumes "valid_utf8 a"
  shows "tagged_parse p (a @ b) =
    (let (p1, s1) = tagged_parse p a; (p2, s2) = tagged_parse p1 b in (p2, join_segments s1 s2))"
proof -
  obtain p1 s1 where one: "parse_chars p [] [] (chars a) = (p1, s1)" by fastforce
  have "parse_chars p1 [] s1 (chars b) =
      (case parse_chars p1 [] [] (chars b) of (p2, s2) \<Rightarrow> (p2, join_segments s1 s2))"
    using parse_chars_join [of p1 "[]" s1 "[]" "chars b"] by simp
  with one show ?thesis
    by (simp add: tagged_parse_def chars_valid_append [OF assms] parse_chars_append)
qed

text \<open>Segments of a plan may come in pieces; joined, they mean the same.\<close>

fun unmap_segment :: "proposed_plan_segment \<Rightarrow> plan_tag tagged_line_segment" where
  "unmap_segment (PlanNormal str) = Normal str"
| "unmap_segment ProposedPlanStart = TagStart ProposedPlan"
| "unmap_segment (ProposedPlanDelta str) = TagDelta ProposedPlan str"
| "unmap_segment ProposedPlanEnd = TagEnd ProposedPlan"

definition plan_joined :: "proposed_plan_segment list \<Rightarrow> proposed_plan_segment list" where
  "plan_joined segs = map map_segment (join_segments [] (map unmap_segment segs))"

lemma unmap_map [simp]: "unmap_segment (map_segment s) = s"
  by (cases s rule: map_segment.cases) simp_all

lemma map_unmap [simp]: "map_segment (unmap_segment s) = s"
  by (cases s) simp_all

lemma plan_joined_map: "plan_joined (map map_segment segs) = map map_segment (join_segments [] segs)"
  by (simp add: plan_joined_def comp_def)

lemma map_segment_inj: "map map_segment xs = map map_segment ys \<longleftrightarrow> xs = ys"
  by (rule inj_map_eq_map) (metis injI unmap_map)

lemma plan_joined_cong:
  "plan_joined xs = plan_joined xs' \<Longrightarrow> plan_joined ys = plan_joined ys' \<Longrightarrow>
    plan_joined (xs @ ys) = plan_joined (xs' @ ys')"
  unfolding plan_joined_def map_segment_inj map_append join_segments_append
  by (metis join_join)

definition segments_visible :: "plan_tag tagged_line_segment list \<Rightarrow> string" where
  "segments_visible segs = concat (map (plan_visible \<circ> map_segment) segs)"

lemma segments_visible_push:
  "segments_visible (push_segment x segs) = segments_visible segs @ plan_visible (map_segment x)"
proof (cases rule: push_segment_cases [of x segs])
  case empty
  from empty(2) [of "[]"] have "plan_visible (map_segment x) = []"
    by (cases x rule: map_segment.cases) (auto split: if_splits)
  with empty(1) show ?thesis by simp
next
  case (delta ss t e d)
  then show ?thesis by (cases t) (simp add: segments_visible_def)
qed (simp_all add: segments_visible_def del: push_segment.simps)

lemma segments_visible_join:
  "segments_visible (join_segments a b) = segments_visible a @ segments_visible b"
proof (induction b rule: rev_induct)
  case (snoc x b)
  then show ?case by (simp add: segments_visible_push del: push_segment.simps) (simp add: segments_visible_def)
qed (simp add: segments_visible_def)

lemma plan_push_append:
  assumes "valid_utf8 a"
  shows "plan_push_str p (a @ b) =
    (let (p1, s1) = tagged_parse (plan_parser p) a; (p2, s2) = tagged_parse p1 b
     in (\<lparr>plan_parser = p2\<rparr>, map_segments (join_segments s1 s2)))"
  by (simp add: plan_push_str_def tagged_parse_append [OF assms] Let_def split: prod.splits)

interpretation plan: text_stream plan_push_str plan_finish "\<lambda>_. True" plan_joined
proof (unfold_locales, goal_cases)
  case (1 p)
  then show ?case
    by (cases p) (simp add: plan_push_str_def tagged_parse_def map_segments_def default_chunk_def)
next
  case (6 xs xs' ys ys')
  then show ?case by (rule plan_joined_cong)
next
  case (5 p a b)
  then show ?case
    by (simp add: plan_push_append, simp add: plan_push_str_def map_segments_def Let_def plan_joined_map
        join_join flip: map_append split: prod.splits) (simp add: join_segments_append join_assoc)
next
  case (4 p a b)
  then show ?case
    by (simp add: plan_push_append, simp add: plan_push_str_def map_segments_def Let_def
        flip: segments_visible_def split: prod.splits) (simp add: segments_visible_join)
qed (auto simp: plan_push_append, auto simp: plan_push_str_def Let_def split: prod.splits)

subsection \<open>What the parser means: lines\<close>

text \<open>The lines of a text, each with its newline.\<close>

fun char_lines :: "string list \<Rightarrow> string list list" where
  "char_lines [] = []"
| "char_lines (c # cs) =
     (if c = [CHR 0x0A] then [c] # char_lines cs
      else (case char_lines cs of [] \<Rightarrow> [[c]] | l # ls \<Rightarrow> (c # l) # ls))"

definition text_lines :: "string \<Rightarrow> string list" where
  "text_lines str = map concat (char_lines (chars str))"

fun line_segments ::
    "'t tag_spec list \<Rightarrow> 't option \<Rightarrow> string list \<Rightarrow> 't tagged_line_segment list" where
  "line_segments specs active [] = (case active of None \<Rightarrow> [] | Some tag \<Rightarrow> [TagEnd tag])"
| "line_segments specs active (l # ls) =
     snd (line_segment specs active l) # line_segments specs (fst (line_segment specs active l)) ls"

lemma char_lines_Nil [simp]: "char_lines cs = [] \<longleftrightarrow> cs = []"
  by (cases cs) (auto split: list.splits)

lemma char_lines_append:
  "[CHR 0x0A] \<notin> set bl \<Longrightarrow> bl \<noteq> [] \<Longrightarrow>
    char_lines (bl @ cs) = (case char_lines cs of [] \<Rightarrow> [bl] | l # ls \<Rightarrow> (bl @ l) # ls)"
proof (induction bl)
  case (Cons b bl)
  then show ?case by (cases "bl = []") (auto split: list.splits)
qed simp

lemma char_lines_newline: "[CHR 0x0A] \<notin> set bl \<Longrightarrow> char_lines (bl @ [CHR 0x0A] # cs) = (bl @ [[CHR 0x0A]]) # char_lines cs"
  by (cases "bl = []") (simp_all add: char_lines_append)

text \<open>A newline is the last character of its line; the lines make up the text.\<close>

lemma char_lines_first:
  "char_lines cs = l # ls \<Longrightarrow> (\<exists>l' m. (l = l' \<or> l = l' @ [[CHR 0x0A]]) \<and> [CHR 0x0A] \<notin> set l' \<and> cs = l @ m)"
proof (induction cs arbitrary: l ls)
  case (Cons c cs)
  show ?case
  proof (cases "c = [CHR 0x0A]")
    case True
    with Cons.prems show ?thesis by (intro exI [of _ "[]"] exI [of _ cs]) auto
  next
    case False
    show ?thesis
    proof (cases "char_lines cs")
      case Nil
      with Cons.prems False show ?thesis by (intro exI [of _ "[c]"] exI [of _ "[]"]) auto
    next
      case (Cons k ks)
      with Cons.IH [OF this] Cons.prems False obtain k' m where
        "l = c # k" "k = k' \<or> k = k' @ [[CHR 0x0A]]" "[CHR 0x0A] \<notin> set k'" "cs = k @ m" by auto
      with False show ?thesis by (intro exI [of _ "c # k'"] exI [of _ m]) auto
    qed
  qed
qed simp

text \<open>A line that begins with no prefix of a tag is not a tag.\<close>

lemma drop_tail_append: "\<exists>r. drop_tail (D @ l) = drop_tail D @ r"
proof (cases "\<forall>c \<in> set l. is_whitespace c")
  case True
  then have "drop_tail (D @ l) = drop_tail D" by (simp add: drop_tail_def dropWhile_append)
  then show ?thesis by simp
next
  case False
  then have "dropWhile is_whitespace (rev l @ rev D) = dropWhile is_whitespace (rev l) @ rev D"
    by (auto simp: dropWhile_append)
  then have "drop_tail (D @ l) = D @ drop_tail l" by (simp add: drop_tail_def)
  moreover have "rev D = takeWhile is_whitespace (rev D) @ dropWhile is_whitespace (rev D)" by simp
  then have "D = drop_tail D @ rev (takeWhile is_whitespace (rev D))"
    unfolding drop_tail_def by (metis rev_append rev_rev_ident)
  ultimately show ?thesis by (metis append.assoc)
qed

lemma disproved_slug:
  assumes "sequences (bl @ l)" and "trim_start (concat bl) \<noteq> []"
  shows "\<exists>r. trim_end (trim_start (concat (bl @ l))) = trim_end (trim_start (concat bl)) @ r"
proof -
  have chars: "chars (concat (bl @ l)) = bl @ l" "chars (concat bl) = bl"
    using assms(1) sequences_append chars_concat by blast+
  then have ne: "dropWhile is_whitespace bl \<noteq> []"
    using assms(2) by (metis chars_eq_Nil chars_trim_start)
  have "chars (trim_end (trim_start (concat (bl @ l)))) = drop_tail (dropWhile is_whitespace bl @ l)"
    using ne by (simp only: chars_trim_end chars_trim_start chars) (auto simp: dropWhile_append)
  moreover have "chars (trim_end (trim_start (concat bl))) = drop_tail (dropWhile is_whitespace bl)"
    by (simp only: chars_trim_end chars_trim_start chars)
  ultimately obtain r where "chars (trim_end (trim_start (concat (bl @ l)))) =
      chars (trim_end (trim_start (concat bl))) @ r"
    using drop_tail_append by metis
  then show ?thesis by (metis concat_append concat_chars)
qed

lemma last_byte_clean:
  assumes "\<forall>c \<in> set l. clean_char c" and "[CHR 0x0A] \<notin> set l"
  shows "without_newline (concat l) = concat l"
proof -
  have "CHR 0x0A \<notin> set (concat l)"
  proof
    assume "CHR 0x0A \<in> set (concat l)"
    then obtain c where "c \<in> set l" "CHR 0x0A \<in> set c" by auto
    with assms show False by (fastforce simp: clean_char_def ascii_def)
  qed
  then show ?thesis
    by (auto simp: without_newline_def strip_suffix_Some simp del: set_concat split: option.splits)
qed

lemma disproved_line:
  assumes "sequences (bl @ l)" and "\<forall>c \<in> set (bl @ l). clean_char c" and "[CHR 0x0A] \<notin> set bl"
    and "l = l' \<or> l = l' @ [[CHR 0x0A]]" and "[CHR 0x0A] \<notin> set l'"
    and "trim_start (concat bl) \<noteq> []" and "\<not> is_tag_prefix specs (trim_start (concat bl))"
  shows "line_segment specs active (concat (bl @ l)) = (active, text_segment active (concat (bl @ l)))"
proof -
  have "without_newline (concat (bl @ l)) = concat (bl @ l')"
  proof (cases "l = l'")
    case True
    with assms(2,3,5) last_byte_clean [of "bl @ l"] show ?thesis by auto
  next
    case False
    with assms(4) have "concat (bl @ l) = concat (bl @ l') @ [CHR 0x0A]" by auto
    then show ?thesis by (simp only: without_newline_def strip_suffix_append option.case)
  qed
  moreover have "sequences (bl @ l')" using assms(1,4) sequences_append [of "bl @ l'"] by auto
  then obtain r where "trim_end (trim_start (concat (bl @ l'))) = trim_end (trim_start (concat bl)) @ r"
    using disproved_slug assms(6) by blast
  ultimately have slug: "trim_end (trim_start (without_newline (concat (bl @ l)))) = trim_end (trim_start (concat bl)) @ r"
    by simp
  have "tag_open spec \<noteq> trim_end (trim_start (concat bl)) @ r \<and> tag_close spec \<noteq> trim_end (trim_start (concat bl)) @ r"
    if "spec \<in> set specs" for spec
    using assms(7) that starts_with_append by (metis is_tag_prefix_def)
  then have "match_open specs (trim_end (trim_start (concat bl)) @ r) = None"
    "match_close specs (trim_end (trim_start (concat bl)) @ r) = None"
    by (auto simp: match_open_def match_close_def find_None_iff)
  then show ?thesis unfolding line_segment_def slug by simp
qed

subsection \<open>The parser reads lines\<close>

text \<open>Everything that comes out of a parser for the characters to come, \<open>finish\<close> included.\<close>

definition run_out ::
    "'t tagged_line_parser \<Rightarrow> 't tagged_line_segment list \<Rightarrow> string list \<Rightarrow> 't tagged_line_segment list" where
  "run_out p segs cs = (case parse_chars p [] segs cs of (p1, s1) \<Rightarrow> join_segments s1 (snd (tagged_finish p1)))"

lemma join_Cons_text: "join_segments segs (x # xs) = join_segments (push_segment x segs) xs"
  by (simp add: join_segments_def)

lemma finish_out:
  assumes "tag_line_buffer p = concat bl" and "[CHR 0x0A] \<notin> set bl" and "\<forall>c \<in> set bl. c \<noteq> []"
  shows "join_segments segs (snd (tagged_finish p)) =
    join_segments segs (line_segments (tag_specs p) (active_tag p) (map concat (char_lines bl)))"
proof (cases "bl = []")
  case True
  with assms show ?thesis by (auto simp: tagged_finish_def split: option.splits)
next
  case False
  then have "concat bl \<noteq> []" using assms(3) by (cases bl) auto
  moreover have "char_lines bl = [bl]" using char_lines_append [OF assms(2) False, of "[]"] by simp
  moreover have "join_segments segs (push_segment y (push_segment x [])) = join_segments segs [x, y]" for x y
    using join_push [of segs y "push_segment x []"] join_push [of segs x "[]"] by (simp add: join_segments_def)
  moreover have "join_segments segs (push_segment x []) = join_segments segs [x]" for x
    using join_push [of segs x "[]"] by (simp add: join_segments_def)
  ultimately show ?thesis
    using assms(1) by (auto simp: tagged_finish_def finish_line_def Let_def split_def split: option.splits
        simp del: push_segment.simps)
qed

lemma run_out_lines:
  "sequences cs \<Longrightarrow> \<forall>c \<in> set cs. clean_char c \<Longrightarrow> \<not> detect_tag p \<Longrightarrow> tag_line_buffer p = [] \<Longrightarrow>
    run_out p segs cs = join_segments segs
      (case char_lines cs of
         [] \<Rightarrow> line_segments (tag_specs p) (active_tag p) []
       | l # ls \<Rightarrow> text_segment (active_tag p) (concat l) # line_segments (tag_specs p) (active_tag p) (map concat ls))"
  "sequences (bl @ cs) \<Longrightarrow> \<forall>c \<in> set (bl @ cs). clean_char c \<Longrightarrow> [CHR 0x0A] \<notin> set bl \<Longrightarrow>
    detect_tag p \<Longrightarrow> tag_line_buffer p = concat bl \<Longrightarrow>
    run_out p segs cs = join_segments segs
      (line_segments (tag_specs p) (active_tag p) (map concat (char_lines (bl @ cs))))"
proof (induction cs arbitrary: p segs bl)
  case Nil
  {
    case 1
    then show ?case by (simp add: run_out_def tagged_finish_def Let_def split: option.splits)
  next
    case 2
    have "\<forall>c \<in> set bl. c \<noteq> []" using 2(1) by (induction bl) auto
    from finish_out [OF 2(5,3) this, of segs] show ?case by (simp add: run_out_def)
  }
next
  case (Cons ch cs)
  {
    case 1
    then have tail: "sequences cs" "\<forall>c \<in> set cs. clean_char c" by simp_all
    show ?case
    proof (cases "ch = [CHR 0x0A]")
      case True
      let ?q = "p\<lparr>detect_tag := True\<rparr>"
      have "run_out p segs (ch # cs) = run_out ?q (push_text p ch segs) cs"
        using 1 True by (simp add: run_out_def)
      also have "\<dots> = join_segments (push_text p ch segs)
          (line_segments (tag_specs p) (active_tag p) (map concat (char_lines cs)))"
        using Cons.IH(2) [of "[]" ?q] tail 1 by simp
      finally show ?thesis using True by (simp add: join_Cons_text push_text_def)
    next
      case False
      have "run_out p segs (ch # cs) = run_out p (push_text p ch segs) cs"
        using 1 False parse_chars_run [of p ch segs cs] by (simp add: run_out_def)
      also note Cons.IH(1) [OF tail 1(3,4)]
      finally show ?thesis
        using False by (auto simp: join_Cons_text push_text_def push_text_twice split: list.splits)
    qed
  next
    case 2
    show ?case
    proof (cases "ch = [CHR 0x0A]")
      case True
      let ?line = "concat (bl @ [ch])"
      let ?a = "fst (line_segment (tag_specs p) (active_tag p) ?line)"
      let ?s = "snd (line_segment (tag_specs p) (active_tag p) ?line)"
      let ?q = "p\<lparr>tag_line_buffer := [], active_tag := ?a, detect_tag := True\<rparr>"
      have "run_out p segs (ch # cs) = run_out ?q (push_segment ?s segs) cs"
        using 2 True by (simp add: run_out_def Let_def finish_line_def split_def)
      also have "\<dots> = join_segments (push_segment ?s segs) (line_segments (tag_specs p) ?a (map concat (char_lines cs)))"
        using Cons.IH(2) [of "[]" ?q] 2 sequences_append [of "bl @ [ch]" cs] by simp
      finally show ?thesis
        using True 2(3) by (simp add: char_lines_newline join_Cons_text del: push_segment.simps)
    next
      case False
      let ?b = "bl @ [ch]"
      have nb: "[CHR 0x0A] \<notin> set ?b" using False 2(3) by simp
      show ?thesis
      proof (cases "trim_start (concat ?b) = [] \<or> is_tag_prefix (tag_specs p) (trim_start (concat ?b))")
        case True
        let ?q = "p\<lparr>tag_line_buffer := concat ?b\<rparr>"
        have "run_out p segs (ch # cs) = run_out ?q segs cs"
          using 2 False True by (simp add: run_out_def Let_def)
        with Cons.IH(2) [of ?b ?q segs] 2 nb show ?thesis by simp
      next
        case bad: False
        let ?q = "p\<lparr>tag_line_buffer := [], detect_tag := False\<rparr>"
        have "run_out p segs (ch # cs) = run_out ?q (push_text p (concat ?b) segs) cs"
          using 2 False bad by (simp add: run_out_def Let_def)
        also have "\<dots> = join_segments (push_text p (concat ?b) segs)
          (case char_lines cs of
             [] \<Rightarrow> line_segments (tag_specs p) (active_tag p) []
           | l # ls \<Rightarrow> text_segment (active_tag p) (concat l) # line_segments (tag_specs p) (active_tag p) (map concat ls))"
          using Cons.IH(1) [of ?q] 2(1,2) sequences_append [of ?b cs] by (simp cong: list.case_cong)
        also have "\<dots> = join_segments segs
          (line_segments (tag_specs p) (active_tag p) (map concat (char_lines (?b @ cs))))"
        proof (cases "char_lines cs")
          case Nil
          then have "cs = []" by simp
          have "line_segment (tag_specs p) (active_tag p) (concat (?b @ [])) =
              (active_tag p, text_segment (active_tag p) (concat (?b @ [])))"
            by (rule disproved_line [of _ _ "[]"]) (use 2 \<open>cs = []\<close> nb bad in auto)
          with Nil \<open>cs = []\<close> show ?thesis
            using char_lines_append [OF nb, of "[]"] by (simp add: join_Cons_text push_text_def)
        next
          case (Cons l ls)
          from char_lines_first [OF this] obtain l' m where
            l: "l = l' \<or> l = l' @ [[CHR 0x0A]]" "[CHR 0x0A] \<notin> set l'" "cs = l @ m" by blast
          have "sequences (?b @ l)" using 2(1) l(3) sequences_append [of "?b @ l" m] by simp
          then have "line_segment (tag_specs p) (active_tag p) (concat (?b @ l)) =
              (active_tag p, text_segment (active_tag p) (concat (?b @ l)))"
            by (rule disproved_line [OF _ _ nb l(1,2)]) (use 2(2) l(3) bad in auto)
          moreover have "char_lines (?b @ cs) = (?b @ l) # ls"
            using char_lines_append [OF nb, of cs] Cons by simp
          ultimately show ?thesis
            using Cons push_text_twice [of "active_tag p" "concat ?b" "concat l" segs]
            by (simp add: join_Cons_text push_text_def del: push_segment.simps)
        qed
        finally show ?thesis by simp
      qed
    qed
  }
qed

lemma whole_lines:
  assumes "valid_utf8 str" and "tagged_parse (new_tagged_line_parser specs) str = (p, segs)"
  shows "join_segments segs (snd (tagged_finish p)) = join_segments [] (line_segments specs None (text_lines str))"
  using run_out_lines(2) [of "[]" "chars str" "new_tagged_line_parser specs" "[]"] assms
    sequences_chars valid_utf8_clean
  by (simp add: run_out_def tagged_parse_def new_tagged_line_parser_def text_lines_def)

subsection \<open>Properties\<close>

text \<open>A line, without its newline and surrounding white space.\<close>

definition tag_line :: "string \<Rightarrow> string" where
  "tag_line l = trim (without_newline l)"

text \<open>The lines outside plan blocks; and the lines of the last block, if there is one.\<close>

fun outside_plan :: "bool \<Rightarrow> string list \<Rightarrow> string" where
  "outside_plan inside [] = []"
| "outside_plan False (l # ls) =
     (if tag_line l = OPEN_TAG then outside_plan True ls else l @ outside_plan False ls)"
| "outside_plan True (l # ls) =
     (if tag_line l = CLOSE_TAG then outside_plan False ls else outside_plan True ls)"

fun last_plan :: "string option \<Rightarrow> bool \<Rightarrow> string list \<Rightarrow> string option" where
  "last_plan plan_text inside [] = plan_text"
| "last_plan plan_text False (l # ls) =
     (if tag_line l = OPEN_TAG then last_plan (Some []) True ls else last_plan plan_text False ls)"
| "last_plan plan_text True (l # ls) =
     (if tag_line l = CLOSE_TAG then last_plan plan_text False ls
      else last_plan (map_option (\<lambda>t. t @ l) plan_text) True ls)"

lemma plan_tags_differ: "OPEN_TAG \<noteq> CLOSE_TAG"
  by (simp add: OPEN_TAG_def CLOSE_TAG_def)

lemma map_segment_tags [simp]:
  "map_segment (TagStart t) = ProposedPlanStart"
  "map_segment (TagDelta t str) = ProposedPlanDelta str"
  "map_segment (TagEnd t) = ProposedPlanEnd"
  by (cases t; simp)+

lemma plan_tag_some: "active \<noteq> None \<Longrightarrow> active = Some ProposedPlan"
  by (cases active) (metis plan_tag.exhaust)+

lemma plan_line:
  "line_segment [plan_spec] active l =
    (if tag_line l = OPEN_TAG \<and> active = None then (Some ProposedPlan, TagStart ProposedPlan)
     else if tag_line l = CLOSE_TAG \<and> active \<noteq> None then (None, TagEnd ProposedPlan)
     else (active, text_segment active l))"
proof (cases "active = None")
  case False
  then have "active = Some ProposedPlan" by (rule plan_tag_some)
  with plan_tags_differ show ?thesis
    by (simp add: line_segment_def tag_line_def trim_def match_open_def match_close_def plan_spec_def Let_def)
next
  case True
  with plan_tags_differ show ?thesis
    by (simp add: line_segment_def tag_line_def trim_def match_open_def match_close_def plan_spec_def Let_def)
qed

lemma last_plan_Some: "\<exists>u. last_plan (Some t) b ls = Some u"
  by (induction "Some t" b ls arbitrary: t rule: last_plan.induct) auto

lemma segments_visible_lines:
  "segments_visible (line_segments [plan_spec] active ls) = outside_plan (active \<noteq> None) ls"
proof (induction ls arbitrary: active)
  case Nil
  then show ?case by (cases active) (auto simp: segments_visible_def)
next
  case (Cons l ls)
  have one: "segments_visible (x # xs) = plan_visible (map_segment x) @ segments_visible xs" for x xs
    by (simp add: segments_visible_def)
  show ?case
    by (cases active) (auto simp: one Cons plan_line text_segment_def)
qed

lemma plan_step_push:
  "fold plan_text_step (map map_segment (push_segment x segs)) acc =
    plan_text_step (map_segment x) (fold plan_text_step (map map_segment segs) acc)"
proof (cases rule: push_segment_cases [of x segs])
  case empty
  from empty(2) [of "[]"] have "plan_text_step (map_segment x) a = a" for a
    by (cases x rule: map_segment.cases; cases a) (auto split: if_splits)
  with empty(1) show ?thesis by simp
next
  case (delta ss t e d)
  then show ?thesis
    by (cases "fold plan_text_step (map map_segment ss) acc") (simp add:)
qed (simp_all del: push_segment.simps)

lemma plan_step_join:
  "fold plan_text_step (map map_segment (join_segments a b)) acc =
    fold plan_text_step (map map_segment (a @ b)) acc"
  by (induction b rule: rev_induct) (simp_all add: plan_step_push del: push_segment.simps)

lemma plan_step_lines:
  "fold plan_text_step (map map_segment (line_segments [plan_spec] active ls)) (saw, t) =
    (let r = last_plan (if saw then Some t else None) (active \<noteq> None) ls in (r \<noteq> None, case r of None \<Rightarrow> t | Some t' \<Rightarrow> t'))"
  if "active \<noteq> None \<longrightarrow> saw" and "\<not> saw \<longrightarrow> t = []"
  using that
proof (induction ls arbitrary: active saw t)
  case Nil
  then show ?case by (cases active) (auto simp:)
next
  case (Cons l ls)
  show ?case
  proof (cases active)
    case None
    with Cons.IH [of "Some ProposedPlan" True "[]"] Cons.IH [of None saw t] Cons.prems
      last_plan_Some [of "[]" True ls] show ?thesis
      by (auto simp: plan_line text_segment_def Let_def)
  next
    case (Some tag)
    then have "active = Some ProposedPlan" by (intro plan_tag_some) simp
    with Cons.IH [of None saw t] Cons.IH [of "Some ProposedPlan" saw "t @ l"] Cons.prems
      last_plan_Some [of "t @ l" True ls] show ?thesis
      by (auto simp: plan_line text_segment_def Let_def)
  qed
qed

text \<open>
  \<open>strip_proposed_plan_blocks\<close> keeps exactly the lines outside plan blocks, in order and
  unchanged, and \<open>extract_proposed_plan_text\<close> returns exactly the lines inside the last
  block: a block runs from a line that is, but for white space, the open tag to the next
  such line with the close tag, or to the end; tags inside other text are plain text. The
  character machine releases text early, as soon as a line cannot be a tag any more.
\<close>

theorem proposed_plan_is_line_based:
  assumes "valid_utf8 str"
  shows "strip_proposed_plan_blocks str = outside_plan False (text_lines str) \<and>
    extract_proposed_plan_text str = last_plan None False (text_lines str)"
proof -
  obtain p segs where parse: "tagged_parse (new_tagged_line_parser [plan_spec]) str = (p, segs)" by fastforce
  let ?tail = "snd (tagged_finish p)"
  let ?lines = "line_segments [plan_spec] None (text_lines str)"
  note whole = whole_lines [OF assms parse]
  have "strip_proposed_plan_blocks str = segments_visible segs @ segments_visible ?tail"
    by (simp add: strip_proposed_plan_blocks_def plan_push_str_def plan_finish_def new_proposed_plan_parser_def
        parse map_segments_def segments_visible_def split_def)
  also have "\<dots> = segments_visible ?lines"
    unfolding segments_visible_join [symmetric] whole by (simp add: segments_visible_join) (simp add: segments_visible_def)
  finally have strip: "strip_proposed_plan_blocks str = outside_plan False (text_lines str)"
    by (simp add: segments_visible_lines)
  have "fold plan_text_step (map map_segment (segs @ ?tail)) (False, []) =
      fold plan_text_step (map map_segment ?lines) (False, [])"
    using plan_step_join [of segs ?tail "(False, [])"] plan_step_join [of "[]" ?lines "(False, [])"] whole by simp
  then have "extract_proposed_plan_text str = last_plan None False (text_lines str)"
    using plan_step_lines [of None False "[]" "text_lines str"]
    by (auto simp: extract_proposed_plan_text_def plan_push_str_def plan_finish_def new_proposed_plan_parser_def
        parse map_segments_def split_def Let_def split: option.splits)
  with strip show ?thesis by blast
qed

theorem proposed_plan_is_line_based_witness:
  "strip_proposed_plan_blocks (''a<proposed_plan>'' @ [CHR 0x0A] @ '' <proposed_plan> '' @ [CHR 0x0A] @ ''- x'' @ [CHR 0x0A]
     @ ''</proposed_plan>'' @ [CHR 0x0A] @ ''b'') = ''a<proposed_plan>'' @ [CHR 0x0A] @ ''b'' \<and>
   extract_proposed_plan_text (''a<proposed_plan>'' @ [CHR 0x0A] @ '' <proposed_plan> '' @ [CHR 0x0A] @ ''- x'' @ [CHR 0x0A]
     @ ''</proposed_plan>'' @ [CHR 0x0A] @ ''b'') = Some (''- x'' @ [CHR 0x0A])"
proof -
  let ?s = "''a<proposed_plan>'' @ [CHR 0x0A] @ '' <proposed_plan> '' @ [CHR 0x0A] @ ''- x'' @ [CHR 0x0A]
     @ ''</proposed_plan>'' @ [CHR 0x0A] @ ''b''"
  have "valid_utf8 ?s" by code_simp
  moreover have "outside_plan False (text_lines ?s) = ''a<proposed_plan>'' @ [CHR 0x0A] @ ''b''" by code_simp
  moreover have "last_plan None False (text_lines ?s) = Some (''- x'' @ [CHR 0x0A])" by code_simp
  ultimately show ?thesis using proposed_plan_is_line_based [of ?s] by simp
qed

end
