(* ===== verification/Assistant_Text.thy ===== *)
theory Assistant_Text
  imports Inline_Tags Tagged_Lines
begin

section \<open>Assistant text\<close>

text \<open>
  \<open>codex-rs/utils/stream-parser/src/assistant_text.rs\<close>: citations are stripped first, and in
  plan mode the text that is left goes through the plan parser.
\<close>

subsection \<open>The parser\<close>

record assistant_text_chunk =
  assistant_visible :: string
  assistant_citations :: "string list"
  plan_segments :: "proposed_plan_segment list"

record assistant_text_parser =
  plan_mode :: bool
  citations :: citation_stream_parser
  plan :: proposed_plan_parser

definition assistant_chunk_is_empty :: "assistant_text_chunk \<Rightarrow> bool" where
  "assistant_chunk_is_empty c \<longleftrightarrow>
     assistant_visible c = [] \<and> assistant_citations c = [] \<and> plan_segments c = []"

definition new_assistant_parser :: "bool \<Rightarrow> assistant_text_parser" where
  "new_assistant_parser mode =
     \<lparr>plan_mode = mode, citations = new_citation_parser, plan = new_proposed_plan_parser\<rparr>"

definition parse_visible_text ::
    "assistant_text_parser \<Rightarrow> string \<Rightarrow> assistant_text_parser \<times> assistant_text_chunk" where
  "parse_visible_text p str =
     (if \<not> plan_mode p then (p, \<lparr>assistant_visible = str, assistant_citations = [], plan_segments = []\<rparr>)
      else (let (pl, chunk) = plan_push_str (plan p) str
            in (p\<lparr>plan := pl\<rparr>,
                \<lparr>assistant_visible = visible_text chunk, assistant_citations = [],
                 plan_segments = extracted chunk\<rparr>)))"

definition assistant_push_str ::
    "assistant_text_parser \<Rightarrow> string \<Rightarrow> assistant_text_parser \<times> assistant_text_chunk" where
  "assistant_push_str p chunk =
     (let (c, citation_chunk) = citation_push_str (citations p) chunk;
          (p', out) = parse_visible_text (p\<lparr>citations := c\<rparr>) (visible_text citation_chunk)
      in (p', out\<lparr>assistant_citations := extracted citation_chunk\<rparr>))"

definition assistant_finish :: "assistant_text_parser \<Rightarrow> assistant_text_parser \<times> assistant_text_chunk" where
  "assistant_finish p =
     (let (c, citation_chunk) = citation_finish (citations p);
          (p1, out) = parse_visible_text (p\<lparr>citations := c\<rparr>) (visible_text citation_chunk);
          (p2, out) =
            (if plan_mode p1 then
               (let (pl, tail) = plan_finish (plan p1)
                in (p1\<lparr>plan := pl\<rparr>,
                    if text_chunk_is_empty tail then out
                    else out\<lparr>assistant_visible := assistant_visible out @ visible_text tail,
                             plan_segments := plan_segments out @ extracted tail\<rparr>))
             else (p1, out))
      in (p2, out\<lparr>assistant_citations := extracted citation_chunk\<rparr>))"

text \<open>A whole message that arrives in chunks: what all calls put out together.\<close>

definition append_assistant :: "assistant_text_chunk \<Rightarrow> assistant_text_chunk \<Rightarrow> assistant_text_chunk" where
  "append_assistant a b =
     \<lparr>assistant_visible = assistant_visible a @ assistant_visible b,
      assistant_citations = assistant_citations a @ assistant_citations b,
      plan_segments = plan_segments a @ plan_segments b\<rparr>"

fun assistant_run :: "assistant_text_parser \<Rightarrow> string list \<Rightarrow> assistant_text_chunk" where
  "assistant_run p [] = snd (assistant_finish p)"
| "assistant_run p (c # cs) =
     (case assistant_push_str p c of (p', out) \<Rightarrow> append_assistant out (assistant_run p' cs))"

subsection \<open>Hiding citations keeps text valid\<close>

lemma check_trailing_ascii:
  "check_trailing f k n bs = Inl None \<Longrightarrow> ascii c \<Longrightarrow> check_trailing f k n (bs @ c # w) = Inl (Some (k + length bs))"
proof (induction f k n bs rule: check_trailing.induct)
  case (2 f k n)
  then have "\<not> second_ok f c" "\<not> is_continuation c"
    using second_ok_not_ascii continuation_not_ascii by blast+
  then show ?case by simp
qed (auto split: if_splits)

lemma unfinished_first:
  assumes "from_utf8 (b # bs) = Inl (0, None)"
  shows "first_sequence b bs = Inl None"
proof (cases "first_sequence b bs")
  case (Inl e)
  with assms show ?thesis by (simp add: from_utf8_def)
next
  case (Inr n)
  with assms have "utf8_scan (0 + n) (drop (n - 1) bs) = Inl (0, None)"
    by (auto simp: from_utf8_def split: sum.splits)
  from utf8_scan_error_bounds [OF this] first_sequence_ok [OF Inr, of "[]"] show ?thesis by simp
qed

lemma valid_before_ascii:
  assumes "valid_utf8 (u @ c # w)" and "ascii c"
  shows "valid_utf8 u" and "valid_utf8 (c # w)"
proof -
  show u: "valid_utf8 u"
  proof (cases "from_utf8 u")
    case (Inl ve)
    obtain v e where ve: "ve = (v, e)" by (cases ve)
    show ?thesis
    proof (cases e)
      case (Some k)
      then have "from_utf8 (u @ c # w) = Inl (v, Some k)" using Inl ve from_utf8_hard_error by blast
      with assms(1) show ?thesis by (simp add: valid_utf8_def)
    next
      case None
      note split = from_utf8_split [OF Inl [unfolded ve None]]
      then obtain b bs where d: "drop v u = b # bs" by (cases "drop v u") auto
      then have "first_sequence b bs = Inl None" using split(3) unfinished_first by metis
      then obtain n where n: "trailing_len (byte b) = Some n" "check_trailing (byte b) 1 n bs = Inl None"
        by (auto simp: first_sequence_def split: option.splits sum.splits)
      then have "first_sequence b (bs @ c # w) = Inl (Some (1 + length bs))"
        using check_trailing_ascii [OF n(2) assms(2), of w] by (simp add: first_sequence_def)
      then have "from_utf8 (drop v u @ c # w) = Inl (0, Some (1 + length bs))"
        by (simp add: from_utf8_def d)
      moreover have "u @ c # w = take v u @ (drop v u @ c # w)" by simp
      then have "valid_utf8 (drop v u @ c # w)"
        using assms(1) valid_utf8_append [OF split(1)] by metis
      ultimately show ?thesis by (simp add: valid_utf8_def)
    qed
  qed (simp add: from_utf8_Inr)
  show "valid_utf8 (c # w)" using assms(1) valid_utf8_append [OF u] by blast
qed

lemma valid_ascii_prefix: "ascii_text n \<Longrightarrow> valid_utf8 (n @ w) \<longleftrightarrow> valid_utf8 w"
proof (induction n)
  case (Cons c n)
  have "valid_utf8 [c]"
    using ascii_byte [of c] Cons.prems
    by (simp add: valid_utf8_def from_utf8_def first_sequence_def trailing_len_def ascii_text_def)
  then have "valid_utf8 (c # n @ w) = valid_utf8 (n @ w)" using valid_utf8_append [of "[c]" "n @ w"] by simp
  with Cons show ?case by (simp add: ascii_text_def)
qed simp

lemma valid_cut_at_tag:
  assumes "valid_utf8 x" and "str_find n x = Some i" and "n \<noteq> []" and "ascii_text n"
  shows "valid_utf8 (take i x)" and "valid_utf8 (drop (i + length n) x)"
proof -
  from assms(2) obtain u v where x: "x = u @ n @ v" "length u = i" by (auto simp: str_find_Some occurs_at_def)
  obtain c n' where n: "n = c # n'" "ascii c" using assms(3,4) by (cases n) (auto simp: ascii_text_def)
  have valid: "valid_utf8 u" "valid_utf8 (n @ v)"
    using valid_before_ascii [of u c "n' @ v"] assms(1) x n by simp_all
  with x show "valid_utf8 (take i x)" "valid_utf8 (drop (i + length n) x)"
    using valid_ascii_prefix [OF assms(4)] by simp_all
qed

lemma max_kept_cases:
  "max_open_prefix_suffix_len specs s = 0 \<or>
    (\<exists>spec \<in> set specs. max_open_prefix_suffix_len specs s = longest_suffix_prefix_len s (spec_open spec))"
proof -
  have "fold max xs m = m \<or> fold max xs m \<in> set xs" for xs and m :: nat
  proof (induction xs arbitrary: m)
    case (Cons x xs)
    from Cons [of "max x m"] show ?case by (auto simp: max_def split: if_splits)
  qed simp
  then show ?thesis by (fastforce simp: max_open_prefix_suffix_len_def)
qed

lemma kept_ascii:
  assumes "ascii_text n"
  shows "ascii_text (drop (length s - longest_suffix_prefix_len s n) s)"
proof -
  from kept_is_prefix [of s n] obtain r where
    "s = r @ take (longest_suffix_prefix_len s n) n" by (auto simp: ends_with_iff)
  moreover have "longest_suffix_prefix_len s n \<le> length n" using kept_is_prefix [of s n] by auto
  ultimately have "drop (length s - longest_suffix_prefix_len s n) s = take (longest_suffix_prefix_len s n) n"
    by (metis append_eq_conv_conj diff_diff_cancel kept_is_prefix length_append length_take min.absorb2 add_diff_cancel_right')
  with assms show ?thesis by (auto simp: ascii_text_def dest: in_set_takeD)
qed

lemma inline_loop_valid:
  assumes "wf_specs specs"
  shows "active_ok a \<Longrightarrow> valid_utf8 x \<Longrightarrow> inline_loop specs a x = (a1, p1, o1) \<Longrightarrow>
    valid_utf8 (visible_text o1) \<and> ascii_text p1"
  using assms
proof (induction specs a x arbitrary: a1 p1 o1 rule: inline_loop.induct)
  case (1 specs active x)
  show ?case
  proof (cases "str_find (act_close active) x")
    case (Some i)
    from "1.prems" Some inline_loop_close [of active x i specs] obtain o2 where
      rest: "inline_loop specs None (drop (i + length (act_close active)) x) = (a1, p1, o2)"
      and out: "o1 = append_chunk (extraction (act_tag active) (act_content active @ take i x)) o2"
      by (auto simp del: inline_loop.simps split: prod.splits)
    have "valid_utf8 (drop (i + length (act_close active)) x)"
      using valid_cut_at_tag(2) [OF "1.prems"(2) Some] "1.prems"(1) by simp
    from "1.IH" [OF Some _ _ this rest "1.prems"(4)] "1.prems"(1) out show ?thesis
      by (simp add: append_chunk_def extraction_def)
  next
    case None
    with "1.prems" kept_ascii [of "act_close active" x] show ?thesis
      by (auto simp: Let_def default_chunk_def)
  qed
next
  case (2 specs x)
  show ?case
  proof (cases "find_next_open specs x")
    case (Some c)
    obtain i idx where c: "c = (i, idx)" by (cases c)
    note found = find_next_open_Some [OF Some [unfolded c]]
    note ok = wf_specs_nth [OF "2.prems"(4) conjunct1 [OF found]]
    let ?act = "Some \<lparr>act_tag = spec_tag (specs ! idx), act_close = spec_close (specs ! idx), act_content = []\<rparr>"
    from "2.prems"(3) inline_loop_open [OF Some [unfolded c]] ok obtain o2 where
      rest: "inline_loop specs ?act (drop (i + length (spec_open (specs ! idx))) x) = (a1, p1, o2)"
      and out: "o1 = append_chunk (visible (take i x)) o2"
      by (auto simp del: inline_loop.simps split: prod.splits)
    note cut = valid_cut_at_tag [OF "2.prems"(2) conjunct2 [OF found]]
    from "2.IH" [OF Some c [symmetric] _ refl _ _ rest "2.prems"(4)] cut ok out show ?thesis
      by (simp add: append_chunk_def visible_def valid_utf8_append)
  next
    case None
    define n where "n = length x - max_open_prefix_suffix_len specs x"
    have p: "ascii_text (drop n x)"
    proof (cases "max_open_prefix_suffix_len specs x = 0")
      case False
      with max_kept_cases [of specs x] have "\<exists>spec \<in> set specs.
          max_open_prefix_suffix_len specs x = longest_suffix_prefix_len x (spec_open spec)" by simp
      then obtain spec where "spec \<in> set specs"
        "max_open_prefix_suffix_len specs x = longest_suffix_prefix_len x (spec_open spec)" ..
      with "2.prems"(4) kept_ascii [of "spec_open spec" x] show ?thesis by (simp add: n_def wf_specs_def)
    qed (simp add: n_def ascii_text_def)
    have "valid_utf8 (take n x)"
    proof (cases "drop n x")
      case (Cons b bs)
      with p valid_before_ascii(1) [of "take n x" b bs] "2.prems"(2) show ?thesis
        by (metis append_take_drop_id ascii_text_def list.set_intros(1))
    qed (use "2.prems"(2) in simp)
    with p None "2.prems"(3) show ?thesis by (auto simp: Let_def visible_def n_def)
  qed
qed

definition citation_ok :: "citation_stream_parser \<Rightarrow> bool" where
  "citation_ok p \<longleftrightarrow> citation_inv p \<and> ascii_text (inline_pending (citation_inner p))"

lemma citation_ok_new: "citation_ok new_citation_parser"
  by (simp add: citation_ok_def) (simp add: new_citation_parser ascii_text_def)

lemma citation_push_ok:
  assumes "citation_ok p" and "valid_utf8 a"
  shows "citation_ok (fst (citation_push_str p a)) \<and> valid_utf8 (visible_text (snd (citation_push_str p a)))"
proof -
  let ?i = "citation_inner p"
  obtain a1 p1 o1 where loop: "inline_loop (inline_specs ?i) (inline_active ?i) (inline_pending ?i @ a) = (a1, p1, o1)"
    by (metis prod_cases3)
  have "wf_specs (inline_specs ?i)" "active_ok (inline_active ?i)" "valid_utf8 (inline_pending ?i @ a)"
    using assms valid_ascii_prefix [of "inline_pending ?i" a] by (simp_all add: citation_ok_def citation_inv_def inline_inv_def)
  from inline_loop_valid [OF this loop] citation_push_inv [of p a] assms loop show ?thesis
    by (simp add: citation_ok_def citation_push_str_def inline_push_str_def citation_chunk_def del: inline_loop.simps)
qed

lemma citation_finish_valid: "citation_ok p \<Longrightarrow> valid_utf8 (visible_text (snd (citation_finish p)))"
  using valid_ascii_prefix [of "inline_pending (citation_inner p)" "[]"]
  by (auto simp: citation_ok_def citation_finish_def inline_finish_def citation_chunk_def extraction_def visible_def
      split: option.splits)

subsection \<open>Both parsers together\<close>

lemma plan_joined_idem [simp]: "plan_joined (plan_joined xs) = plan_joined xs"
  by (simp add: plan_joined_def comp_def join_join)

text \<open>Equal for a reader: the same text and citations, the same segments once joined.\<close>

definition same_assistant :: "assistant_text_chunk \<Rightarrow> assistant_text_chunk \<Rightarrow> bool" where
  "same_assistant a b \<longleftrightarrow>
     assistant_visible a = assistant_visible b \<and> assistant_citations a = assistant_citations b \<and>
     plan_joined (plan_segments a) = plan_joined (plan_segments b)"

lemma same_assistant_trans: "same_assistant a b \<Longrightarrow> same_assistant b c \<Longrightarrow> same_assistant a c"
  by (simp add: same_assistant_def)

lemma same_assistant_append:
  "same_assistant a a' \<Longrightarrow> same_assistant b b' \<Longrightarrow> same_assistant (append_assistant a b) (append_assistant a' b')"
  by (auto simp: same_assistant_def append_assistant_def intro: plan_joined_cong)

lemma assistant_push_append:
  assumes "citation_ok (citations p)" and "valid_utf8 a" and "valid_utf8 b"
  shows "fst (assistant_push_str p (a @ b)) = fst (assistant_push_str (fst (assistant_push_str p a)) b)"
    and "same_assistant (snd (assistant_push_str p (a @ b)))
      (append_assistant (snd (assistant_push_str p a)) (snd (assistant_push_str (fst (assistant_push_str p a)) b)))"
proof -
  obtain c1 o1 where c1: "citation_push_str (citations p) a = (c1, o1)" by fastforce
  obtain c2 o2 where c2: "citation_push_str c1 b = (c2, o2)" by fastforce
  have inv: "citation_inv (citations p)" using assms(1) by (simp add: citation_ok_def)
  have both: "citation_push_str (citations p) (a @ b) = (c2, append_chunk o1 o2)"
    using citation_push_append [OF inv, of a b] c1 c2 by simp
  have "citation_ok c1" "valid_utf8 (visible_text o1)"
    using citation_push_ok [OF assms(1,2)] c1 by simp_all
  moreover from this have "valid_utf8 (visible_text o2)" using citation_push_ok [of c1 b] assms(3) c2 by simp
  moreover obtain p1 q1 where "plan_push_str (plan p) (visible_text o1) = (p1, q1)" by fastforce
  moreover obtain p2 q2 where "plan_push_str p1 (visible_text o2) = (p2, q2)" by fastforce
  moreover obtain p3 q3 where "plan_push_str (plan p) (visible_text o1 @ visible_text o2) = (p3, q3)" by fastforce
  ultimately have plan: "p3 = p2" "visible_text q3 = visible_text q1 @ visible_text q2"
      "plan_joined (extracted q3) = plan_joined (extracted q1 @ extracted q2)"
    and pushes: "plan_push_str (plan p) (visible_text o1) = (p1, q1)" "plan_push_str p1 (visible_text o2) = (p2, q2)"
      "plan_push_str (plan p) (visible_text o1 @ visible_text o2) = (p3, q3)"
    using plan.push_state [where p = "plan p" and a = "visible_text o1" and b = "visible_text o2"]
      plan.push_visible [where p = "plan p" and a = "visible_text o1" and b = "visible_text o2"]
      plan.push_extracted [where p = "plan p" and a = "visible_text o1" and b = "visible_text o2"] by simp_all
  show "fst (assistant_push_str p (a @ b)) = fst (assistant_push_str (fst (assistant_push_str p a)) b)"
    by (simp add: assistant_push_str_def parse_visible_text_def c1 c2 both append_chunk_def pushes plan(1))
  show "same_assistant (snd (assistant_push_str p (a @ b)))
      (append_assistant (snd (assistant_push_str p a)) (snd (assistant_push_str (fst (assistant_push_str p a)) b)))"
    by (simp add: assistant_push_str_def parse_visible_text_def c1 c2 both append_chunk_def pushes plan
        same_assistant_def append_assistant_def)
qed

lemma append_assistant_assoc [simp]:
  "append_assistant (append_assistant a b) c = append_assistant a (append_assistant b c)"
  by (simp add: append_assistant_def)

lemma same_assistant_refl [simp]: "same_assistant a a"
  by (simp add: same_assistant_def)

lemma assistant_push_nil:
  assumes "citation_ok (citations p)"
  shows "assistant_push_str p [] = (p, \<lparr>assistant_visible = [], assistant_citations = [], plan_segments = []\<rparr>)"
  using assms citation_push_nil [of "citations p"] plan.push_nil [where p = "plan p"]
  by (simp add: assistant_push_str_def parse_visible_text_def citation_ok_def default_chunk_def)

lemma assistant_push_ok:
  assumes "citation_ok (citations p)" and "valid_utf8 a"
  shows "citation_ok (citations (fst (assistant_push_str p a)))"
  using citation_push_ok [OF assms]
  by (auto simp: assistant_push_str_def parse_visible_text_def Let_def split_def)

lemma assistant_run_whole:
  assumes "citation_ok (citations p)" and "\<forall>c \<in> set cs. valid_utf8 c"
  shows "same_assistant (assistant_run p cs) (assistant_run p [concat cs])"
  using assms
proof (induction cs arbitrary: p)
  case Nil
  then show ?case by (simp add: assistant_push_nil append_assistant_def same_assistant_def)
next
  case (Cons c cs)
  obtain p1 o1 where c: "assistant_push_str p c = (p1, o1)" by fastforce
  obtain p2 o2 where cs: "assistant_push_str p1 (concat cs) = (p2, o2)" by fastforce
  have ok: "citation_ok (citations p1)" using assistant_push_ok [of p c] Cons.prems c by simp
  have valid: "valid_utf8 (concat cs)"
    using Cons.prems(2) by (induction cs) (auto simp: valid_utf8_append)
  have "same_assistant (assistant_run p1 cs) (append_assistant o2 (snd (assistant_finish p2)))"
    using Cons.IH [OF ok] Cons.prems(2) cs by simp
  then have "same_assistant (assistant_run p (c # cs))
      (append_assistant (append_assistant o1 o2) (snd (assistant_finish p2)))"
    using c same_assistant_append [of o1 o1] by simp
  moreover have "same_assistant (append_assistant (append_assistant o1 o2) (snd (assistant_finish p2)))
      (assistant_run p [concat (c # cs)])"
    using assistant_push_append [of p c "concat cs"] Cons.prems valid c cs
      same_assistant_append [of "snd (assistant_push_str p (c @ concat cs))" "append_assistant o1 o2"
        "snd (assistant_finish p2)" "snd (assistant_finish p2)"]
    by (auto simp: same_assistant_def split: prod.splits)
  ultimately show ?case by (rule same_assistant_trans)
qed

lemma plan_step_joined: "fold plan_text_step (plan_joined xs) acc = fold plan_text_step xs acc"
  using plan_step_join [of "[]" "map unmap_segment xs" acc] by (simp add: plan_joined_def comp_def)

text \<open>The text of the last plan block in a list of segments.\<close>

definition plan_text_of :: "proposed_plan_segment list \<Rightarrow> string option" where
  "plan_text_of segs = (case fold plan_text_step segs (False, []) of (saw, t) \<Rightarrow> if saw then Some t else None)"

lemma plan_text_of_same: "plan_joined xs = plan_joined ys \<Longrightarrow> plan_text_of xs = plan_text_of ys"
  unfolding plan_text_of_def by (metis plan_step_joined)

lemma assistant_one_chunk:
  assumes "valid_utf8 str"
  shows "assistant_visible (assistant_run (new_assistant_parser mode) [str]) =
      (if mode then strip_proposed_plan_blocks (fst (strip_citations str)) else fst (strip_citations str))"
    and "assistant_citations (assistant_run (new_assistant_parser mode) [str]) = snd (strip_citations str)"
    and "plan_text_of (plan_segments (assistant_run (new_assistant_parser mode) [str])) =
      (if mode then extract_proposed_plan_text (fst (strip_citations str)) else None)"
proof -
  obtain c1 o1 where c1: "citation_push_str new_citation_parser str = (c1, o1)" by fastforce
  obtain c2 o2 where c2: "citation_finish c1 = (c2, o2)" by fastforce
  have v: "fst (strip_citations str) = visible_text o1 @ visible_text o2"
    and cit: "snd (strip_citations str) = extracted o1 @ extracted o2"
    by (simp_all add: strip_citations_def c1 c2 append_chunk_def)
  obtain p1 q1 where p1: "plan_push_str new_proposed_plan_parser (visible_text o1) = (p1, q1)" by fastforce
  obtain p2 q2 where p2: "plan_push_str p1 (visible_text o2) = (p2, q2)" by fastforce
  obtain p3 q3 where p3: "plan_push_str new_proposed_plan_parser (visible_text o1 @ visible_text o2) = (p3, q3)"
    by fastforce
  obtain p4 q4 where p4: "plan_finish p2 = (p4, q4)" by fastforce
  have ok: "citation_ok c1" and valid: "valid_utf8 (visible_text o1)"
    using citation_push_ok [OF citation_ok_new assms] c1 by simp_all
  have valid2: "valid_utf8 (visible_text o2)" using citation_finish_valid [OF ok] c2 by simp
  have plan: "p3 = p2" "visible_text q3 = visible_text q1 @ visible_text q2"
      "plan_joined (extracted q3) = plan_joined (extracted q1 @ extracted q2)"
    using plan.push_state [where p = new_proposed_plan_parser, OF TrueI valid valid2]
      plan.push_visible [where p = new_proposed_plan_parser, OF TrueI valid valid2]
      plan.push_extracted [where p = new_proposed_plan_parser, OF TrueI valid valid2] p1 p2 p3 by simp_all
  have empty: "text_chunk_is_empty q4 \<Longrightarrow> visible_text q4 = [] \<and> extracted q4 = []"
    by (simp add: text_chunk_is_empty_def)
  have out: "assistant_run (new_assistant_parser mode) [str] =
      (if mode then \<lparr>assistant_visible = visible_text q1 @ visible_text q2 @ visible_text q4,
                     assistant_citations = extracted o1 @ extracted o2,
                     plan_segments = extracted q1 @ extracted q2 @ extracted q4\<rparr>
       else \<lparr>assistant_visible = visible_text o1 @ visible_text o2,
              assistant_citations = extracted o1 @ extracted o2, plan_segments = []\<rparr>)"
    using empty
    by (auto simp: new_assistant_parser_def assistant_push_str_def assistant_finish_def parse_visible_text_def
        c1 c2 p1 p2 p4 append_assistant_def)
  show "assistant_visible (assistant_run (new_assistant_parser mode) [str]) =
      (if mode then strip_proposed_plan_blocks (fst (strip_citations str)) else fst (strip_citations str))"
    unfolding out by (simp add: v strip_proposed_plan_blocks_def p3 p4 plan)
  show "assistant_citations (assistant_run (new_assistant_parser mode) [str]) = snd (strip_citations str)"
    unfolding out by (simp add: cit)
  have "plan_joined ((extracted q1 @ extracted q2) @ extracted q4) = plan_joined (extracted q3 @ extracted q4)"
    by (rule plan_joined_cong) (simp_all add: plan(3))
  then have "plan_text_of (extracted q1 @ extracted q2 @ extracted q4) = plan_text_of (extracted q3 @ extracted q4)"
    by (intro plan_text_of_same) simp
  moreover have "extract_proposed_plan_text (visible_text o1 @ visible_text o2) = plan_text_of (extracted q3 @ extracted q4)"
    by (simp add: extract_proposed_plan_text_def p3 plan(1) p4 plan_text_of_def split_def)
  ultimately show "plan_text_of (plan_segments (assistant_run (new_assistant_parser mode) [str])) =
      (if mode then extract_proposed_plan_text (fst (strip_citations str)) else None)"
    unfolding out by (simp add: v) (simp add: plan_text_of_def)
qed

subsection \<open>Properties\<close>

text \<open>
  However a message is cut into chunks, the assistant text parser shows the message with
  its citations stripped and, in plan mode, its plan blocks stripped from what is left; the
  citations it hands out are those of the whole message, in order, and the plan that its
  segments spell is the one \<open>extract_proposed_plan_text\<close> finds in the stripped text.
\<close>

theorem assistant_text_is_chunk_independent:
  assumes "\<forall>c \<in> set chunks. valid_utf8 c"
  shows "assistant_visible (assistant_run (new_assistant_parser mode) chunks) =
      (if mode then strip_proposed_plan_blocks (fst (strip_citations (concat chunks)))
       else fst (strip_citations (concat chunks))) \<and>
    assistant_citations (assistant_run (new_assistant_parser mode) chunks) = snd (strip_citations (concat chunks)) \<and>
    plan_text_of (plan_segments (assistant_run (new_assistant_parser mode) chunks)) =
      (if mode then extract_proposed_plan_text (fst (strip_citations (concat chunks))) else None)"
proof -
  have valid: "valid_utf8 (concat chunks)"
    using assms by (induction chunks) (auto simp: valid_utf8_append)
  have "same_assistant (assistant_run (new_assistant_parser mode) chunks) (assistant_run (new_assistant_parser mode) [concat chunks])"
    using assistant_run_whole [of "new_assistant_parser mode" chunks] assms citation_ok_new
    by (simp add: new_assistant_parser_def)
  then have same: "assistant_visible (assistant_run (new_assistant_parser mode) chunks) =
        assistant_visible (assistant_run (new_assistant_parser mode) [concat chunks])"
      "assistant_citations (assistant_run (new_assistant_parser mode) chunks) =
        assistant_citations (assistant_run (new_assistant_parser mode) [concat chunks])"
      "plan_text_of (plan_segments (assistant_run (new_assistant_parser mode) chunks)) =
        plan_text_of (plan_segments (assistant_run (new_assistant_parser mode) [concat chunks]))"
    unfolding same_assistant_def by (blast intro: plan_text_of_same)+
  show ?thesis
    unfolding same using assistant_one_chunk [OF valid, of mode] by blast
qed

theorem assistant_text_is_chunk_independent_witness:
  "assistant_visible (assistant_run (new_assistant_parser True)
     [''a<oai-mem-cit'', ''ation>d1</oai-mem-citation>b'' @ [CHR 0x0A] @ ''<propo'', ''sed_plan>'' @ [CHR 0x0A] @ ''- s'']) =
   ''ab'' @ [CHR 0x0A]"
proof -
  let ?cs = "[''a<oai-mem-cit'', ''ation>d1</oai-mem-citation>b'' @ [CHR 0x0A] @ ''<propo'', ''sed_plan>'' @ [CHR 0x0A] @ ''- s'']"
  have "\<forall>c \<in> set ?cs. valid_utf8 c" by code_simp
  moreover have "strip_proposed_plan_blocks (fst (strip_citations (concat ?cs))) = ''ab'' @ [CHR 0x0A]" by code_simp
  ultimately show ?thesis using assistant_text_is_chunk_independent [of ?cs True] by simp
qed

end
