(* ===== verification/Exec_Rules.thy ===== *)
theory Exec_Rules
  imports Rust_Prelude
begin

section \<open>Decisions and rules of the execution policy\<close>

text \<open>
  \<open>codex-rs/execpolicy/src\<close>: \<open>decision.rs\<close>, \<open>error.rs\<close>, \<open>rule.rs\<close> (but for the examples, which
  need a policy) and \<open>executable_name.rs\<close>. An \<open>AbsolutePathBuf\<close> is the text of its path. What
  follows is the build for Unix; the parts under \<open>cfg(windows)\<close> are left out.
\<close>

subsection \<open>Decisions\<close>

datatype decision = Allow | Prompt | Forbidden

fun decision_rank :: "decision \<Rightarrow> nat" where
  "decision_rank Allow = 0"
| "decision_rank Prompt = 1"
| "decision_rank Forbidden = 2"

text \<open>The derived \<open>Ord\<close>: by position in the declaration, so that the maximum is the strictest.\<close>

instantiation decision :: linorder
begin

definition less_eq_decision :: "decision \<Rightarrow> decision \<Rightarrow> bool" where
  "less_eq_decision a b \<longleftrightarrow> decision_rank a \<le> decision_rank b"

definition less_decision :: "decision \<Rightarrow> decision \<Rightarrow> bool" where
  "less_decision a b \<longleftrightarrow> decision_rank a < decision_rank b"

instance
proof (intro_classes, unfold less_eq_decision_def less_decision_def)
  fix a b :: decision
  show "decision_rank a \<le> decision_rank b \<Longrightarrow> decision_rank b \<le> decision_rank a \<Longrightarrow> a = b"
    by (cases a; cases b) simp_all
qed auto

end

lemma decision_bounds [simp]: "Allow \<le> d" "d \<le> Forbidden" "d \<le> Allow \<longleftrightarrow> d = Allow" "Forbidden \<le> d \<longleftrightarrow> d = Forbidden"
  by (cases d; simp add: less_eq_decision_def)+

subsection \<open>Errors\<close>

record text_position =
  pos_line :: nat
  pos_column :: nat

record text_range =
  range_start :: text_position
  range_end :: text_position

record error_location =
  loc_path :: string
  loc_range :: text_range

text \<open>What the code reads off the Starlark interpreter: a span that starts counting at 0.\<close>

record file_span =
  span_filename :: string
  span_begin :: "nat \<times> nat"
  span_end :: "nat \<times> nat"

datatype exec_error =
    InvalidDecision string
  | InvalidPattern string
  | InvalidExample string
  | InvalidRule string
  | ExampleDidNotMatch "string list" "string list" "error_location option"
  | ExampleDidMatch string string "error_location option"
  | StarlarkFailure string "file_span option"

definition error_location_from_file_span :: "file_span \<Rightarrow> error_location" where
  "error_location_from_file_span span =
     \<lparr>loc_path = span_filename span,
      loc_range =
        \<lparr>range_start = \<lparr>pos_line = fst (span_begin span) + 1, pos_column = snd (span_begin span) + 1\<rparr>,
         range_end = \<lparr>pos_line = fst (span_end span) + 1, pos_column = snd (span_end span) + 1\<rparr>\<rparr>\<rparr>"

fun with_location :: "exec_error \<Rightarrow> error_location \<Rightarrow> exec_error" where
  "with_location (ExampleDidNotMatch rules examples None) location = ExampleDidNotMatch rules examples (Some location)"
| "with_location (ExampleDidMatch rule example None) location = ExampleDidMatch rule example (Some location)"
| "with_location other location = other"

fun error_location_of :: "exec_error \<Rightarrow> error_location option" where
  "error_location_of (ExampleDidNotMatch _ _ location) = location"
| "error_location_of (ExampleDidMatch _ _ location) = location"
| "error_location_of (StarlarkFailure _ span) = map_option error_location_from_file_span span"
| "error_location_of _ = None"

definition decision_parse :: "string \<Rightarrow> exec_error + decision" where
  "decision_parse raw =
     (if raw = ''allow'' then Inr Allow
      else if raw = ''prompt'' then Inr Prompt
      else if raw = ''forbidden'' then Inr Forbidden
      else Inl (InvalidDecision raw))"

subsection \<open>Prefix rules\<close>

datatype pattern_token = Single string | Alts "string list"

fun token_matches :: "pattern_token \<Rightarrow> string \<Rightarrow> bool" where
  "token_matches (Single expected) token \<longleftrightarrow> expected = token"
| "token_matches (Alts alternatives) token \<longleftrightarrow> (\<exists>alt \<in> set alternatives. alt = token)"

fun alternatives_of :: "pattern_token \<Rightarrow> string list" where
  "alternatives_of (Single expected) = [expected]"
| "alternatives_of (Alts alternatives) = alternatives"

record prefix_pattern =
  pattern_first :: string
  pattern_rest :: "pattern_token list"

text \<open>\<open>cmd[0]\<close> is read only where the command is at least as long as the pattern.\<close>

definition matches_prefix :: "prefix_pattern \<Rightarrow> string list \<Rightarrow> string list option" where
  "matches_prefix p cmd =
     (let pattern_length = length (pattern_rest p) + 1
      in if length cmd < pattern_length \<or> hd cmd \<noteq> pattern_first p then None
         else if \<exists>(pattern_token, cmd_token) \<in> set (zip (pattern_rest p) (drop 1 (take pattern_length cmd))).
                   \<not> token_matches pattern_token cmd_token then None
         else Some (take pattern_length cmd))"

datatype rule_match =
    PrefixRuleMatch (matched_prefix: "string list") (match_decision: decision)
      (resolved_program: "string option") (match_justification: "string option")
  | HeuristicsRuleMatch (heuristics_command: "string list") (match_decision: decision)

fun with_resolved_program :: "rule_match \<Rightarrow> string \<Rightarrow> rule_match" where
  "with_resolved_program (PrefixRuleMatch prefix d _ justification) program =
     PrefixRuleMatch prefix d (Some program) justification"
| "with_resolved_program other _ = other"

record prefix_rule =
  rule_pattern :: prefix_pattern
  rule_decision :: decision
  rule_justification :: "string option"

definition rule_program :: "prefix_rule \<Rightarrow> string" where
  "rule_program rule = pattern_first (rule_pattern rule)"

definition rule_matches :: "prefix_rule \<Rightarrow> string list \<Rightarrow> rule_match option" where
  "rule_matches rule cmd =
     map_option (\<lambda>prefix. PrefixRuleMatch prefix (rule_decision rule) None (rule_justification rule))
       (matches_prefix (rule_pattern rule) cmd)"

text \<open>Reading a pattern position by position: the specification of \<open>matches_prefix\<close>.\<close>

definition pattern_tokens :: "prefix_pattern \<Rightarrow> pattern_token list" where
  "pattern_tokens p = Single (pattern_first p) # pattern_rest p"

definition covers :: "pattern_token list \<Rightarrow> string list \<Rightarrow> bool" where
  "covers tokens cmd \<longleftrightarrow> length tokens \<le> length cmd \<and> list_all2 token_matches tokens (take (length tokens) cmd)"

lemma covers_simps [simp]:
  "covers [] cmd"
  "\<not> covers (t # ts) []"
  "covers (t # ts) (c # cs) \<longleftrightarrow> token_matches t c \<and> covers ts cs"
  by (auto simp: covers_def)

lemma matches_prefix_covers:
  "matches_prefix p cmd =
     (if covers (pattern_tokens p) cmd then Some (take (length (pattern_tokens p)) cmd) else None)"
proof (cases cmd)
  case (Cons c cs)
  show ?thesis
    by (auto simp: matches_prefix_def pattern_tokens_def Let_def Cons covers_def list_all2_iff)
qed (simp add: matches_prefix_def pattern_tokens_def)

lemma rule_matches_Some:
  "rule_matches rule cmd = Some m \<Longrightarrow>
    covers (pattern_tokens (rule_pattern rule)) cmd \<and>
    m = PrefixRuleMatch (take (length (pattern_tokens (rule_pattern rule))) cmd) (rule_decision rule) None (rule_justification rule)"
  by (auto simp: rule_matches_def matches_prefix_covers split: if_splits)

lemma rule_matches_program: "rule_matches rule cmd = Some m \<Longrightarrow> cmd \<noteq> [] \<and> hd cmd = rule_program rule"
  by (cases cmd) (auto dest!: rule_matches_Some simp: pattern_tokens_def rule_program_def)

subsection \<open>Network rules\<close>

datatype network_rule_protocol = Http | Https | Socks5Tcp | Socks5Udp

definition protocol_parse :: "string \<Rightarrow> exec_error + network_rule_protocol" where
  "protocol_parse raw =
     (if raw = ''http'' then Inr Http
      else if raw \<in> {''https'', ''https_connect'', ''http-connect''} then Inr Https
      else if raw = ''socks5_tcp'' then Inr Socks5Tcp
      else if raw = ''socks5_udp'' then Inr Socks5Udp
      else Inl (InvalidRule
        (''network_rule protocol must be one of http, https, socks5_tcp, socks5_udp (got '' @ raw @ '')'')))"

fun as_policy_string :: "network_rule_protocol \<Rightarrow> string" where
  "as_policy_string Http = ''http''"
| "as_policy_string Https = ''https''"
| "as_policy_string Socks5Tcp = ''socks5_tcp''"
| "as_policy_string Socks5Udp = ''socks5_udp''"

lemma protocol_round_trip: "protocol_parse (as_policy_string p) = Inr p"
  by (cases p) (simp_all add: protocol_parse_def)

record network_rule =
  net_host :: string
  net_protocol :: network_rule_protocol
  net_decision :: decision
  net_justification :: "string option"

subsection \<open>Host names\<close>

fun split_once :: "'a \<Rightarrow> 'a list \<Rightarrow> ('a list \<times> 'a list) option" where
  "split_once d [] = None"
| "split_once d (c # cs) =
     (if c = d then Some ([], cs) else map_option (\<lambda>(l, r). (c # l, r)) (split_once d cs))"

definition rsplit_once :: "'a \<Rightarrow> 'a list \<Rightarrow> ('a list \<times> 'a list) option" where
  "rsplit_once d s = map_option (\<lambda>(r, l). (rev l, rev r)) (split_once d (rev s))"

definition is_ascii_digit :: "char \<Rightarrow> bool" where
  "is_ascii_digit c \<longleftrightarrow> of_char c \<in> {48 .. 57 :: nat}"

definition ascii_lower :: "char \<Rightarrow> char" where
  "ascii_lower c = (if of_char c \<in> {65 .. 90 :: nat} then char_of (of_char c + 32 :: nat) else c)"

definition trim_end_char :: "char \<Rightarrow> string \<Rightarrow> string" where
  "trim_end_char c s = rev (dropWhile (\<lambda>x. x = c) (rev s))"

definition host_error :: "string \<Rightarrow> exec_error + 'a" where
  "host_error why = Inl (InvalidRule (''network_rule host '' @ why))"

text \<open>A host in brackets, with a port or without; and a host with a single colon before a port.\<close>

definition strip_host_port :: "string \<Rightarrow> string \<Rightarrow> exec_error + string" where
  "strip_host_port raw host =
     (case strip_prefix ''['' host of
        Some stripped \<Rightarrow>
          (case split_once CHR '']'' stripped of
             None \<Rightarrow> host_error ''has an invalid bracketed IPv6 literal''
           | Some (inside, rest) \<Rightarrow>
               (let port_ok = (case strip_prefix '':'' rest of
                                 None \<Rightarrow> False
                               | Some port \<Rightarrow> port \<noteq> [] \<and> list_all is_ascii_digit port)
                in if rest \<noteq> [] \<and> \<not> port_ok then host_error (''contains an unsupported suffix: '' @ raw)
                   else Inr inside))
      | None \<Rightarrow>
          (if count_list host CHR '':'' = 1 then
             (case rsplit_once CHR '':'' host of
                Some (candidate, port) \<Rightarrow>
                  if candidate \<noteq> [] \<and> port \<noteq> [] \<and> list_all is_ascii_digit port then Inr candidate else Inr host
              | None \<Rightarrow> Inr host)
           else Inr host))"

definition normalize_network_rule_host :: "string \<Rightarrow> exec_error + string" where
  "normalize_network_rule_host raw =
     (let host = trim raw in
      if host = [] then host_error ''cannot be empty''
      else if str_contains host ''://'' \<or> CHR ''/'' \<in> set host \<or> CHR ''?'' \<in> set host \<or> CHR 0x23 \<in> set host
        then host_error ''must be a hostname or IP literal (without scheme or path)''
      else (case strip_host_port raw host of
        Inl e \<Rightarrow> Inl e
      | Inr host \<Rightarrow>
          (let normalized = map ascii_lower (trim (trim_end_char CHR ''.'' host)) in
           if normalized = [] then host_error ''cannot be empty''
           else if CHR ''*'' \<in> set normalized
             then host_error ''must be a specific host; wildcards are not allowed''
           else if list_ex is_whitespace (chars normalized) then host_error ''cannot contain whitespace''
           else Inr normalized)))"

subsection \<open>Executable names\<close>

definition executable_lookup_key :: "string \<Rightarrow> string" where
  "executable_lookup_key raw = raw"

text \<open>\<open>file_name\<close> is \<open>Path::file_name\<close> followed by \<open>to_str\<close>.\<close>

definition executable_path_lookup_key :: "(string \<Rightarrow> string option) \<Rightarrow> string \<Rightarrow> string option" where
  "executable_path_lookup_key file_name path = map_option executable_lookup_key (file_name path)"

subsection \<open>Canonical host names\<close>

text \<open>The set of bytes of a trimmed string.\<close>

lemma set_trim_start: "set (trim_start s) \<subseteq> set s"
proof -
  have "s = concat (takeWhile is_whitespace (chars s)) @ trim_start s"
    by (simp add: trim_start_def flip: concat_append)
  then show ?thesis by (metis Un_upper2 set_append)
qed

lemma set_trim_end: "set (trim_end s) \<subseteq> set s"
proof -
  have "s = trim_end s @ concat (rev (takeWhile is_whitespace (rev (chars s))))"
    by (simp add: trim_end_def flip: concat_append rev_append)
  then show ?thesis by (metis Un_upper1 set_append)
qed

lemma set_trim: "set (trim s) \<subseteq> set s"
  using set_trim_start set_trim_end unfolding trim_def by blast

lemma set_trim_end_char: "set (trim_end_char c s) \<subseteq> set s"
  by (auto simp: trim_end_char_def dest: set_dropWhileD)

lemma split_once_Some: "split_once d s = Some (l, r) \<longleftrightarrow> s = l @ d # r \<and> d \<notin> set l"
proof (induction s arbitrary: l)
  case (Cons c s)
  then show ?case by (cases l) auto
qed simp

lemma rsplit_once_Some: "rsplit_once d s = Some (l, r) \<longleftrightarrow> s = l @ d # r \<and> d \<notin> set r"
proof -
  have "rsplit_once d s = Some (l, r) \<longleftrightarrow> split_once d (rev s) = Some (rev r, rev l)"
    by (cases "split_once d (rev s)") (auto simp: rsplit_once_def)
  then show ?thesis using split_once_Some [of d "rev s" "rev r" "rev l"] by (auto simp: rev_eq_append_conv)
qed

lemma strip_host_port_set: "strip_host_port raw host = Inr h \<Longrightarrow> set h \<subseteq> set host"
  by (auto simp: strip_host_port_def host_error_def Let_def split_once_Some rsplit_once_Some strip_prefix_Some
      split: option.splits if_splits)

lemma ascii_lower_idem [simp]: "ascii_lower (ascii_lower c) = ascii_lower c"
  by (auto simp: ascii_lower_def)

lemma ascii_lower_fixed [simp]:
  "of_char c < (65::nat) \<Longrightarrow> ascii_lower c = c"
  by (simp add: ascii_lower_def)

lemma ascii_lower_eq:
  assumes "of_char c < (65::nat)" and "ascii_lower x = c"
  shows "x = c"
  using assms by (auto simp: ascii_lower_def split: if_splits)

text \<open>
  What a stored host looks like: not empty, in lower case, no white space, no wildcard, and
  nothing that belongs to a scheme, a path, a query or a fragment.
\<close>

definition canonical_host :: "string \<Rightarrow> bool" where
  "canonical_host h \<longleftrightarrow>
     h \<noteq> [] \<and> map ascii_lower h = h \<and> \<not> list_ex is_whitespace (chars h) \<and>
     set ''*/?'' \<inter> set h = {} \<and> CHR 0x23 \<notin> set h"

lemma normalize_canonical:
  assumes "normalize_network_rule_host raw = Inr h"
  shows "canonical_host h"
proof -
  let ?t = "trim raw"
  note eq = assms [unfolded normalize_network_rule_host_def Let_def host_error_def]
  from eq have t: "CHR ''/'' \<notin> set ?t" "CHR ''?'' \<notin> set ?t" "CHR 0x23 \<notin> set ?t"
    by (simp_all only: split: if_splits) simp_all
  obtain s where s: "strip_host_port raw ?t = Inr s"
    using eq by (cases "strip_host_port raw ?t") (simp_all only: sum.case split: if_splits, simp_all)
  define n where "n = map ascii_lower (trim (trim_end_char CHR ''.'' s))"
  from eq have "n = h \<and> n \<noteq> [] \<and> CHR ''*'' \<notin> set n \<and> \<not> list_ex is_whitespace (chars n)"
    unfolding s sum.case n_def [symmetric] by (simp only: split: if_splits) simp_all
  then have rest: "h \<noteq> []" "CHR ''*'' \<notin> set h" "\<not> list_ex is_whitespace (chars h)" and
    h: "h = map ascii_lower (trim (trim_end_char CHR ''.'' s))"
    unfolding n_def [symmetric] by blast+
  have keep: "set (trim (trim_end_char CHR ''.'' s)) \<subseteq> set ?t"
    using set_trim set_trim_end_char strip_host_port_set [OF s] by blast
  have fresh: "c \<in> set ?t" if "c \<in> set h" "of_char c < (65::nat)" for c
  proof -
    from that(1) have "c \<in> ascii_lower ` set (trim (trim_end_char CHR ''.'' s))" unfolding h set_map .
    then obtain x where x: "x \<in> set (trim (trim_end_char CHR ''.'' s))" "ascii_lower x = c" by blast
    show ?thesis using keep x(1) unfolding ascii_lower_eq [OF that(2) x(2)] ..
  qed
  have "CHR ''/'' \<notin> set h" "CHR ''?'' \<notin> set h" "CHR 0x23 \<notin> set h"
    using t fresh [of "CHR ''/''"] fresh [of "CHR ''?''"] fresh [of "CHR 0x23"] by auto
  moreover have "map ascii_lower h = h" unfolding h by simp
  ultimately show ?thesis using rest by (simp add: canonical_host_def del: list_ex_iff)
qed

lemma trim_no_space:
  assumes "\<not> list_ex is_whitespace (chars s)"
  shows "trim s = s"
proof -
  have "trim_start s = s" "trim_end s = s"
    using assms by (simp_all add: trim_start_def trim_end_def list_ex_iff dropWhile_eq_self_iff)
      (metis hd_in_set set_rev dropWhile_eq_self_iff concat_chars rev_rev_ident)
  then show ?thesis by (simp add: trim_def)
qed

text \<open>A stored host without colon, bracket or final dot is read as itself.\<close>

lemma normalize_plain:
  assumes "canonical_host h" and "CHR '':'' \<notin> set h" and "CHR ''['' \<notin> set h" and "\<not> ends_with h ''.''"
  shows "normalize_network_rule_host h = Inr h"
proof -
  have t: "trim h = h" using assms(1) trim_no_space by (simp add: canonical_host_def)
  have "strip_prefix ''['' h = None" using assms(3) by (auto simp: strip_prefix_None)
  then have p: "strip_host_port h h = Inr h" using assms(2) by (simp add: strip_host_port_def count_list_0_iff)
  have "trim_end_char CHR ''.'' h = h"
  proof (cases "rev h")
    case (Cons c cs)
    then have "h = rev cs @ [c]" by simp
    with assms(4) show ?thesis by (auto simp: trim_end_char_def ends_with_iff)
  qed (simp add: trim_end_char_def)
  moreover have "\<not> str_contains h ''://''"
    using assms(2) by (auto simp: str_contains_def str_find_Some occurs_at_def)
  ultimately show ?thesis
    using assms(1) t p by (simp add: normalize_network_rule_host_def canonical_host_def Let_def del: list_ex_iff)
qed

subsection \<open>Error messages\<close>

text \<open>The \<open>Display\<close> of the errors; the debug print of a list of strings is a parameter.\<close>

fun exec_error_text :: "(string list \<Rightarrow> string) \<Rightarrow> exec_error \<Rightarrow> string" where
  "exec_error_text dbg (InvalidDecision raw) = ''invalid decision: '' @ raw"
| "exec_error_text dbg (InvalidPattern why) = ''invalid pattern element: '' @ why"
| "exec_error_text dbg (InvalidExample why) = ''invalid example: '' @ why"
| "exec_error_text dbg (InvalidRule why) = ''invalid rule: '' @ why"
| "exec_error_text dbg (ExampleDidNotMatch rules examples _) =
     ''expected every example to match at least one rule. rules: '' @ dbg rules @ ''; unmatched examples: '' @ dbg examples"
| "exec_error_text dbg (ExampleDidMatch rule example _) =
     ''expected example to not match rule `'' @ rule @ ''`: '' @ example"
| "exec_error_text dbg (StarlarkFailure why _) = ''starlark error: '' @ why"

end
