(* ===== verification/Exec_Policy.thy ===== *)
theory Exec_Policy
  imports Exec_Rules "HOL-Library.List_Lexorder" "HOL-Library.Char_ord"
begin

section \<open>The execution policy\<close>

text \<open>
  \<open>codex-rs/execpolicy/src/policy.rs\<close> and the example checks of \<open>rule.rs\<close>. A \<open>MultiMap\<close> is a
  hash map from keys to vectors: \<open>insert\<close> appends to the vector of its key, \<open>get_vec\<close> is that
  vector, \<open>iter_all\<close> runs over the entries. The model keeps the entries in a list whose order
  stands for the unspecified order of the hash map; the results below do not depend on it.
\<close>

subsection \<open>State\<close>

type_synonym 'r multi_map = "(string \<times> 'r list) list"

type_synonym rule_map = "prefix_rule multi_map"

fun mm_insert :: "string \<Rightarrow> 'r \<Rightarrow> 'r multi_map \<Rightarrow> 'r multi_map" where
  "mm_insert k r [] = [(k, [r])]"
| "mm_insert k r ((k', rs) # m) = (if k' = k then (k', rs @ [r]) # m else (k', rs) # mm_insert k r m)"

definition mm_get_vec :: "'r multi_map \<Rightarrow> string \<Rightarrow> 'r list option" where
  "mm_get_vec m k = map_of m k"

record exec_policy =
  rules_by_program :: rule_map
  network_rules :: "network_rule list"
  host_executables_by_name :: "string \<Rightarrow> string list option"

record match_options =
  resolve_host_executables :: bool

definition default_options :: match_options where
  "default_options = \<lparr>resolve_host_executables = False\<rparr>"

type_synonym fallback = "string list \<Rightarrow> decision"

text \<open>
  What the code asks of paths: \<open>AbsolutePathBuf::try_from\<close> on the program of a command, and the
  file name of the result.
\<close>

record program_paths =
  to_absolute :: "string \<Rightarrow> string option"
  path_file_name :: "string \<Rightarrow> string option"

definition from_parts ::
    "rule_map \<Rightarrow> network_rule list \<Rightarrow> (string \<Rightarrow> string list option) \<Rightarrow> exec_policy" where
  "from_parts rules nets hosts =
     \<lparr>rules_by_program = rules, network_rules = nets, host_executables_by_name = hosts\<rparr>"

definition new_policy :: "rule_map \<Rightarrow> exec_policy" where
  "new_policy rules = from_parts rules [] (\<lambda>_. None)"

definition empty_policy :: exec_policy where
  "empty_policy = new_policy []"

subsection \<open>Changing a policy\<close>

definition add_prefix_rule :: "exec_policy \<Rightarrow> string list \<Rightarrow> decision \<Rightarrow> exec_error + exec_policy" where
  "add_prefix_rule p prefix d =
     (case prefix of
        [] \<Rightarrow> Inl (InvalidPattern ''prefix cannot be empty'')
      | first_token # rest \<Rightarrow>
          Inr (p\<lparr>rules_by_program :=
            mm_insert first_token
              \<lparr>rule_pattern = \<lparr>pattern_first = first_token, pattern_rest = map Single rest\<rparr>,
               rule_decision = d, rule_justification = None\<rparr>
              (rules_by_program p)\<rparr>))"

definition add_network_rule ::
    "exec_policy \<Rightarrow> string \<Rightarrow> network_rule_protocol \<Rightarrow> decision \<Rightarrow> string option \<Rightarrow> exec_error + exec_policy" where
  "add_network_rule p host protocol d justification =
     (case normalize_network_rule_host host of
        Inl e \<Rightarrow> Inl e
      | Inr host \<Rightarrow>
          if (case justification of None \<Rightarrow> False | Some raw \<Rightarrow> trim raw = [])
          then Inl (InvalidRule ''justification cannot be empty'')
          else Inr (p\<lparr>network_rules := network_rules p @
            [\<lparr>net_host = host, net_protocol = protocol, net_decision = d, net_justification = justification\<rparr>]\<rparr>))"

definition set_host_executable_paths :: "exec_policy \<Rightarrow> string \<Rightarrow> string list \<Rightarrow> exec_policy" where
  "set_host_executable_paths p name paths =
     p\<lparr>host_executables_by_name := (host_executables_by_name p)(name \<mapsto> paths)\<rparr>"

definition merge_overlay :: "exec_policy \<Rightarrow> exec_policy \<Rightarrow> exec_policy" where
  "merge_overlay p overlay =
     from_parts
       (fold (\<lambda>(program, rules) m. fold (mm_insert program) rules m) (rules_by_program overlay) (rules_by_program p))
       (network_rules p @ network_rules overlay)
       (host_executables_by_name p ++ host_executables_by_name overlay)"

subsection \<open>Reading a policy\<close>

fun render_pattern_token :: "pattern_token \<Rightarrow> string" where
  "render_pattern_token (Single value) = value"
| "render_pattern_token (Alts alternatives) = ''['' @ join ''|'' alternatives @ '']''"

definition get_allowed_prefixes :: "exec_policy \<Rightarrow> string list list" where
  "get_allowed_prefixes p =
     remdups_adj (sort (concat (map (\<lambda>(_, rules).
       [pattern_first (rule_pattern rule) # map render_pattern_token (pattern_rest (rule_pattern rule)).
        rule \<leftarrow> rules, rule_decision rule = Allow]) (rules_by_program p))))"

definition upsert_domain :: "string list \<Rightarrow> string \<Rightarrow> string list" where
  "upsert_domain entries host = filter (\<lambda>entry. entry \<noteq> host) entries @ [host]"

fun domain_step :: "network_rule \<Rightarrow> string list \<times> string list \<Rightarrow> string list \<times> string list" where
  "domain_step rule (allowed, denied) =
     (case net_decision rule of
        Allow \<Rightarrow> (upsert_domain allowed (net_host rule), filter (\<lambda>entry. entry \<noteq> net_host rule) denied)
      | Forbidden \<Rightarrow> (filter (\<lambda>entry. entry \<noteq> net_host rule) allowed, upsert_domain denied (net_host rule))
      | Prompt \<Rightarrow> (allowed, denied))"

definition compiled_network_domains :: "exec_policy \<Rightarrow> string list \<times> string list" where
  "compiled_network_domains p = fold domain_step (network_rules p) ([], [])"

subsection \<open>Matching a command\<close>

definition match_exact_rules :: "exec_policy \<Rightarrow> string list \<Rightarrow> rule_match list option" where
  "match_exact_rules p cmd =
     (case cmd of
        [] \<Rightarrow> None
      | first # _ \<Rightarrow>
          Some (case mm_get_vec (rules_by_program p) first of
                  None \<Rightarrow> []
                | Some rules \<Rightarrow> List.map_filter (\<lambda>rule. rule_matches rule cmd) rules))"

definition match_host_executable_rules :: "program_paths \<Rightarrow> exec_policy \<Rightarrow> string list \<Rightarrow> rule_match list" where
  "match_host_executable_rules paths p cmd =
     (case cmd of
        [] \<Rightarrow> []
      | first # args \<Rightarrow>
          (case to_absolute paths first of
             None \<Rightarrow> []
           | Some program \<Rightarrow>
               (case executable_path_lookup_key (path_file_name paths) program of
                  None \<Rightarrow> []
                | Some basename \<Rightarrow>
                    (case mm_get_vec (rules_by_program p) basename of
                       None \<Rightarrow> []
                     | Some rules \<Rightarrow>
                         if (case host_executables_by_name p basename of
                               None \<Rightarrow> False | Some allowed \<Rightarrow> program \<notin> set allowed)
                         then []
                         else map (\<lambda>m. with_resolved_program m program)
                                (List.map_filter (\<lambda>rule. rule_matches rule (basename # args)) rules)))))"

definition matches_for_command_with_options ::
    "program_paths \<Rightarrow> exec_policy \<Rightarrow> string list \<Rightarrow> fallback option \<Rightarrow> match_options \<Rightarrow> rule_match list" where
  "matches_for_command_with_options paths p cmd heuristics_fallback options =
     (let matched_rules =
        (case match_exact_rules p cmd of
           Some (m # ms) \<Rightarrow> m # ms
         | _ \<Rightarrow> if resolve_host_executables options then match_host_executable_rules paths p cmd else [])
      in case heuristics_fallback of
           Some h \<Rightarrow> if matched_rules = [] then [HeuristicsRuleMatch cmd (h cmd)] else matched_rules
         | None \<Rightarrow> matched_rules)"

definition matches_for_command :: "program_paths \<Rightarrow> exec_policy \<Rightarrow> string list \<Rightarrow> fallback option \<Rightarrow> rule_match list" where
  "matches_for_command paths p cmd heuristics_fallback =
     matches_for_command_with_options paths p cmd heuristics_fallback default_options"

subsection \<open>Evaluation\<close>

record evaluation =
  eval_decision :: decision
  matched_rules :: "rule_match list"

fun is_heuristics :: "rule_match \<Rightarrow> bool" where
  "is_heuristics (HeuristicsRuleMatch _ _) = True"
| "is_heuristics _ = False"

definition evaluation_is_match :: "evaluation \<Rightarrow> bool" where
  "evaluation_is_match e \<longleftrightarrow> (\<exists>m \<in> set (matched_rules e). \<not> is_heuristics m)"

fun max_decision :: "decision list \<Rightarrow> decision option" where
  "max_decision [] = None"
| "max_decision (d # ds) = Some (fold max ds d)"

text \<open>\<open>None\<close> is the panic of \<open>expect\<close>.\<close>

definition from_matches :: "rule_match list \<Rightarrow> evaluation option" where
  "from_matches ms =
     map_option (\<lambda>d. \<lparr>eval_decision = d, matched_rules = ms\<rparr>) (max_decision (map match_decision ms))"

definition check_with_options ::
    "program_paths \<Rightarrow> exec_policy \<Rightarrow> string list \<Rightarrow> fallback \<Rightarrow> match_options \<Rightarrow> evaluation option" where
  "check_with_options paths p cmd h options =
     from_matches (matches_for_command_with_options paths p cmd (Some h) options)"

definition check_command :: "program_paths \<Rightarrow> exec_policy \<Rightarrow> string list \<Rightarrow> fallback \<Rightarrow> evaluation option" where
  "check_command paths p cmd h =
     from_matches (matches_for_command_with_options paths p cmd (Some h) default_options)"

definition check_multiple_with_options ::
    "program_paths \<Rightarrow> exec_policy \<Rightarrow> string list list \<Rightarrow> fallback \<Rightarrow> match_options \<Rightarrow> evaluation option" where
  "check_multiple_with_options paths p commands h options =
     from_matches (concat (map (\<lambda>cmd. matches_for_command_with_options paths p cmd (Some h) options) commands))"

definition check_multiple ::
    "program_paths \<Rightarrow> exec_policy \<Rightarrow> string list list \<Rightarrow> fallback \<Rightarrow> evaluation option" where
  "check_multiple paths p commands h = check_multiple_with_options paths p commands h default_options"

subsection \<open>Examples of a rule\<close>

text \<open>
  What other code renders for messages: \<open>shlex::try_join\<close>, and the derived \<open>Debug\<close> of rules and
  matches.
\<close>

record rendering =
  try_join :: "string list \<Rightarrow> string option"
  debug_rule :: "prefix_rule \<Rightarrow> string"
  debug_match :: "rule_match \<Rightarrow> string"

definition render_example :: "rendering \<Rightarrow> string list \<Rightarrow> string" where
  "render_example rd example =
     (case try_join rd example of None \<Rightarrow> ''unable to render example'' | Some str \<Rightarrow> str)"

definition validate_match_examples ::
    "rendering \<Rightarrow> program_paths \<Rightarrow> exec_policy \<Rightarrow> prefix_rule list \<Rightarrow> string list list \<Rightarrow> exec_error + unit" where
  "validate_match_examples rd paths p rules examples =
     (let unmatched_examples =
        [render_example rd example. example \<leftarrow> examples,
           matches_for_command_with_options paths p example None \<lparr>resolve_host_executables = True\<rparr> = []]
      in if unmatched_examples = [] then Inr ()
         else Inl (ExampleDidNotMatch (map (debug_rule rd) rules) unmatched_examples None))"

fun validate_not_match_examples ::
    "rendering \<Rightarrow> program_paths \<Rightarrow> exec_policy \<Rightarrow> prefix_rule list \<Rightarrow> string list list \<Rightarrow> exec_error + unit" where
  "validate_not_match_examples rd paths p rules [] = Inr ()"
| "validate_not_match_examples rd paths p rules (example # examples) =
     (case matches_for_command_with_options paths p example None \<lparr>resolve_host_executables = True\<rparr> of
        rule # _ \<Rightarrow> Inl (ExampleDidMatch (debug_match rd rule) (render_example rd example) None)
      | [] \<Rightarrow> validate_not_match_examples rd paths p rules examples)"

subsection \<open>The index by program\<close>

text \<open>Every rule is stored once, under its own program.\<close>

definition indexed :: "('r \<Rightarrow> string) \<Rightarrow> 'r multi_map \<Rightarrow> bool" where
  "indexed program m \<longleftrightarrow> distinct (map fst m) \<and> (\<forall>(k, rs) \<in> set m. \<forall>r \<in> set rs. program r = k)"

definition all_rules :: "'r multi_map \<Rightarrow> 'r list" where
  "all_rules m = concat (map snd m)"

lemma fst_mm_insert: "fst ` set (mm_insert k r m) = insert k (fst ` set m)"
  by (induction k r m rule: mm_insert.induct) auto

lemma indexed_Nil [simp]: "indexed program []"
  by (simp add: indexed_def)

lemma indexed_Cons:
  "indexed program ((k, rs) # m) \<longleftrightarrow>
    k \<notin> fst ` set m \<and> (\<forall>r \<in> set rs. program r = k) \<and> indexed program m"
  by (auto simp: indexed_def)

lemma indexed_mm_insert: "indexed program m \<Longrightarrow> program r = k \<Longrightarrow> indexed program (mm_insert k r m)"
  by (induction k r m rule: mm_insert.induct) (auto simp: indexed_Cons fst_mm_insert)

lemma indexed_mm_insert_all:
  "indexed program m \<Longrightarrow> \<forall>r \<in> set rs. program r = k \<Longrightarrow> indexed program (fold (mm_insert k) rs m)"
  by (induction rs arbitrary: m) (simp_all add: indexed_mm_insert)

text \<open>The rules under a program; a missing entry and an empty one are the same to every caller.\<close>

definition rules_for :: "'r multi_map \<Rightarrow> string \<Rightarrow> 'r list" where
  "rules_for m k = (case mm_get_vec m k of None \<Rightarrow> [] | Some rs \<Rightarrow> rs)"

lemma rules_for_Nil [simp]: "rules_for [] k = []"
  by (simp add: rules_for_def mm_get_vec_def)

lemma rules_for_Cons: "rules_for ((k', rs) # m) k = (if k' = k then rs else rules_for m k)"
  by (simp add: rules_for_def mm_get_vec_def)

lemma rules_for_absent: "k \<notin> fst ` set m \<Longrightarrow> rules_for m k = []"
  by (induction m) (auto simp: rules_for_Cons)

lemma rules_for_insert: "rules_for (mm_insert k r m) k' = rules_for m k' @ (if k' = k then [r] else [])"
  by (induction k r m rule: mm_insert.induct) (auto simp: rules_for_Cons)

lemma rules_for_insert_all: "rules_for (fold (mm_insert k) rs m) k' = rules_for m k' @ (if k' = k then rs else [])"
  by (induction rs arbitrary: m) (auto simp: rules_for_insert)

lemma set_all_rules_insert: "set (all_rules (mm_insert k r m)) = insert r (set (all_rules m))"
  by (induction k r m rule: mm_insert.induct) (auto simp: all_rules_def)

lemma set_all_rules_insert_all: "set (all_rules (fold (mm_insert k) rs m)) = set rs \<union> set (all_rules m)"
  by (induction rs arbitrary: m) (auto simp: set_all_rules_insert)

text \<open>
  The \<open>Rule\<close> trait with its contract: a rule matches commands of its program only. Under it
  the lookup by the first word of a command finds every rule that matches the command.
\<close>

locale policy_rule =
  fixes program :: "'r \<Rightarrow> string"
    and matches :: "'r \<Rightarrow> string list \<Rightarrow> 'm option"
  assumes own_program: "matches r cmd = Some m \<Longrightarrow> cmd \<noteq> [] \<and> hd cmd = program r"
begin

lemma other_program: "program r \<noteq> first \<Longrightarrow> matches r (first # args) = None"
  using own_program [of r "first # args"] by (cases "matches r (first # args)") auto

lemma other_programs:
  "\<forall>r \<in> set rs. program r \<noteq> first \<Longrightarrow> List.map_filter (\<lambda>r. matches r (first # args)) rs = []"
  by (induction rs) (simp_all add: map_filter_simps other_program)

lemma lookup_finds_all:
  assumes "indexed program m"
  shows "List.map_filter (\<lambda>r. matches r (first # args)) (all_rules m) =
    List.map_filter (\<lambda>r. matches r (first # args)) (rules_for m first)"
  using assms
proof (induction m)
  case (Cons e m)
  obtain k rs where e: "e = (k, rs)" by (cases e)
  with Cons.prems have m: "indexed program m" "k \<notin> fst ` set m" "\<forall>r \<in> set rs. program r = k"
    by (simp_all add: indexed_Cons)
  show ?case
  proof (cases "k = first")
    case True
    with Cons.IH [OF m(1)] rules_for_absent [OF m(2)] e show ?thesis
      by (simp add: all_rules_def rules_for_Cons List.map_filter_def)
  next
    case False
    with m(3) have "List.map_filter (\<lambda>r. matches r (first # args)) rs = []" by (intro other_programs) auto
    with Cons.IH [OF m(1)] False e show ?thesis
      by (simp add: all_rules_def rules_for_Cons List.map_filter_def)
  qed
qed (simp add: all_rules_def map_filter_simps)

end

interpretation prefix: policy_rule rule_program rule_matches
  by unfold_locales (rule rule_matches_program)

subsection \<open>Well-formed policies\<close>

text \<open>The invariant: the index is sound, and every stored host is canonical.\<close>

definition wf_policy :: "exec_policy \<Rightarrow> bool" where
  "wf_policy p \<longleftrightarrow>
     indexed rule_program (rules_by_program p) \<and> (\<forall>r \<in> set (network_rules p). canonical_host (net_host r))"

lemma wf_empty: "wf_policy empty_policy"
  by (simp add: wf_policy_def empty_policy_def new_policy_def from_parts_def)

lemma wf_add_prefix_rule: "wf_policy p \<Longrightarrow> add_prefix_rule p prefix d = Inr p' \<Longrightarrow> wf_policy p'"
  by (auto simp: wf_policy_def add_prefix_rule_def rule_program_def intro!: indexed_mm_insert split: list.splits)

lemma wf_add_network_rule:
  "wf_policy p \<Longrightarrow> add_network_rule p host protocol d j = Inr p' \<Longrightarrow> wf_policy p'"
  by (auto simp: wf_policy_def add_network_rule_def split: sum.splits if_splits) (erule normalize_canonical)

lemma wf_set_host_executable_paths: "wf_policy p \<Longrightarrow> wf_policy (set_host_executable_paths p name paths)"
  by (simp add: wf_policy_def set_host_executable_paths_def)

abbreviation insert_rules :: "rule_map \<Rightarrow> rule_map \<Rightarrow> rule_map" where
  "insert_rules later m \<equiv> fold (\<lambda>(program, rules) m. fold (mm_insert program) rules m) later m"

lemma insert_rules_indexed:
  "indexed rule_program later \<Longrightarrow> indexed rule_program m \<Longrightarrow> indexed rule_program (insert_rules later m)"
  by (induction later arbitrary: m) (auto simp: indexed_Cons indexed_mm_insert_all)

lemma rules_for_insert_rules:
  "indexed rule_program later \<Longrightarrow> rules_for (insert_rules later m) k = rules_for m k @ rules_for later k"
proof (induction later arbitrary: m)
  case (Cons e later)
  obtain k' rs where e: "e = (k', rs)" by (cases e)
  with Cons.prems have prems: "k' \<notin> fst ` set later" "indexed rule_program later" by (simp_all add: indexed_Cons)
  from Cons.IH [OF prems(2)] rules_for_absent [OF prems(1)] e show ?case
    by (auto simp: rules_for_insert_all rules_for_Cons)
qed simp

lemma set_insert_rules: "set (all_rules (insert_rules later m)) = set (all_rules later) \<union> set (all_rules m)"
proof (induction later arbitrary: m)
  case (Cons e later)
  then show ?case by (cases e) (auto simp: set_all_rules_insert_all all_rules_def [of "_ # _"] all_rules_def [of later])
qed (simp add: all_rules_def)

lemma wf_merge_overlay: "wf_policy p \<Longrightarrow> wf_policy overlay \<Longrightarrow> wf_policy (merge_overlay p overlay)"
  by (auto simp: wf_policy_def merge_overlay_def from_parts_def insert_rules_indexed)

subsection \<open>What the checks find\<close>

lemma match_exact_rules_Cons:
  "match_exact_rules p (first # args) =
    Some (List.map_filter (\<lambda>rule. rule_matches rule (first # args)) (rules_for (rules_by_program p) first))"
  by (simp add: match_exact_rules_def rules_for_def map_filter_simps split: option.splits)

lemma max_decision_Some:
  "max_decision ds = Some d \<longleftrightarrow> d \<in> set ds \<and> (\<forall>x \<in> set ds. x \<le> d)"
proof (cases ds)
  case (Cons a as)
  have fold: "fold max as a \<in> set (a # as) \<and> (\<forall>x \<in> set (a # as). x \<le> fold max as a)" for a :: decision
  proof (induction as arbitrary: a)
    case (Cons b as)
    from Cons [of "max b a"] show ?case by (auto simp: max_def split: if_splits)
  qed simp
  from fold [of a] show ?thesis unfolding Cons by (auto intro: antisym)
qed simp

lemma max_decision_None [simp]: "max_decision ds = None \<longleftrightarrow> ds = []"
  by (cases ds) simp_all

lemma from_matches_Some:
  "from_matches ms = Some e \<longleftrightarrow>
    matched_rules e = ms \<and> eval_decision e \<in> match_decision ` set ms \<and> (\<forall>m \<in> set ms. match_decision m \<le> eval_decision e)"
  by (cases e) (auto simp: from_matches_def max_decision_Some)

lemma from_matches_None [simp]: "from_matches ms = None \<longleftrightarrow> ms = []"
  by (simp add: from_matches_def)

lemma fallback_match_nonempty: "matches_for_command_with_options paths p cmd (Some h) options \<noteq> []"
  by (simp add: matches_for_command_with_options_def Let_def split: option.splits list.splits)

lemma matches_exact_only:
  "matches_for_command paths p cmd None =
    (case cmd of
       [] \<Rightarrow> []
     | first # args \<Rightarrow>
         List.map_filter (\<lambda>rule. rule_matches rule cmd) (rules_for (rules_by_program p) first))"
  by (simp add: matches_for_command_def matches_for_command_with_options_def default_options_def Let_def
      match_exact_rules_Cons split: list.splits option.splits)
    (simp add: match_exact_rules_def)

lemma exact_rules_first:
  assumes "matches_for_command paths p cmd None \<noteq> []"
  shows "matches_for_command_with_options paths p cmd h options = matches_for_command paths p cmd None"
  using assms
  by (cases cmd)
    (auto simp: matches_exact_only matches_for_command_with_options_def Let_def match_exact_rules_Cons
      split: list.splits option.splits)

lemma covers_single: "covers (map Single prefix) cmd \<longleftrightarrow> starts_with cmd prefix"
proof (induction prefix arbitrary: cmd)
  case (Cons t ts)
  show ?case
    using Cons.IH by (cases cmd) (auto simp: starts_with_iff)
qed (simp add: starts_with_iff)

lemma rule_matches_single:
  "rule_matches \<lparr>rule_pattern = \<lparr>pattern_first = w, pattern_rest = map Single ws\<rparr>, rule_decision = d, rule_justification = j\<rparr> cmd =
    (if starts_with cmd (w # ws) then Some (PrefixRuleMatch (w # ws) d None j) else None)"
proof -
  have "covers (Single w # map Single ws) cmd \<longleftrightarrow> starts_with cmd (w # ws)"
    using covers_single [of "w # ws" cmd] by simp
  then show ?thesis
    by (auto simp: rule_matches_def matches_prefix_covers pattern_tokens_def starts_with_iff)
qed

subsection \<open>Properties\<close>

text \<open>
  Looking rules up by the first word of a command loses none: the matches are those of
  all rules of the policy, tried one after the other.
\<close>

theorem lookup_by_program_is_complete:
  assumes "wf_policy p"
  shows "matches_for_command paths p cmd None =
    List.map_filter (\<lambda>rule. rule_matches rule cmd) (all_rules (rules_by_program p))"
proof (cases cmd)
  case Nil
  have "rule_matches rule [] = None" for rule
    using rule_matches_program [of rule "[]"] by (cases "rule_matches rule []") auto
  then show ?thesis by (simp add: Nil matches_exact_only List.map_filter_def)
next
  case (Cons first args)
  with prefix.lookup_finds_all [of "rules_by_program p" first args] assms show ?thesis
    by (simp add: matches_exact_only wf_policy_def)
qed

definition sample_rule :: "string list \<Rightarrow> decision \<Rightarrow> prefix_rule" where
  "sample_rule prefix d =
     \<lparr>rule_pattern = \<lparr>pattern_first = hd prefix, pattern_rest = map Single (tl prefix)\<rparr>,
      rule_decision = d, rule_justification = None\<rparr>"

definition sample_paths :: program_paths where
  "sample_paths =
     \<lparr>to_absolute = (\<lambda>p. if starts_with p ''/'' then Some p else Some (''/w/'' @ p)),
      path_file_name = (\<lambda>p. map_option snd (rsplit_once CHR ''/'' p))\<rparr>"

definition sample_policy :: exec_policy where
  "sample_policy = new_policy
     [(''git'', [sample_rule [''git''] Prompt, sample_rule [''git'', ''status''] Allow]),
      (''rm'', [sample_rule [''rm'', ''-rf''] Forbidden])]"

lemma wf_sample: "wf_policy sample_policy"
  by (simp add: wf_policy_def sample_policy_def new_policy_def from_parts_def indexed_def rule_program_def sample_rule_def)

theorem lookup_by_program_is_complete_witness:
  "matches_for_command sample_paths sample_policy [''git'', ''status'', ''-s''] None =
    [PrefixRuleMatch [''git''] Prompt None None, PrefixRuleMatch [''git'', ''status''] Allow None None]"
  unfolding lookup_by_program_is_complete [OF wf_sample]
  by code_simp

text \<open>
  (C40) Checking a list of commands never panics when there is one, and its decision is the
  strictest of all matches of all commands.
\<close>

theorem check_is_total_and_strictest:
  "\<exists>e. check_multiple_with_options paths p (cmd # commands) h options = Some e \<and>
     matched_rules e = concat (map (\<lambda>c. matches_for_command_with_options paths p c (Some h) options) (cmd # commands)) \<and>
     eval_decision e = Max (match_decision ` set (matched_rules e))"
proof -
  let ?ms = "concat (map (\<lambda>c. matches_for_command_with_options paths p c (Some h) options) (cmd # commands))"
  have "?ms \<noteq> []" using fallback_match_nonempty [of paths p cmd h options] by simp
  then obtain e where e: "from_matches ?ms = Some e" by (cases "from_matches ?ms") (simp only: from_matches_None)
  then have ms: "matched_rules e = ?ms"
    and "eval_decision e = Max (match_decision ` set (matched_rules e))"
    unfolding from_matches_Some by (blast, intro Max_eqI [symmetric]) auto
  with e show ?thesis unfolding check_multiple_with_options_def by blast
qed

lemma added_rule_matches:
  assumes "add_prefix_rule p prefix d = Inr p'"
  shows "matches_for_command paths p' cmd None =
    matches_for_command paths p cmd None @
      (if starts_with cmd prefix then [PrefixRuleMatch prefix d None None] else [])"
proof -
  from assms obtain w ws where prefix: "prefix = w # ws"
    and p': "p' = p\<lparr>rules_by_program := mm_insert w
        \<lparr>rule_pattern = \<lparr>pattern_first = w, pattern_rest = map Single ws\<rparr>, rule_decision = d, rule_justification = None\<rparr>
        (rules_by_program p)\<rparr>"
    by (auto simp: add_prefix_rule_def split: list.splits)
  show ?thesis
  proof (cases cmd)
    case (Cons first args)
    then show ?thesis
      by (auto simp: matches_exact_only prefix p' rules_for_insert rule_matches_single List.map_filter_def starts_with_iff)
  qed (simp add: matches_exact_only prefix starts_with_iff)
qed

text \<open>
  A prefix rule that is added matches exactly the commands that start with its words, and
  changes nothing else.
\<close>

theorem added_prefix_rule_matches_its_commands:
  assumes "add_prefix_rule p prefix d = Inr p'"
  shows "matches_for_command paths p' cmd None =
    matches_for_command paths p cmd None @
      (if starts_with cmd prefix then [PrefixRuleMatch prefix d None None] else [])"
  by (rule added_rule_matches [OF assms])

theorem added_prefix_rule_matches_its_commands_witness:
  "\<exists>p'. add_prefix_rule sample_policy [''git'', ''push''] Forbidden = Inr p' \<and>
    matches_for_command sample_paths p' [''git'', ''push'', ''-f''] None =
      [PrefixRuleMatch [''git''] Prompt None None, PrefixRuleMatch [''git'', ''push''] Forbidden None None]"
proof -
  obtain p' where p': "add_prefix_rule sample_policy [''git'', ''push''] Forbidden = Inr p'"
    by (simp add: add_prefix_rule_def)
  have "List.map_filter (\<lambda>rule. rule_matches rule [''git'', ''push'', ''-f''])
      (rules_for (rules_by_program sample_policy) ''git'') = [PrefixRuleMatch [''git''] Prompt None None]"
    by code_simp
  then have "matches_for_command sample_paths sample_policy [''git'', ''push'', ''-f''] None =
      [PrefixRuleMatch [''git''] Prompt None None]"
    by (simp add: matches_exact_only)
  with added_prefix_rule_matches_its_commands [OF p', of sample_paths "[''git'', ''push'', ''-f'']"] p' show ?thesis
    by (auto simp: starts_with_iff)
qed



text \<open>The last rule about a host that is not a prompt.\<close>

definition last_word :: "network_rule list \<Rightarrow> string \<Rightarrow> decision option" where
  "last_word rules host =
     map_option net_decision (List.find (\<lambda>r. net_host r = host \<and> net_decision r \<noteq> Prompt) (rev rules))"

text \<open>
  The compiled domain lists: no host occurs twice or in both, and a host is allowed
  (denied) exactly if the last rule about it that is not a prompt allows (forbids) it.
\<close>

theorem compiled_domains_follow_the_last_rule:
  "distinct (fst (compiled_network_domains p) @ snd (compiled_network_domains p)) \<and>
   set (fst (compiled_network_domains p)) = {host. last_word (network_rules p) host = Some Allow} \<and>
   set (snd (compiled_network_domains p)) = {host. last_word (network_rules p) host = Some Forbidden}"
proof -
  define rules where "rules = network_rules p"
  have "distinct (fst (fold domain_step rules ([], [])) @ snd (fold domain_step rules ([], []))) \<and>
     set (fst (fold domain_step rules ([], []))) = {host. last_word rules host = Some Allow} \<and>
     set (snd (fold domain_step rules ([], []))) = {host. last_word rules host = Some Forbidden}"
  proof (induction rules rule: rev_induct)
    case (snoc r rules)
    obtain allowed denied where f: "fold domain_step rules ([], []) = (allowed, denied)" by fastforce
    show ?case
    proof (cases "net_decision r")
      case Prompt
      with snoc f show ?thesis by (auto simp: last_word_def)
    qed (use snoc f in \<open>auto simp: last_word_def upsert_domain_def split: if_splits\<close>)
  qed (simp add: last_word_def)
  then show ?thesis unfolding compiled_network_domains_def rules_def .
qed

lemma distinct_remdups_adj: "sorted xs \<Longrightarrow> distinct (remdups_adj xs)"
proof (induction xs rule: remdups_adj.induct)
  case (3 x y xs)
  then show ?case by (cases "x = y") (auto dest: antisym)
qed simp_all

lemma sort_dedup: "remdups_adj (sort xs) = sorted_list_of_set (set xs)"
  by (intro sorted_distinct_set_unique) (simp_all add: distinct_remdups_adj)

lemma set_selected_rules:
  "set (concat (map (\<lambda>(_, rules). [f rule. rule \<leftarrow> rules, P rule]) m)) = f ` {rule \<in> set (all_rules m). P rule}"
proof (induction m)
  case (Cons e m)
  obtain k rules where e: "e = (k, rules)" by (cases e)
  have "set [f rule. rule \<leftarrow> rules, P rule] = f ` {rule \<in> set rules. P rule}" by (induction rules) auto
  moreover have "{rule \<in> set (all_rules (e # m)). P rule} = {rule \<in> set rules. P rule} \<union> {rule \<in> set (all_rules m). P rule}"
    by (auto simp: all_rules_def e)
  ultimately show ?case using Cons by (simp add: e image_Un)
qed (simp add: all_rules_def)

text \<open>
  The allowed prefixes are the rendered patterns of all allow rules, in order and without
  duplicates, whatever the order of the hash map.
\<close>

theorem allowed_prefixes_are_sorted_and_complete:
  "get_allowed_prefixes p =
    sorted_list_of_set ((\<lambda>rule. pattern_first (rule_pattern rule) # map render_pattern_token (pattern_rest (rule_pattern rule))) `
      {rule \<in> set (all_rules (rules_by_program p)). rule_decision rule = Allow})"
  unfolding get_allowed_prefixes_def sort_dedup set_selected_rules ..

lemma host_rule_matched:
  assumes "m \<in> set (match_host_executable_rules paths p (first # args))"
  obtains program basename rule m' where
    "to_absolute paths first = Some program" "path_file_name paths program = Some basename"
    "case host_executables_by_name p basename of None \<Rightarrow> True | Some allowed \<Rightarrow> program \<in> set allowed"
    "rule \<in> set (rules_for (rules_by_program p) basename)"
    "rule_matches rule (basename # args) = Some m'" "m = with_resolved_program m' program"
proof -
  obtain program where program: "to_absolute paths first = Some program"
    using assms by (cases "to_absolute paths first") (simp_all add: match_host_executable_rules_def)
  obtain basename where basename: "path_file_name paths program = Some basename"
    using assms program
    by (cases "path_file_name paths program") (simp_all add: match_host_executable_rules_def executable_path_lookup_key_def)
  obtain rules where rules: "mm_get_vec (rules_by_program p) basename = Some rules"
    using assms program basename
    by (cases "mm_get_vec (rules_by_program p) basename")
      (simp_all add: match_host_executable_rules_def executable_path_lookup_key_def executable_lookup_key_def)
  from assms program basename rules have
    ok: "case host_executables_by_name p basename of None \<Rightarrow> True | Some allowed \<Rightarrow> program \<in> set allowed" and
    m: "m \<in> (\<lambda>m. with_resolved_program m program) ` set (List.map_filter (\<lambda>rule. rule_matches rule (basename # args)) rules)"
    by (auto simp: match_host_executable_rules_def executable_path_lookup_key_def executable_lookup_key_def
        split: if_splits option.splits)
  then show ?thesis using that [OF program basename ok] rules by (auto simp: List.map_filter_def rules_for_def)
qed

lemma host_rule_found:
  assumes "to_absolute paths first = Some program" "path_file_name paths program = Some basename"
    "case host_executables_by_name p basename of None \<Rightarrow> True | Some allowed \<Rightarrow> program \<in> set allowed"
    "rule \<in> set (rules_for (rules_by_program p) basename)" "rule_matches rule (basename # args) = Some m"
  shows "with_resolved_program m program \<in> set (match_host_executable_rules paths p (first # args))"
proof -
  obtain rules where rules: "mm_get_vec (rules_by_program p) basename = Some rules" "rule \<in> set rules"
    using assms(4) by (cases "mm_get_vec (rules_by_program p) basename") (simp_all add: rules_for_def)
  have "\<not> (case host_executables_by_name p basename of None \<Rightarrow> False | Some allowed \<Rightarrow> program \<notin> set allowed)"
    using assms(3) by (auto split: option.splits)
  moreover have "m \<in> set (List.map_filter (\<lambda>rule. rule_matches rule (basename # args)) rules)"
    using rules(2) assms(5) by (force simp: List.map_filter_def)
  ultimately show ?thesis
    using assms(1,2) rules(1)
    by (simp add: match_host_executable_rules_def executable_path_lookup_key_def executable_lookup_key_def)
qed

text \<open>
  A rule that is matched through the file name of the program names the absolute path it
  stands for; where the policy lists the paths of that name, the path is one of them; and no
  rule matches the command as written.
\<close>

theorem host_executables_are_gated:
  assumes "PrefixRuleMatch prefix d (Some program) j \<in>
      set (matches_for_command_with_options paths p (first # args) None options)"
  shows "to_absolute paths first = Some program \<and> path_file_name paths program = Some (hd prefix) \<and>
    (case host_executables_by_name p (hd prefix) of None \<Rightarrow> True | Some allowed \<Rightarrow> program \<in> set allowed) \<and>
    resolve_host_executables options \<and> matches_for_command paths p (first # args) None = []"
proof -
  have exact: "PrefixRuleMatch prefix d (Some program) j \<notin> set (matches_for_command paths p (first # args) None)"
    by (auto simp: matches_exact_only List.map_filter_def rule_matches_def)
  with assms exact_rules_first [of paths p "first # args" None options]
  have none: "matches_for_command paths p (first # args) None = []" by metis
  then have "match_exact_rules p (first # args) = Some []"
    by (simp add: matches_exact_only match_exact_rules_Cons)
  with assms have "resolve_host_executables options"
    and m: "PrefixRuleMatch prefix d (Some program) j \<in> set (match_host_executable_rules paths p (first # args))"
    by (auto simp: matches_for_command_with_options_def split: if_splits)
  from m obtain program' basename rule m' where host:
    "to_absolute paths first = Some program'" "path_file_name paths program' = Some basename"
    "case host_executables_by_name p basename of None \<Rightarrow> True | Some allowed \<Rightarrow> program' \<in> set allowed"
    "rule_matches rule (basename # args) = Some m'"
    "PrefixRuleMatch prefix d (Some program) j = with_resolved_program m' program'"
    by (rule host_rule_matched)
  from rule_matches_Some [OF host(4)] host(5) have "program' = program" "hd prefix = basename"
    by (auto simp: pattern_tokens_def)
  with host none \<open>resolve_host_executables options\<close> show ?thesis by (auto split: option.splits)
qed

definition gated_policy :: exec_policy where
  "gated_policy = set_host_executable_paths sample_policy ''git'' [''/usr/bin/git'']"

theorem host_executables_are_gated_witness:
  "matches_for_command sample_paths gated_policy [''/usr/bin/git'', ''push''] None = [] \<and>
   PrefixRuleMatch [''git''] Prompt (Some ''/usr/bin/git'') None \<in>
      set (matches_for_command_with_options sample_paths gated_policy [''/usr/bin/git'', ''push''] None
        \<lparr>resolve_host_executables = True\<rparr>)"
proof -
  have m: "PrefixRuleMatch [''git''] Prompt (Some ''/usr/bin/git'') None \<in>
      set (matches_for_command_with_options sample_paths gated_policy [''/usr/bin/git'', ''push''] None
        \<lparr>resolve_host_executables = True\<rparr>)"
    by code_simp
  from host_executables_are_gated [OF m] m show ?thesis by blast
qed

text \<open>
  Without listed paths a relative program is resolved too, against the current directory: a
  program of the workspace is matched by the rules of its base name.
\<close>

lemma relative_program_is_resolved:
  "matches_for_command_with_options sample_paths sample_policy [''./git'', ''status''] None
      \<lparr>resolve_host_executables = True\<rparr> =
    [PrefixRuleMatch [''git''] Prompt (Some ''/w/./git'') None, PrefixRuleMatch [''git'', ''status''] Allow (Some ''/w/./git'') None]"
  by code_simp

end
