(* ===== verification/Policy_Language.thy ===== *)
theory Policy_Language
  imports Exec_Policy
begin

section \<open>Rules files\<close>

text \<open>
  \<open>codex-rs/execpolicy/src/parser.rs\<close>: what the builtins of a rules file do to the policy that is
  being built, and the examples that are checked once the file has run. The file itself is a
  Starlark program, and the interpreter is a parameter: it calls the builtins one after the other.
\<close>

subsection \<open>Values of the interpreter\<close>

text \<open>What the code asks of a Starlark value: a string, a list, and the name of its type.\<close>

record 'v starlark =
  unpack_str :: "'v \<Rightarrow> string option"
  list_content :: "'v \<Rightarrow> 'v list option"
  get_type :: "'v \<Rightarrow> string"
  shlex_split :: "string \<Rightarrow> string list option"

text \<open>What the code asks of \<open>Path\<close>, beside what matching asks.\<close>

record path_syntax = program_paths +
  is_absolute :: "string \<Rightarrow> bool"
  component_count :: "string \<Rightarrow> nat"
  absolute_error :: "string \<Rightarrow> string"

subsection \<open>Reading arguments\<close>

definition pattern_alternative :: "'v starlark \<Rightarrow> 'v \<Rightarrow> exec_error + string" where
  "pattern_alternative sl value =
     (case unpack_str sl value of
        Some s \<Rightarrow> Inr s
      | None \<Rightarrow> Inl (InvalidPattern (''pattern alternative must be a string (got '' @ get_type sl value @ '')'')))"

definition parse_pattern_token :: "'v starlark \<Rightarrow> 'v \<Rightarrow> exec_error + pattern_token" where
  "parse_pattern_token sl value =
     (case unpack_str sl value of
        Some s \<Rightarrow> Inr (Single s)
      | None \<Rightarrow>
          (case list_content sl value of
             Some content \<Rightarrow>
               (case try_map (pattern_alternative sl) content of
                  Inl e \<Rightarrow> Inl e
                | Inr [] \<Rightarrow> Inl (InvalidPattern ''pattern alternatives cannot be empty'')
                | Inr [single] \<Rightarrow> Inr (Single single)
                | Inr tokens \<Rightarrow> Inr (Alts tokens))
           | None \<Rightarrow> Inl (InvalidPattern
               (''pattern element must be a string or list of strings (got '' @ get_type sl value @ '')''))))"

definition parse_pattern :: "'v starlark \<Rightarrow> 'v list \<Rightarrow> exec_error + pattern_token list" where
  "parse_pattern sl pattern =
     (case try_map (parse_pattern_token sl) pattern of
        Inl e \<Rightarrow> Inl e
      | Inr tokens \<Rightarrow> if tokens = [] then Inl (InvalidPattern ''pattern cannot be empty'') else Inr tokens)"

definition parse_string_example :: "'v starlark \<Rightarrow> string \<Rightarrow> exec_error + string list" where
  "parse_string_example sl raw =
     (case shlex_split sl raw of
        None \<Rightarrow> Inl (InvalidExample ''example string has invalid shell syntax'')
      | Some tokens \<Rightarrow>
          if tokens = [] then Inl (InvalidExample ''example cannot be an empty string'') else Inr tokens)"

definition example_token :: "'v starlark \<Rightarrow> 'v \<Rightarrow> exec_error + string" where
  "example_token sl value =
     (case unpack_str sl value of
        Some s \<Rightarrow> Inr s
      | None \<Rightarrow> Inl (InvalidExample (''example tokens must be strings (got '' @ get_type sl value @ '')'')))"

definition parse_list_example :: "'v starlark \<Rightarrow> 'v list \<Rightarrow> exec_error + string list" where
  "parse_list_example sl content =
     (case try_map (example_token sl) content of
        Inl e \<Rightarrow> Inl e
      | Inr tokens \<Rightarrow>
          if tokens = [] then Inl (InvalidExample ''example cannot be an empty list'') else Inr tokens)"

definition parse_example :: "'v starlark \<Rightarrow> 'v \<Rightarrow> exec_error + string list" where
  "parse_example sl value =
     (case unpack_str sl value of
        Some raw \<Rightarrow> parse_string_example sl raw
      | None \<Rightarrow>
          (case list_content sl value of
             Some content \<Rightarrow> parse_list_example sl content
           | None \<Rightarrow> Inl (InvalidExample
               (''example must be a string or list of strings (got '' @ get_type sl value @ '')''))))"

definition parse_examples :: "'v starlark \<Rightarrow> 'v list \<Rightarrow> exec_error + string list list" where
  "parse_examples sl examples = try_map (parse_example sl) examples"

definition parse_literal_absolute_path :: "'x path_syntax_scheme \<Rightarrow> string \<Rightarrow> exec_error + string" where
  "parse_literal_absolute_path ps raw =
     (if \<not> is_absolute ps raw then Inl (InvalidRule (''host_executable paths must be absolute (got '' @ raw @ '')''))
      else (case to_absolute ps raw of
              Some path \<Rightarrow> Inr path
            | None \<Rightarrow> Inl (InvalidRule (''invalid absolute path `'' @ raw @ ''`: '' @ absolute_error ps raw))))"

definition validate_host_executable_name :: "'x path_syntax_scheme \<Rightarrow> string \<Rightarrow> exec_error + unit" where
  "validate_host_executable_name ps name =
     (if name = [] then Inl (InvalidRule ''host_executable name cannot be empty'')
      else if component_count ps name \<noteq> 1 \<or> path_file_name ps name \<noteq> Some name
        then Inl (InvalidRule (''host_executable name must be a bare executable name (got '' @ name @ '')''))
      else Inr ())"

definition parse_network_rule_decision :: "string \<Rightarrow> exec_error + decision" where
  "parse_network_rule_decision raw = (if raw = ''deny'' then Inr Forbidden else decision_parse raw)"

definition attach_validation_location :: "exec_error \<Rightarrow> error_location option \<Rightarrow> exec_error" where
  "attach_validation_location e location =
     (case location of Some l \<Rightarrow> with_location e l | None \<Rightarrow> e)"

text \<open>The check of a justification that both rule builtins make.\<close>

definition check_justification :: "string option \<Rightarrow> exec_error + string option" where
  "check_justification justification =
     (case justification of
        Some raw \<Rightarrow> if trim raw = [] then Inl (InvalidRule ''justification cannot be empty'') else Inr (Some raw)
      | None \<Rightarrow> Inr None)"

subsection \<open>The builder\<close>

record pending_example_validation =
  pending_rules :: "prefix_rule list"
  pending_matches :: "string list list"
  pending_not_matches :: "string list list"
  pending_location :: "error_location option"

record policy_builder =
  builder_rules :: rule_map
  builder_network_rules :: "network_rule list"
  builder_host_executables :: "string \<Rightarrow> string list option"
  pending_example_validations :: "pending_example_validation list"

definition new_builder :: policy_builder where
  "new_builder =
     \<lparr>builder_rules = [], builder_network_rules = [], builder_host_executables = (\<lambda>_. None),
      pending_example_validations = []\<rparr>"

definition builder_add_rule :: "prefix_rule \<Rightarrow> policy_builder \<Rightarrow> policy_builder" where
  "builder_add_rule rule b = b\<lparr>builder_rules := mm_insert (rule_program rule) rule (builder_rules b)\<rparr>"

definition builder_add_network_rule :: "network_rule \<Rightarrow> policy_builder \<Rightarrow> policy_builder" where
  "builder_add_network_rule rule b = b\<lparr>builder_network_rules := builder_network_rules b @ [rule]\<rparr>"

definition builder_add_host_executable :: "string \<Rightarrow> string list \<Rightarrow> policy_builder \<Rightarrow> policy_builder" where
  "builder_add_host_executable name paths b =
     b\<lparr>builder_host_executables := (builder_host_executables b)(name \<mapsto> paths)\<rparr>"

definition add_pending_example_validation ::
    "prefix_rule list \<Rightarrow> string list list \<Rightarrow> string list list \<Rightarrow> error_location option \<Rightarrow> policy_builder \<Rightarrow> policy_builder" where
  "add_pending_example_validation rules examples not_examples location b =
     b\<lparr>pending_example_validations := pending_example_validations b @
       [\<lparr>pending_rules = rules, pending_matches = examples, pending_not_matches = not_examples,
         pending_location = location\<rparr>]\<rparr>"

text \<open>The policy of the rules of one statement, under the host executables of the whole builder.\<close>

definition validation_policy :: "policy_builder \<Rightarrow> pending_example_validation \<Rightarrow> exec_policy" where
  "validation_policy b v =
     from_parts (fold (\<lambda>rule m. mm_insert (rule_program rule) rule m) (pending_rules v) []) []
       (builder_host_executables b)"

definition validate_pending ::
    "rendering \<Rightarrow> program_paths \<Rightarrow> policy_builder \<Rightarrow> pending_example_validation \<Rightarrow> exec_error + unit" where
  "validate_pending rd paths b v =
     (case validate_not_match_examples rd paths (validation_policy b v) (pending_rules v) (pending_not_matches v) of
        Inl e \<Rightarrow> Inl (attach_validation_location e (pending_location v))
      | Inr _ \<Rightarrow>
          (case validate_match_examples rd paths (validation_policy b v) (pending_rules v) (pending_matches v) of
             Inl e \<Rightarrow> Inl (attach_validation_location e (pending_location v))
           | Inr _ \<Rightarrow> Inr ()))"

definition validate_pending_examples_from ::
    "rendering \<Rightarrow> program_paths \<Rightarrow> policy_builder \<Rightarrow> nat \<Rightarrow> exec_error + unit" where
  "validate_pending_examples_from rd paths b start =
     map_sum id (\<lambda>_. ()) (try_map (validate_pending rd paths b) (drop start (pending_example_validations b)))"

definition build_policy :: "policy_builder \<Rightarrow> exec_policy" where
  "build_policy b = from_parts (builder_rules b) (builder_network_rules b) (builder_host_executables b)"

subsection \<open>The builtins\<close>

definition prefix_rules_of ::
    "pattern_token list \<Rightarrow> decision \<Rightarrow> string option \<Rightarrow> prefix_rule list" where
  "prefix_rules_of tokens d justification =
     map (\<lambda>head. \<lparr>rule_pattern = \<lparr>pattern_first = head, pattern_rest = tl tokens\<rparr>,
                  rule_decision = d, rule_justification = justification\<rparr>)
       (alternatives_of (hd tokens))"

definition prefix_rule_builtin ::
    "'v starlark \<Rightarrow> 'v list \<Rightarrow> string option \<Rightarrow> 'v list option \<Rightarrow> 'v list option \<Rightarrow> string option
     \<Rightarrow> file_span option \<Rightarrow> policy_builder \<Rightarrow> exec_error + policy_builder" where
  "prefix_rule_builtin sl pattern decision examples not_examples justification call_top b =
     (case (case decision of Some raw \<Rightarrow> decision_parse raw | None \<Rightarrow> Inr Allow) of
        Inl e \<Rightarrow> Inl e
      | Inr d \<Rightarrow>
     (case check_justification justification of
        Inl e \<Rightarrow> Inl e
      | Inr justification \<Rightarrow>
     (case parse_pattern sl pattern of
        Inl e \<Rightarrow> Inl e
      | Inr tokens \<Rightarrow>
     (case (case examples of None \<Rightarrow> Inr [] | Some vs \<Rightarrow> parse_examples sl vs) of
        Inl e \<Rightarrow> Inl e
      | Inr ms \<Rightarrow>
     (case (case not_examples of None \<Rightarrow> Inr [] | Some vs \<Rightarrow> parse_examples sl vs) of
        Inl e \<Rightarrow> Inl e
      | Inr not_ms \<Rightarrow>
          if tokens = [] then Inl (InvalidPattern ''pattern cannot be empty'')
          else
            (let rules = prefix_rules_of tokens d justification;
                 b = add_pending_example_validation rules ms not_ms
                       (map_option error_location_from_file_span call_top) b
             in Inr (fold builder_add_rule rules b)))))))"

definition network_rule_builtin ::
    "string \<Rightarrow> string \<Rightarrow> string \<Rightarrow> string option \<Rightarrow> policy_builder \<Rightarrow> exec_error + policy_builder" where
  "network_rule_builtin host protocol decision justification b =
     (case protocol_parse protocol of
        Inl e \<Rightarrow> Inl e
      | Inr protocol \<Rightarrow>
     (case parse_network_rule_decision decision of
        Inl e \<Rightarrow> Inl e
      | Inr d \<Rightarrow>
     (case check_justification justification of
        Inl e \<Rightarrow> Inl e
      | Inr justification \<Rightarrow>
     (case normalize_network_rule_host host of
        Inl e \<Rightarrow> Inl e
      | Inr host \<Rightarrow>
          Inr (builder_add_network_rule
            \<lparr>net_host = host, net_protocol = protocol, net_decision = d, net_justification = justification\<rparr> b)))))"

text \<open>One path of \<open>host_executable\<close>, and the loop that drops repeated paths.\<close>

definition host_executable_path ::
    "'v starlark \<Rightarrow> 'x path_syntax_scheme \<Rightarrow> string \<Rightarrow> 'v \<Rightarrow> exec_error + string" where
  "host_executable_path sl ps name value =
     (case unpack_str sl value of
        None \<Rightarrow> Inl (InvalidRule (''host_executable paths must be strings (got '' @ get_type sl value @ '')''))
      | Some raw \<Rightarrow>
          (case parse_literal_absolute_path ps raw of
             Inl e \<Rightarrow> Inl e
           | Inr path \<Rightarrow>
               if executable_path_lookup_key (path_file_name ps) path = Some (executable_lookup_key name)
               then Inr path
               else Inl (InvalidRule (''host_executable path `'' @ raw @ ''` must have basename `'' @ name @ ''`''))))"

fun host_executable_paths ::
    "'v starlark \<Rightarrow> 'x path_syntax_scheme \<Rightarrow> string \<Rightarrow> 'v list \<Rightarrow> string list \<Rightarrow> exec_error + string list" where
  "host_executable_paths sl ps name [] parsed_paths = Inr parsed_paths"
| "host_executable_paths sl ps name (value # items) parsed_paths =
     (case host_executable_path sl ps name value of
        Inl e \<Rightarrow> Inl e
      | Inr path \<Rightarrow>
          host_executable_paths sl ps name items
            (if path \<in> set parsed_paths then parsed_paths else parsed_paths @ [path]))"

definition host_executable_builtin ::
    "'v starlark \<Rightarrow> 'x path_syntax_scheme \<Rightarrow> string \<Rightarrow> 'v list \<Rightarrow> policy_builder \<Rightarrow> exec_error + policy_builder" where
  "host_executable_builtin sl ps name paths b =
     (case validate_host_executable_name ps name of
        Inl e \<Rightarrow> Inl e
      | Inr _ \<Rightarrow>
     (case host_executable_paths sl ps name paths [] of
        Inl e \<Rightarrow> Inl e
      | Inr parsed_paths \<Rightarrow>
          Inr (builder_add_host_executable (executable_lookup_key name) parsed_paths b)))"

subsection \<open>Running a file\<close>

text \<open>
  A call the interpreter makes, with the location of the call. The interpreter stops at the
  first builtin that fails and wraps its error; what earlier calls did to the builder stays.
\<close>

datatype 'v builtin_call =
    CallPrefixRule "'v list" "string option" "'v list option" "'v list option" "string option" "file_span option"
  | CallNetworkRule string string string "string option"
  | CallHostExecutable string "'v list"

fun run_call ::
    "'v starlark \<Rightarrow> 'x path_syntax_scheme \<Rightarrow> 'v builtin_call \<Rightarrow> policy_builder \<Rightarrow> exec_error + policy_builder" where
  "run_call sl ps (CallPrefixRule pattern decision ms not_ms justification call_top) b =
     prefix_rule_builtin sl pattern decision ms not_ms justification call_top b"
| "run_call sl ps (CallNetworkRule host protocol decision justification) b =
     network_rule_builtin host protocol decision justification b"
| "run_call sl ps (CallHostExecutable name paths) b = host_executable_builtin sl ps name paths b"

fun run_calls ::
    "'v starlark \<Rightarrow> 'x path_syntax_scheme \<Rightarrow> 'v builtin_call list \<Rightarrow> policy_builder
     \<Rightarrow> policy_builder \<times> exec_error option" where
  "run_calls sl ps [] b = (b, None)"
| "run_calls sl ps (call # calls) b =
     (case run_call sl ps call b of
        Inl e \<Rightarrow> (b, Some e)
      | Inr b' \<Rightarrow> run_calls sl ps calls b')"

text \<open>
  The interpreter on one file: it may refuse the text; else it makes calls and, unless one of
  them fails, ends well or with an error of its own.
\<close>

record 'v interpreter =
  module_calls :: "string \<Rightarrow> string \<Rightarrow> exec_error + ('v builtin_call list \<times> exec_error option)"
  wrap_error :: "exec_error \<Rightarrow> exec_error"

definition parse_policy_file ::
    "'v interpreter \<Rightarrow> 'v starlark \<Rightarrow> rendering \<Rightarrow> path_syntax \<Rightarrow> string \<Rightarrow> string \<Rightarrow> policy_builder
     \<Rightarrow> policy_builder \<times> (exec_error + unit)" where
  "parse_policy_file interp sl rd ps policy_id contents b =
     (case module_calls interp policy_id contents of
        Inl e \<Rightarrow> (b, Inl e)
      | Inr (calls, failure) \<Rightarrow>
          (case run_calls sl ps calls b of
             (b', Some e) \<Rightarrow> (b', Inl (wrap_error interp e))
           | (b', None) \<Rightarrow>
               (case failure of
                  Some e \<Rightarrow> (b', Inl e)
                | None \<Rightarrow>
                    (b', validate_pending_examples_from rd (program_paths.truncate ps) b'
                           (length (pending_example_validations b))))))"

fun parse_policy_files ::
    "'v interpreter \<Rightarrow> 'v starlark \<Rightarrow> rendering \<Rightarrow> path_syntax \<Rightarrow> (string \<times> string) list \<Rightarrow> policy_builder
     \<Rightarrow> (string \<times> exec_error) + policy_builder" where
  "parse_policy_files interp sl rd ps [] b = Inr b"
| "parse_policy_files interp sl rd ps ((policy_id, contents) # files) b =
     (case parse_policy_file interp sl rd ps policy_id contents b of
        (_, Inl e) \<Rightarrow> Inl (policy_id, e)
      | (b', Inr _) \<Rightarrow> parse_policy_files interp sl rd ps files b')"

subsection \<open>What the builtins keep\<close>

lemma builder_add_rules:
  "rules_for (builder_rules (fold builder_add_rule rules b)) k =
    rules_for (builder_rules b) k @ filter (\<lambda>r. rule_program r = k) rules"
  "indexed rule_program (builder_rules b) \<Longrightarrow> indexed rule_program (builder_rules (fold builder_add_rule rules b))"
  "builder_network_rules (fold builder_add_rule rules b) = builder_network_rules b"
  "builder_host_executables (fold builder_add_rule rules b) = builder_host_executables b"
  "pending_example_validations (fold builder_add_rule rules b) = pending_example_validations b"
  by (induction rules arbitrary: b)
    (auto simp: builder_add_rule_def rules_for_insert indexed_mm_insert)

text \<open>Every rule whose examples are still to be checked is in the builder.\<close>

definition wf_builder :: "policy_builder \<Rightarrow> bool" where
  "wf_builder b \<longleftrightarrow>
     indexed rule_program (builder_rules b) \<and> (\<forall>r \<in> set (builder_network_rules b). canonical_host (net_host r)) \<and>
     (\<forall>v \<in> set (pending_example_validations b). \<forall>r \<in> set (pending_rules v).
        r \<in> set (rules_for (builder_rules b) (rule_program r)))"

lemma wf_new_builder: "wf_builder new_builder"
  by (simp add: wf_builder_def new_builder_def)

lemma wf_build_policy: "wf_builder b \<Longrightarrow> wf_policy (build_policy b)"
  by (simp add: wf_builder_def wf_policy_def build_policy_def from_parts_def)

lemma prefix_rule_builtin_Inr:
  assumes "prefix_rule_builtin sl pattern decision examples not_examples justification call_top b = Inr b'"
  obtains d j ts ms not_ms where
    "(case decision of Some raw \<Rightarrow> decision_parse raw | None \<Rightarrow> Inr Allow) = Inr d"
    "check_justification justification = Inr j" "parse_pattern sl pattern = Inr ts" "ts \<noteq> []"
    "b' = fold builder_add_rule (prefix_rules_of ts d j)
      (add_pending_example_validation (prefix_rules_of ts d j) ms not_ms (map_option error_location_from_file_span call_top) b)"
  using assms unfolding prefix_rule_builtin_def Let_def
  by (simp split: sum.splits if_splits) blast

lemma check_justification_Inr: "check_justification j = Inr j' \<Longrightarrow> j' = j"
  by (auto simp: check_justification_def split: option.splits if_splits)

lemma wf_prefix_rule_builtin:
  assumes "wf_builder b" and "prefix_rule_builtin sl pattern decision examples not_examples justification call_top b = Inr b'"
  shows "wf_builder b'"
  using assms(2)
proof (rule prefix_rule_builtin_Inr)
  fix d j ts ms not_ms
  assume b': "b' = fold builder_add_rule (prefix_rules_of ts d j)
      (add_pending_example_validation (prefix_rules_of ts d j) ms not_ms (map_option error_location_from_file_span call_top) b)"
  show ?thesis
    using assms(1) unfolding wf_builder_def b'
    by (auto simp: builder_add_rules add_pending_example_validation_def)
qed

lemma wf_run_call:
  assumes "wf_builder b" and "run_call sl ps call b = Inr b'"
  shows "wf_builder b'"
proof (cases call)
  case (CallPrefixRule pattern decision ms not_ms justification call_top)
  with assms wf_prefix_rule_builtin show ?thesis by simp blast
next
  case (CallNetworkRule host protocol d justification)
  with assms normalize_canonical show ?thesis
    by (auto simp: network_rule_builtin_def builder_add_network_rule_def wf_builder_def split: sum.splits)
next
  case (CallHostExecutable name paths)
  with assms show ?thesis
    by (auto simp: host_executable_builtin_def builder_add_host_executable_def wf_builder_def split: sum.splits)
qed

lemma wf_run_calls: "wf_builder b \<Longrightarrow> wf_builder (fst (run_calls sl ps calls b))"
  by (induction sl ps calls b rule: run_calls.induct) (auto split: sum.splits intro: wf_run_call)

lemma wf_parse_policy_file:
  "wf_builder b \<Longrightarrow> wf_builder (fst (parse_policy_file interp sl rd ps policy_id contents b))"
  using wf_run_calls [of b sl ps]
  by (auto simp: parse_policy_file_def split: sum.splits prod.splits option.splits) (metis fst_conv)+

lemma wf_parse_policy_files:
  "wf_builder b \<Longrightarrow> parse_policy_files interp sl rd ps files b = Inr b' \<Longrightarrow> wf_builder b'"
proof (induction interp sl rd ps files b rule: parse_policy_files.induct)
  case (2 interp sl rd ps policy_id contents files b)
  then show ?case
    using wf_parse_policy_file [of b interp sl rd ps policy_id contents]
    by (auto split: prod.splits sum.splits)
qed simp

lemma pending_grows:
  "\<exists>vs. pending_example_validations (fst (run_calls sl ps calls b)) = pending_example_validations b @ vs"
proof (induction sl ps calls b rule: run_calls.induct)
  case (2 sl ps call calls b)
  show ?case
  proof (cases "run_call sl ps call b")
    case (Inr b')
    have "\<exists>vs. pending_example_validations b' = pending_example_validations b @ vs"
    proof (cases call)
      case (CallPrefixRule pattern decision ms not_ms justification call_top)
      with Inr have "prefix_rule_builtin sl pattern decision ms not_ms justification call_top b = Inr b'" by simp
      then show ?thesis
        by (rule prefix_rule_builtin_Inr) (simp add: builder_add_rules add_pending_example_validation_def)
    qed (use Inr in \<open>auto simp: network_rule_builtin_def host_executable_builtin_def builder_add_network_rule_def
        builder_add_host_executable_def split: sum.splits\<close>)
    moreover from "2.IH" [OF Inr] obtain vs where
      "pending_example_validations (fst (run_calls sl ps calls b')) = pending_example_validations b' @ vs" ..
    ultimately show ?thesis using Inr by auto
  qed simp
qed simp

text \<open>More rules under the same host executables match at least as many commands.\<close>

lemma more_rules_match_more:
  assumes "\<And>k. set (rules_for m k) \<subseteq> set (rules_for m' k)"
    and "matches_for_command_with_options paths (from_parts m nets hosts) cmd None options \<noteq> []"
  shows "matches_for_command_with_options paths (from_parts m' nets' hosts) cmd None options \<noteq> []"
proof (cases cmd)
  case Nil
  with assms(2) show ?thesis
    by (simp add: matches_for_command_with_options_def match_exact_rules_def match_host_executable_rules_def split: if_splits)
next
  case (Cons first args)
  have found: "List.map_filter f (rules_for m' k) \<noteq> []" if "List.map_filter f (rules_for m k) \<noteq> []" for k and f :: "prefix_rule \<Rightarrow> rule_match option"
    using that assms(1) [of k] by (auto simp: List.map_filter_def filter_empty_conv)
  show ?thesis
  proof (cases "matches_for_command paths (from_parts m nets hosts) cmd None = []")
    case False
    then have "matches_for_command paths (from_parts m' nets' hosts) cmd None \<noteq> []"
      using found by (simp add: Cons matches_exact_only from_parts_def)
    then show ?thesis using exact_rules_first by metis
  next
    case True
    have eq: "matches_for_command_with_options paths (from_parts m nets hosts) cmd None options =
        (if resolve_host_executables options then match_host_executable_rules paths (from_parts m nets hosts) cmd else [])"
      using True by (simp add: matches_for_command_with_options_def Cons matches_exact_only match_exact_rules_Cons)
    with assms(2) have resolve: "resolve_host_executables options"
      and host: "match_host_executable_rules paths (from_parts m nets hosts) cmd \<noteq> []"
      by (auto split: if_splits)
    then obtain r where "r \<in> set (match_host_executable_rules paths (from_parts m nets hosts) (first # args))"
      unfolding Cons by (cases "match_host_executable_rules paths (from_parts m nets hosts) (first # args)") auto
    then have "match_host_executable_rules paths (from_parts m' nets' hosts) cmd \<noteq> []"
    proof (rule host_rule_matched)
      fix program basename rule mtch
      assume "to_absolute paths first = Some program" "path_file_name paths program = Some basename"
        "case host_executables_by_name (from_parts m nets hosts) basename of None \<Rightarrow> True | Some allowed \<Rightarrow> program \<in> set allowed"
        "rule \<in> set (rules_for (rules_by_program (from_parts m nets hosts)) basename)"
        "rule_matches rule (basename # args) = Some mtch"
      with assms(1) [of basename] host_rule_found [of paths first program basename "from_parts m' nets' hosts" rule args mtch]
      show ?thesis unfolding Cons from_parts_def by auto
    qed
    with resolve show ?thesis
      by (auto simp: matches_for_command_with_options_def Let_def split: option.splits list.splits)
  qed
qed

subsection \<open>Properties\<close>

lemma heads_cover:
  "ts \<noteq> [] \<Longrightarrow> (\<exists>head \<in> set (alternatives_of (hd ts)). covers (Single head # tl ts) cmd) \<longleftrightarrow> covers ts cmd"
  by (cases ts; cases "hd ts"; cases cmd) auto

text \<open>
  A \<open>prefix_rule\<close> statement adds a match for exactly the commands whose words its pattern
  covers, position by position with alternatives anywhere, the first word included: spreading
  the statement over one rule per first word loses nothing and adds nothing.
\<close>

theorem prefix_rule_covers_its_pattern:
  assumes run: "prefix_rule_builtin sl pattern decision examples not_examples justification call_top b = Inr b'"
    and ts: "parse_pattern sl pattern = Inr ts"
    and d: "(case decision of Some raw \<Rightarrow> decision_parse raw | None \<Rightarrow> Inr Allow) = Inr d"
  shows "set (matches_for_command paths (build_policy b') cmd None) =
    set (matches_for_command paths (build_policy b) cmd None) \<union>
    (if covers ts cmd then {PrefixRuleMatch (take (length ts) cmd) d None justification} else {})"
proof -
  let ?rules = "prefix_rules_of ts d justification"
  from run have "ts \<noteq> [] \<and> (\<exists>ms not_ms. b' = fold builder_add_rule ?rules
      (add_pending_example_validation ?rules ms not_ms (map_option error_location_from_file_span call_top) b))"
    by (rule prefix_rule_builtin_Inr) (use ts d check_justification_Inr in fastforce)
  then have ne: "ts \<noteq> []"
    and rules: "rules_for (builder_rules b') k = rules_for (builder_rules b) k @ filter (\<lambda>r. rule_program r = k) ?rules" for k
    by (auto simp: builder_add_rules add_pending_example_validation_def)
  show ?thesis
  proof (cases cmd)
    case Nil
    with ne show ?thesis by (cases ts) (simp_all add: matches_exact_only)
  next
    case (Cons first args)
    have match: "rule_matches r cmd =
        (if covers (Single (rule_program r) # tl ts) cmd then Some (PrefixRuleMatch (take (length ts) cmd) d None justification) else None)"
      if "r \<in> set ?rules" for r
      using that ne by (auto simp: prefix_rules_of_def rule_matches_def matches_prefix_covers pattern_tokens_def rule_program_def)
    have "set (List.map_filter (\<lambda>r. rule_matches r cmd) (filter (\<lambda>r. rule_program r = first) ?rules)) =
        (if \<exists>r \<in> set ?rules. covers (Single (rule_program r) # tl ts) cmd
         then {PrefixRuleMatch (take (length ts) cmd) d None justification} else {})"
      using match by (auto simp: List.map_filter_def Cons)
    also have "(\<exists>r \<in> set ?rules. covers (Single (rule_program r) # tl ts) cmd) \<longleftrightarrow> covers ts cmd"
      using heads_cover [OF ne, of cmd] by (auto simp: prefix_rules_of_def rule_program_def)
    finally show ?thesis
      by (auto simp: matches_exact_only Cons build_policy_def from_parts_def rules List.map_filter_def)
  qed
qed

text \<open>An interpreter whose values are strings and lists of strings.\<close>

definition sample_starlark :: "(string + string list) starlark" where
  "sample_starlark =
     \<lparr>unpack_str = (\<lambda>v. case v of Inl s \<Rightarrow> Some s | Inr _ \<Rightarrow> None),
      list_content = (\<lambda>v. case v of Inl _ \<Rightarrow> None | Inr ss \<Rightarrow> Some (map Inl ss)),
      get_type = (\<lambda>v. case v of Inl _ \<Rightarrow> ''string'' | Inr _ \<Rightarrow> ''list''),
      shlex_split = (\<lambda>s. Some (split_on CHR '' '' s))\<rparr>"

theorem prefix_rule_covers_its_pattern_witness:
  "\<exists>b'. prefix_rule_builtin sample_starlark [Inr [''npm'', ''yarn''], Inl ''test''] (Some ''prompt'') None None None None new_builder = Inr b' \<and>
    PrefixRuleMatch [''yarn'', ''test''] Prompt None None \<in>
      set (matches_for_command sample_paths (build_policy b') [''yarn'', ''test'', ''--watch''] None)"
proof -
  let ?pattern = "[Inr [''npm'', ''yarn''], Inl ''test'']"
  obtain b' where b': "prefix_rule_builtin sample_starlark ?pattern (Some ''prompt'') None None None None new_builder = Inr b'"
    by (simp add: prefix_rule_builtin_def parse_pattern_def parse_pattern_token_def pattern_alternative_def
        sample_starlark_def decision_parse_def check_justification_def Let_def)
  have ts: "parse_pattern sample_starlark ?pattern = Inr [Alts [''npm'', ''yarn''], Single ''test'']"
    by (simp add: parse_pattern_def parse_pattern_token_def pattern_alternative_def sample_starlark_def)
  have d: "(case Some ''prompt'' of Some raw \<Rightarrow> decision_parse raw | None \<Rightarrow> Inr Allow) = Inr Prompt"
    by (simp add: decision_parse_def)
  from prefix_rule_covers_its_pattern [OF b' ts d, of sample_paths "[''yarn'', ''test'', ''--watch'']"] b' show ?thesis
    by simp
qed

text \<open>
  (C38) A rules file that is accepted keeps its word: in the policy of all rules read so far
  each of its positive examples is matched, and no rule of a statement matches a negative
  example of that statement.
\<close>

theorem accepted_examples_hold:
  assumes wf: "wf_builder b"
    and run: "parse_policy_file interp sl rd ps policy_id contents b = (b', Inr ())"
    and v: "v \<in> set (drop (length (pending_example_validations b)) (pending_example_validations b'))"
  shows "(\<forall>ex \<in> set (pending_matches v).
      matches_for_command_with_options (program_paths.truncate ps) (build_policy b') ex None \<lparr>resolve_host_executables = True\<rparr> \<noteq> []) \<and>
    (\<forall>ex \<in> set (pending_not_matches v).
      matches_for_command_with_options (program_paths.truncate ps) (validation_policy b' v) ex None \<lparr>resolve_host_executables = True\<rparr> = [])"
proof -
  let ?paths = "program_paths.truncate ps" and ?opts = "\<lparr>resolve_host_executables = True\<rparr>"
  from run have "validate_pending_examples_from rd ?paths b' (length (pending_example_validations b)) = Inr ()"
    by (auto simp: parse_policy_file_def split: sum.splits prod.splits option.splits)
  with v obtain y where y: "validate_pending rd ?paths b' v = Inr y"
    unfolding validate_pending_examples_from_def try_map_unit by blast
  have not_matched: "validate_not_match_examples rd paths p rules exs = Inr u \<Longrightarrow>
      \<forall>ex \<in> set exs. matches_for_command_with_options paths p ex None ?opts = []" for paths p rules exs u
    by (induction exs) (auto split: list.splits)
  from y have neg: "\<forall>ex \<in> set (pending_not_matches v). matches_for_command_with_options ?paths (validation_policy b' v) ex None ?opts = []"
    by (auto simp: validate_pending_def split: sum.splits dest!: not_matched)
  from y have pos: "\<forall>ex \<in> set (pending_matches v). matches_for_command_with_options ?paths (validation_policy b' v) ex None ?opts \<noteq> []"
    by (auto simp: validate_pending_def validate_match_examples_def filter_empty_conv split: sum.splits if_splits)
  have own: "set (rules_for (fold (\<lambda>rule m. mm_insert (rule_program rule) rule m) rules m) k) =
      {r \<in> set rules. rule_program r = k} \<union> set (rules_for m k)" for rules m k
    by (induction rules arbitrary: m) (auto simp: rules_for_insert)
  have "wf_builder b'" using wf_parse_policy_file [OF wf, of interp sl rd ps policy_id contents] run by simp
  moreover have "v \<in> set (pending_example_validations b')" using v by (rule in_set_dropD)
  ultimately have sub: "set (rules_for (fold (\<lambda>rule m. mm_insert (rule_program rule) rule m) (pending_rules v) []) k)
      \<subseteq> set (rules_for (builder_rules b') k)" for k
    by (auto simp: own wf_builder_def)
  show ?thesis
    using pos neg more_rules_match_more [OF sub] unfolding validation_policy_def build_policy_def by blast
qed

definition sample_interpreter :: "(string + string list) interpreter" where
  "sample_interpreter =
     \<lparr>module_calls = (\<lambda>_ _. Inr ([CallPrefixRule [Inl ''git'', Inl ''status''] None
         (Some [Inl ''git status -s'']) (Some [Inl ''git push'']) None None], None)),
      wrap_error = id\<rparr>"

definition sample_rendering :: rendering where
  "sample_rendering = \<lparr>try_join = (\<lambda>ws. Some (join '' '' ws)), debug_rule = (\<lambda>_. []), debug_match = (\<lambda>_. [])\<rparr>"

definition sample_syntax :: path_syntax where
  "sample_syntax = program_paths.extend sample_paths
     (path_syntax.fields (\<lambda>p. starts_with p ''/'') (\<lambda>p. 1) (\<lambda>_. []))"

theorem accepted_examples_hold_witness:
  "\<exists>b'. parse_policy_file sample_interpreter sample_starlark sample_rendering sample_syntax ''r'' [] new_builder = (b', Inr ()) \<and>
    matches_for_command_with_options (program_paths.truncate sample_syntax) (build_policy b') [''git'', ''status'', ''-s''] None
      \<lparr>resolve_host_executables = True\<rparr> \<noteq> []"
proof -
  let ?run = "parse_policy_file sample_interpreter sample_starlark sample_rendering sample_syntax ''r'' [] new_builder"
  obtain b' where run: "?run = (b', snd ?run)" by (metis prod.collapse)
  have ok: "snd ?run = Inr ()" by code_simp
  have "map pending_matches (pending_example_validations (fst ?run)) = [[[''git'', ''status'', ''-s'']]]" by code_simp
  then have ms: "map pending_matches (pending_example_validations b') = [[[''git'', ''status'', ''-s'']]]"
    by (subst (asm) run) simp
  then obtain v where v: "pending_example_validations b' = [v]" "pending_matches v = [[''git'', ''status'', ''-s'']]"
    by (auto simp: map_eq_Cons_conv)
  have none: "pending_example_validations new_builder = []" by (simp add: new_builder_def)
  from accepted_examples_hold [OF wf_new_builder run [unfolded ok], of v] v none run ok show ?thesis
    by (intro exI [of _ b']) simp
qed

text \<open>Policies as the program gets them: read from files, then changed and merged.\<close>

inductive policy_built ::
    "'v interpreter \<Rightarrow> 'v starlark \<Rightarrow> rendering \<Rightarrow> path_syntax \<Rightarrow> exec_policy \<Rightarrow> bool"
  for interp sl rd ps where
  built_empty: "policy_built interp sl rd ps empty_policy"
| built_parsed: "parse_policy_files interp sl rd ps files new_builder = Inr b \<Longrightarrow>
    policy_built interp sl rd ps (build_policy b)"
| built_prefix: "policy_built interp sl rd ps p \<Longrightarrow> add_prefix_rule p prefix d = Inr p' \<Longrightarrow>
    policy_built interp sl rd ps p'"
| built_network: "policy_built interp sl rd ps p \<Longrightarrow> add_network_rule p host protocol d j = Inr p' \<Longrightarrow>
    policy_built interp sl rd ps p'"
| built_host: "policy_built interp sl rd ps p \<Longrightarrow>
    policy_built interp sl rd ps (set_host_executable_paths p name paths)"
| built_overlay: "policy_built interp sl rd ps p \<Longrightarrow> policy_built interp sl rd ps overlay \<Longrightarrow>
    policy_built interp sl rd ps (merge_overlay p overlay)"

text \<open>
  (C39) However a policy comes about, from rules files, amendments and overlays, every rule is
  stored once under its own program and every network rule has a canonical host: not empty, in
  lower case, without white space, wildcards, scheme or path.
\<close>

theorem built_policies_are_well_formed:
  assumes "policy_built interp sl rd ps p"
  shows "wf_policy p"
  using assms
proof induction
  case (built_parsed files b)
  then show ?case using wf_parse_policy_files [OF wf_new_builder] wf_build_policy by blast
qed (auto intro: wf_empty wf_add_prefix_rule wf_add_network_rule wf_set_host_executable_paths wf_merge_overlay)

theorem built_policies_are_well_formed_witness:
  "\<exists>p. add_network_rule empty_policy '' Example.COM:443 '' Https Allow None = Inr p \<and>
    map net_host (network_rules p) = [''example.com''] \<and> wf_policy p"
proof -
  have "normalize_network_rule_host '' Example.COM:443 '' = Inr ''example.com''" by code_simp
  then obtain p where p: "add_network_rule empty_policy '' Example.COM:443 '' Https Allow None = Inr p"
    "map net_host (network_rules p) = [''example.com'']"
    by (simp add: add_network_rule_def empty_policy_def new_policy_def from_parts_def)
  from built_network [OF built_empty p(1)] have "wf_policy p"
    by (rule built_policies_are_well_formed)
  with p show ?thesis by (intro exI [of _ p] conjI)
qed

end
