(* ===== verification/Policy_Amend.thy ===== *)
theory Policy_Amend
  imports Exec_Policy Patch_Files
begin

section \<open>Amending a rules file\<close>

text \<open>
  \<open>codex-rs/execpolicy/src/amend.rs\<close>: when the user approves a command for good, a line is
  added to the rules file, unless it is there already. The calls on the file are a record of
  operations over a state; the file is opened for appending, so a write goes to its end.
\<close>

subsection \<open>The file operations\<close>

record 's rule_files =
  create_dir :: "'s \<Rightarrow> string \<Rightarrow> 's \<times> (io_error + unit)"
  open_append :: "'s \<Rightarrow> string \<Rightarrow> 's \<times> (io_error + unit)"
  lock_file :: "'s \<Rightarrow> string \<Rightarrow> io_error + unit"
  seek_start :: "'s \<Rightarrow> string \<Rightarrow> io_error + unit"
  read_to_string :: "'s \<Rightarrow> string \<Rightarrow> io_error + string"
  write_all :: "'s \<Rightarrow> string \<Rightarrow> string \<Rightarrow> 's \<times> (io_error + unit)"

datatype amend_error =
    EmptyPrefix
  | InvalidNetworkRule string
  | MissingParent string
  | CreatePolicyDir string io_error
  | SerializePrefix string
  | SerializeNetworkRule string
  | OpenPolicyFile string io_error
  | WritePolicyFile string io_error
  | LockPolicyFile string io_error
  | SeekPolicyFile string io_error
  | ReadPolicyFile string io_error
  | PolicyMetadata string io_error

definition AlreadyExists :: string where
  "AlreadyExists = ''AlreadyExists''"

subsection \<open>Appending a line\<close>

definition append_locked_line ::
    "'s rule_files \<Rightarrow> string \<Rightarrow> string \<Rightarrow> 's \<Rightarrow> 's \<times> (amend_error + unit)" where
  "append_locked_line fs policy_path line s =
     (case open_append fs s policy_path of
        (s, Inl source) \<Rightarrow> (s, Inl (OpenPolicyFile policy_path source))
      | (s, Inr _) \<Rightarrow>
     (case lock_file fs s policy_path of
        Inl source \<Rightarrow> (s, Inl (LockPolicyFile policy_path source))
      | Inr _ \<Rightarrow>
     (case seek_start fs s policy_path of
        Inl source \<Rightarrow> (s, Inl (SeekPolicyFile policy_path source))
      | Inr _ \<Rightarrow>
     (case read_to_string fs s policy_path of
        Inl source \<Rightarrow> (s, Inl (ReadPolicyFile policy_path source))
      | Inr contents \<Rightarrow>
          if line \<in> set (lines contents) then (s, Inr ())
          else
            (case (if contents \<noteq> [] \<and> \<not> ends_with contents [CHR 0x0A]
                   then write_all fs s policy_path [CHR 0x0A] else (s, Inr ())) of
               (s, Inl source) \<Rightarrow> (s, Inl (WritePolicyFile policy_path source))
             | (s, Inr _) \<Rightarrow>
            (case write_all fs s policy_path (line @ [CHR 0x0A]) of
               (s, Inl source) \<Rightarrow> (s, Inl (WritePolicyFile policy_path source))
             | (s, Inr _) \<Rightarrow> (s, Inr ())))))))"

definition append_rule_line ::
    "'s rule_files \<Rightarrow> (string \<Rightarrow> string option) \<Rightarrow> string \<Rightarrow> string \<Rightarrow> 's \<Rightarrow> 's \<times> (amend_error + unit)" where
  "append_rule_line fs parent policy_path rule s =
     (case parent policy_path of
        None \<Rightarrow> (s, Inl (MissingParent policy_path))
      | Some dir \<Rightarrow>
          (case create_dir fs s dir of
             (s, Inr _) \<Rightarrow> append_locked_line fs policy_path rule s
           | (s, Inl source) \<Rightarrow>
               if error_kind source = AlreadyExists then append_locked_line fs policy_path rule s
               else (s, Inl (CreatePolicyDir dir source))))"

text \<open>\<open>serde_json::to_string\<close> of a string, with the text of its error.\<close>

type_synonym to_json = "string \<Rightarrow> string + string"

fun json_all :: "to_json \<Rightarrow> string list \<Rightarrow> string + string list" where
  "json_all json [] = Inr []"
| "json_all json (x # xs) =
     (case json x of
        Inl e \<Rightarrow> Inl e
      | Inr y \<Rightarrow> (case json_all json xs of Inl e \<Rightarrow> Inl e | Inr ys \<Rightarrow> Inr (y # ys)))"

definition allow_rule_line :: "string list \<Rightarrow> string" where
  "allow_rule_line tokens =
     ''prefix_rule(pattern=['' @ join '', '' tokens @ ''], decision=\"allow\")''"

definition blocking_append_allow_prefix_rule ::
    "to_json \<Rightarrow> 's rule_files \<Rightarrow> (string \<Rightarrow> string option) \<Rightarrow> string \<Rightarrow> string list \<Rightarrow> 's \<Rightarrow> 's \<times> (amend_error + unit)" where
  "blocking_append_allow_prefix_rule json fs parent policy_path prefix s =
     (if prefix = [] then (s, Inl EmptyPrefix)
      else (case json_all json prefix of
              Inl source \<Rightarrow> (s, Inl (SerializePrefix source))
            | Inr tokens \<Rightarrow> append_rule_line fs parent policy_path (allow_rule_line tokens) s))"

fun policy_decision_word :: "decision \<Rightarrow> string" where
  "policy_decision_word Allow = ''allow''"
| "policy_decision_word Prompt = ''prompt''"
| "policy_decision_word Forbidden = ''deny''"

text \<open>The arguments of the rule, each under its name; the first that cannot be printed fails.\<close>

definition network_rule_args ::
    "string \<Rightarrow> network_rule_protocol \<Rightarrow> decision \<Rightarrow> string option \<Rightarrow> (string \<times> string) list" where
  "network_rule_args host protocol d justification =
     [(''host'', host), (''protocol'', as_policy_string protocol), (''decision'', policy_decision_word d)] @
     (case justification of None \<Rightarrow> [] | Some j \<Rightarrow> [(''justification'', j)])"

definition network_rule_line :: "string list \<Rightarrow> string list \<Rightarrow> string" where
  "network_rule_line names values =
     ''network_rule('' @ join '', '' (map2 (\<lambda>name value. name @ ''='' @ value) names values) @ '')''"

definition blocking_append_network_rule ::
    "(string list \<Rightarrow> string) \<Rightarrow> to_json \<Rightarrow> 's rule_files \<Rightarrow> (string \<Rightarrow> string option) \<Rightarrow> string \<Rightarrow> string
     \<Rightarrow> network_rule_protocol \<Rightarrow> decision \<Rightarrow> string option \<Rightarrow> 's \<Rightarrow> 's \<times> (amend_error + unit)" where
  "blocking_append_network_rule dbg json fs parent policy_path host protocol d justification s =
     (case normalize_network_rule_host host of
        Inl e \<Rightarrow> (s, Inl (InvalidNetworkRule (exec_error_text dbg e)))
      | Inr host \<Rightarrow>
          if (case justification of None \<Rightarrow> False | Some raw \<Rightarrow> trim raw = [])
          then (s, Inl (InvalidNetworkRule ''justification cannot be empty''))
          else
            (let args = network_rule_args host protocol d justification in
             case json_all json (map snd args) of
               Inl source \<Rightarrow> (s, Inl (SerializeNetworkRule source))
             | Inr values \<Rightarrow>
                 append_rule_line fs parent policy_path (network_rule_line (map fst args) values) s))"

subsection \<open>The contents after an append\<close>

definition with_final_newline :: "string \<Rightarrow> string" where
  "with_final_newline contents =
     (if contents \<noteq> [] \<and> \<not> ends_with contents [CHR 0x0A] then contents @ [CHR 0x0A] else contents)"

definition with_line :: "string \<Rightarrow> string \<Rightarrow> string" where
  "with_line contents line =
     (if line \<in> set (lines contents) then contents else with_final_newline contents @ line @ [CHR 0x0A])"

lemma split_on_snoc: "split_on d (s @ [d]) = split_on d s @ [[]]"
  by (simp add: split_on_at)

lemma lines_terminated:
  assumes "s = [] \<or> ends_with s [CHR 0x0A]" and "plain_line line"
  shows "lines (s @ line @ [CHR 0x0A]) = lines s @ [line]"
proof -
  have line: "split_on CHR 0x0A line = [line]" using assms(2) by (simp add: plain_line_def split_on_no_sep)
  from assms(1) consider "s = []" | r where "s = r @ [CHR 0x0A]" by (auto simp: ends_with_iff)
  then show ?thesis
  proof cases
    case 1
    with line assms(2) show ?thesis
      using split_on_snoc [of "CHR 0x0A" line] by (simp add: lines_def plain_line_def Let_def)
  next
    case 2
    have "split_on CHR 0x0A (r @ CHR 0x0A # line @ [CHR 0x0A]) = split_on CHR 0x0A r @ [line, []]"
      using line split_on_snoc [of "CHR 0x0A" line] by (simp add: split_on_at)
    with 2 assms(2) show ?thesis
      using split_on_snoc [of "CHR 0x0A" r] by (simp add: lines_def plain_line_def Let_def butlast_append)
  qed
qed

lemma with_final_newline_ends: "with_final_newline c = [] \<or> ends_with (with_final_newline c) [CHR 0x0A]"
  by (auto simp: with_final_newline_def ends_with_iff)

lemma with_line_lines:
  "plain_line line \<Longrightarrow> line \<notin> set (lines c) \<Longrightarrow> lines (with_line c line) = lines (with_final_newline c) @ [line]"
  unfolding with_line_def by (simp add: lines_terminated [OF with_final_newline_ends])

lemma with_line_has: "plain_line line \<Longrightarrow> line \<in> set (lines (with_line c line))"
  by (cases "line \<in> set (lines c)") (simp_all add: with_line_lines, simp add: with_line_def)

lemma with_line_idem: "plain_line line \<Longrightarrow> with_line (with_line c line) line = with_line c line"
  using with_line_has [of line c] by (simp add: with_line_def [of "with_line c line"])

subsection \<open>A file that keeps its laws\<close>

text \<open>What the calls do to the contents of files, when they succeed.\<close>

locale rule_file =
  fixes fs :: "'s rule_files" and view :: "'s \<Rightarrow> string \<Rightarrow> string option"
  assumes create_view: "create_dir fs s d = (s', r) \<Longrightarrow> view s' = view s"
    and open_view: "open_append fs s p = (s', Inr u) \<Longrightarrow>
      view s' = (view s)(p \<mapsto> (case view s p of None \<Rightarrow> [] | Some c \<Rightarrow> c))"
    and read_view: "read_to_string fs s p = Inr c \<Longrightarrow> view s p = Some c"
    and write_view: "write_all fs s p c = (s', Inr u) \<Longrightarrow> view s p = Some old \<Longrightarrow> view s' = (view s)(p \<mapsto> old @ c)"
begin

lemma append_locked_view:
  assumes "append_locked_line fs p line s = (s', Inr u)"
  shows "view s' = (view s)(p \<mapsto> with_line (case view s p of None \<Rightarrow> [] | Some c \<Rightarrow> c) line)"
proof -
  let ?c = "case view s p of None \<Rightarrow> [] | Some c \<Rightarrow> c"
  obtain s1 u1 where o: "open_append fs s p = (s1, Inr u1)"
    using assms by (auto simp: append_locked_line_def split: prod.splits sum.splits)
  obtain c where r: "read_to_string fs s1 p = Inr c"
    using assms o by (auto simp: append_locked_line_def split: sum.splits)
  have v1: "view s1 = (view s)(p \<mapsto> ?c)" using open_view [OF o] .
  then have c: "c = ?c" using read_view [OF r] by simp
  show ?thesis
  proof (cases "line \<in> set (lines c)")
    case True
    with assms o r v1 c show ?thesis
      by (auto simp: append_locked_line_def with_line_def split: sum.splits)
  next
    case False
    obtain s2 u2 where w: "(if c \<noteq> [] \<and> \<not> ends_with c [CHR 0x0A] then write_all fs s1 p [CHR 0x0A] else (s1, Inr ())) = (s2, Inr u2)"
      and w2: "write_all fs s2 p (line @ [CHR 0x0A]) = (s', Inr ())"
      using assms o r False
      unfolding append_locked_line_def by (simp split: sum.splits prod.splits)
    have "view s2 p = Some (with_final_newline c) \<and> view s2 = (view s)(p \<mapsto> with_final_newline c)"
    proof (cases "c \<noteq> [] \<and> \<not> ends_with c [CHR 0x0A]")
      case True
      with w write_view [of s1 p "[CHR 0x0A]" s2 u2 c] v1 c show ?thesis by (simp add: with_final_newline_def)
    next
      case F: False
      with w v1 c show ?thesis by (auto simp: with_final_newline_def)
    qed
    with write_view [OF w2] False c show ?thesis by (simp add: with_line_def)
  qed
qed

lemma append_rule_view:
  assumes "append_rule_line fs parent p line s = (s', Inr u)"
  shows "view s' = (view s)(p \<mapsto> with_line (case view s p of None \<Rightarrow> [] | Some c \<Rightarrow> c) line)"
proof -
  from assms obtain dir s1 r where d: "create_dir fs s dir = (s1, r)" and a: "append_locked_line fs p line s1 = (s', Inr u)"
    by (auto simp: append_rule_line_def split: option.splits prod.splits sum.splits if_splits)
  from append_locked_view [OF a] show ?thesis unfolding create_view [OF d] .
qed

end

subsection \<open>The lines are plain\<close>

lemma json_all_parts: "json_all json xs = Inr ys \<Longrightarrow> \<forall>y \<in> set ys. \<exists>x. json x = Inr y"
  by (induction xs arbitrary: ys) (auto split: sum.splits)

lemma join_no: "d \<notin> set sep \<Longrightarrow> \<forall>x \<in> set xs. d \<notin> set x \<Longrightarrow> d \<notin> set (join sep xs)"
proof (induction xs)
  case (Cons x xs)
  then show ?case by (cases xs) auto
qed simp

text \<open>JSON escapes control characters, so what it prints has no line break.\<close>

definition json_one_line :: "to_json \<Rightarrow> bool" where
  "json_one_line json \<longleftrightarrow> (\<forall>x y. json x = Inr y \<longrightarrow> CHR 0x0A \<notin> set y)"

lemma plain_closing: "CHR 0x0A \<notin> set s \<Longrightarrow> plain_line (s @ '')'')"
  by (auto simp: plain_line_def strip_cr_def strip_suffix_Some split: option.splits)

lemma allow_rule_plain:
  assumes "json_one_line json" and "json_all json prefix = Inr tokens"
  shows "plain_line (allow_rule_line tokens)"
proof -
  have "CHR 0x0A \<notin> set (join '', '' tokens)"
    using json_all_parts [OF assms(2)] assms(1) by (intro join_no) (auto simp: json_one_line_def)
  then have "plain_line ((''prefix_rule(pattern=['' @ join '', '' tokens @ ''], decision=\"allow\"'') @ '')'')"
    by (intro plain_closing) simp
  then show ?thesis by (simp add: allow_rule_line_def)
qed

subsection \<open>Files in memory\<close>

record rule_store =
  store_dirs :: "string list"
  store_files :: "string \<Rightarrow> string option"

definition memory_files :: "rule_store rule_files" where
  "memory_files =
     \<lparr>create_dir = (\<lambda>s d. if d \<in> set (store_dirs s) then (s, Inl (IoError AlreadyExists ''File exists''))
                     else (s\<lparr>store_dirs := d # store_dirs s\<rparr>, Inr ())),
      open_append = (\<lambda>s p. (s\<lparr>store_files := (store_files s)(p \<mapsto> (case store_files s p of None \<Rightarrow> [] | Some c \<Rightarrow> c))\<rparr>, Inr ())),
      lock_file = (\<lambda>_ _. Inr ()),
      seek_start = (\<lambda>_ _. Inr ()),
      read_to_string = (\<lambda>s p. case store_files s p of None \<Rightarrow> Inl (IoError NotFound ''No such file'') | Some c \<Rightarrow> Inr c),
      write_all = (\<lambda>s p c. case store_files s p of None \<Rightarrow> (s, Inl (IoError NotFound ''No such file''))
                     | Some old \<Rightarrow> (s\<lparr>store_files := (store_files s)(p \<mapsto> old @ c)\<rparr>, Inr ()))\<rparr>"

interpretation memory: rule_file memory_files store_files
  by unfold_locales (auto simp: memory_files_def split: if_splits option.splits)

subsection \<open>Properties\<close>

text \<open>
  When the approval of a command has been stored, the rules file, and no other file, has
  changed: the line of the rule stands in it, on its own, the lines before it are kept, and
  storing the approval again changes nothing.
\<close>

theorem stored_approval_is_a_line_of_the_file:
  assumes laws: "rule_file fs view" and json: "json_one_line json"
    and run: "blocking_append_allow_prefix_rule json fs parent p prefix s = (s', Inr u)"
    and again: "blocking_append_allow_prefix_rule json fs parent p prefix s' = (s'', Inr u'')"
  shows "\<exists>tokens contents. json_all json prefix = Inr tokens \<and> view s' = (view s)(p \<mapsto> contents) \<and>
    allow_rule_line tokens \<in> set (lines contents) \<and>
    starts_with contents (case view s p of None \<Rightarrow> [] | Some c \<Rightarrow> c) \<and> view s'' = view s'"
proof -
  obtain tokens where tokens: "json_all json prefix = Inr tokens"
    using run by (auto simp: blocking_append_allow_prefix_rule_def split: if_splits sum.splits)
  let ?line = "allow_rule_line tokens" and ?c = "case view s p of None \<Rightarrow> [] | Some c \<Rightarrow> c"
  have "append_rule_line fs parent p ?line s = (s', Inr u)" "append_rule_line fs parent p ?line s' = (s'', Inr u'')"
    using run again tokens by (auto simp: blocking_append_allow_prefix_rule_def split: if_splits)
  then have v: "view s' = (view s)(p \<mapsto> with_line ?c ?line)"
    "view s'' = (view s')(p \<mapsto> with_line (case view s' p of None \<Rightarrow> [] | Some c \<Rightarrow> c) ?line)"
    using rule_file.append_rule_view [OF laws] by blast+
  have plain: "plain_line ?line" using allow_rule_plain [OF json tokens] .
  have "view s'' = view s'" using v with_line_idem [OF plain, of ?c] by simp
  moreover have "starts_with (with_line ?c ?line) ?c"
    by (auto simp: with_line_def with_final_newline_def starts_with_iff)
  ultimately show ?thesis using tokens v(1) with_line_has [OF plain, of ?c] by blast
qed

definition sample_json :: to_json where
  "sample_json s = (if CHR 0x0A \<in> set s then Inl ''line break'' else Inr ([CHR 0x22] @ s @ [CHR 0x22]))"

abbreviation sample_store :: "rule_store \<Rightarrow> rule_store \<times> (amend_error + unit)" where
  "sample_store \<equiv>
     blocking_append_allow_prefix_rule sample_json memory_files (\<lambda>_. Some ''/h/rules'') ''/h/rules/d'' [''git'', ''pull'']"

definition sample_rules :: rule_store where
  "sample_rules = \<lparr>store_dirs = [], store_files = [''/h/rules/d'' \<mapsto> ''# mine'']\<rparr>"

theorem stored_approval_is_a_line_of_the_file_witness:
  "\<exists>s' s''. sample_store sample_rules = (s', Inr ()) \<and> sample_store s' = (s'', Inr ()) \<and>
    store_files s'' = store_files s' \<and>
    store_files s' ''/h/rules/d'' = Some (''# mine'' @ [CHR 0x0A] @ allow_rule_line [''\"git\"'', ''\"pull\"''] @ [CHR 0x0A])"
proof -
  obtain s' where run: "sample_store sample_rules = (s', snd (sample_store sample_rules))" by (metis prod.collapse)
  obtain s'' where again: "sample_store s' = (s'', snd (sample_store s'))" by (metis prod.collapse)
  have s': "s' = fst (sample_store sample_rules)" using run by (metis fst_conv)
  have ok: "snd (sample_store sample_rules) = Inr ()" by code_simp
  have ok2: "snd (sample_store s') = Inr ()" unfolding s' by code_simp
  have contents: "store_files s' ''/h/rules/d'' =
      Some (''# mine'' @ [CHR 0x0A] @ allow_rule_line [''\"git\"'', ''\"pull\"''] @ [CHR 0x0A])"
    unfolding s' by code_simp
  have json: "json_one_line sample_json" by (auto simp: json_one_line_def sample_json_def split: if_splits)
  have "store_files s'' = store_files s'"
    using stored_approval_is_a_line_of_the_file [OF memory.rule_file_axioms json run [unfolded ok] again [unfolded ok2]]
    by blast
  with run again ok ok2 contents show ?thesis by (intro exI [of _ s'] exI [of _ s''] conjI) simp_all
qed

end
