(* ===== verification/Shell_Words.thy ===== *)
theory Shell_Words
  imports Text_Stream Exec_Rules "HOL-Library.Multiset"
begin

section \<open>Shell scripts as lists of commands\<close>

text \<open>
  \<open>codex-rs/shell-command/src\<close>: \<open>shell_detect.rs\<close> and \<open>bash.rs\<close>, which lower \<open>bash -lc "script"\<close>
  to the commands the script runs, if the script is simple enough. The grammar itself is the
  tree-sitter library: the tree it returns is data here, with what the code reads off a node.
\<close>

subsection \<open>Paths\<close>

text \<open>
  \<open>std::path::Path\<close> on Unix: the parts of a path, without repeated slashes and without \<open>.\<close>
  except in front; paths are equal when their parts are.
\<close>

definition path_parts :: "string \<Rightarrow> string list" where
  "path_parts p = filter (\<lambda>c. c \<noteq> [] \<and> c \<noteq> ''.'') (split_on CHR ''/'' p)"

definition path_root :: "string \<Rightarrow> string" where
  "path_root p =
     (if starts_with p ''/'' then ''/'' else if hd (split_on CHR ''/'' p) = ''.'' then ''.'' else [])"

definition path_eq :: "string \<Rightarrow> string \<Rightarrow> bool" where
  "path_eq p q \<longleftrightarrow> path_root p = path_root q \<and> path_parts p = path_parts q"

definition file_name :: "string \<Rightarrow> string option" where
  "file_name p =
     (case rev (path_parts p) of
        [] \<Rightarrow> None
      | name # _ \<Rightarrow> if name = ''..'' then None else Some name)"

text \<open>The part of the file name before its last dot, unless that dot is in front.\<close>

definition file_stem :: "string \<Rightarrow> string option" where
  "file_stem p =
     map_option (\<lambda>name. case rsplit_once CHR ''.'' name of
         None \<Rightarrow> name
       | Some (before, _) \<Rightarrow> if before = [] then name else before) (file_name p)"

lemma split_on_length: "c \<in> set (split_on d s) \<Longrightarrow> length c \<le> length s"
proof (induction s arbitrary: c)
  case (Cons x s)
  show ?case
  proof (cases "split_on d s")
    case Nil
    then show ?thesis by simp
  next
    case (Cons p ps)
    with Cons.IH Cons.prems show ?thesis by (fastforce split: if_splits)
  qed
qed simp

lemma split_on_whole: "c \<in> set (split_on d s) \<Longrightarrow> length c = length s \<Longrightarrow> c = s"
proof (induction s arbitrary: c)
  case (Cons x s)
  show ?case
  proof (cases "split_on d s")
    case Nil
    then show ?thesis by simp
  next
    case (Cons p ps)
    have "length q \<le> length s" if "q \<in> set (p # ps)" for q
      using split_on_length [of q d s] that Cons by simp
    with Cons.IH [of p] Cons.prems Cons show ?thesis by (fastforce split: if_splits)
  qed
qed simp

lemma file_name_part: "file_name p = Some name \<Longrightarrow> name \<in> set (split_on CHR ''/'' p)"
proof -
  assume "file_name p = Some name"
  then have "name \<in> set (rev (path_parts p))"
    by (auto simp: file_name_def split: list.splits if_splits)
  then show ?thesis by (auto simp: path_parts_def)
qed

lemma file_stem_bound:
  assumes "file_stem p = Some stem"
  shows "length stem \<le> length p" and "length stem = length p \<Longrightarrow> stem = p"
proof -
  obtain name where name: "file_name p = Some name"
    "stem = (case rsplit_once CHR ''.'' name of None \<Rightarrow> name | Some (before, _) \<Rightarrow> if before = [] then name else before)"
    using assms by (cases "file_name p") (simp_all add: file_stem_def)
  have stem: "stem = name \<or> length stem < length name"
  proof (cases "rsplit_once CHR ''.'' name")
    case (Some lr)
    obtain l r where "lr = (l, r)" by (cases lr)
    with Some name(2) rsplit_once_Some [of "CHR ''.''" name l r] show ?thesis by simp
  qed (simp add: name(2))
  note part = file_name_part [OF name(1)]
  from stem split_on_length [OF part] split_on_whole [OF part]
  show "length stem \<le> length p" "length stem = length p \<Longrightarrow> stem = p" by auto
qed

lemma file_stem_shorter: "file_stem p = Some stem \<Longrightarrow> \<not> path_eq stem p \<Longrightarrow> length stem < length p"
  using file_stem_bound [of p stem] by (cases "length stem = length p") (auto simp: path_eq_def)

subsection \<open>Which shell\<close>

datatype shell_type = Zsh | Bash | PowerShell | Sh | Cmd

function detect_shell_type :: "string \<Rightarrow> shell_type option" where
  "detect_shell_type shell_path =
     (if shell_path = ''zsh'' then Some Zsh
      else if shell_path = ''sh'' then Some Sh
      else if shell_path = ''cmd'' then Some Cmd
      else if shell_path = ''bash'' then Some Bash
      else if shell_path = ''pwsh'' then Some PowerShell
      else if shell_path = ''powershell'' then Some PowerShell
      else (case file_stem shell_path of
              None \<Rightarrow> None
            | Some shell_name \<Rightarrow>
                if path_eq shell_name shell_path then None else detect_shell_type shell_name))"
  by pat_completeness auto
termination
  by (relation "measure length") (auto dest: file_stem_shorter)

declare detect_shell_type.simps [simp del]

definition extract_bash_command :: "string list \<Rightarrow> (string \<times> string) option" where
  "extract_bash_command command =
     (case command of
        [shell, flag, script] \<Rightarrow>
          if flag \<notin> {''-lc'', ''-c''} \<or> detect_shell_type shell \<notin> {Some Zsh, Some Bash, Some Sh} then None
          else Some (shell, script)
      | _ \<Rightarrow> None)"

subsection \<open>Syntax trees\<close>

datatype syntax_node =
  Node (node_kind: string) (node_named: bool) (start_byte: nat) (end_byte: nat) (node_children: "syntax_node list")

record syntax_tree =
  root_node :: syntax_node
  root_has_error :: bool

text \<open>The grammar library; \<open>None\<close> when it gives up on the text.\<close>

type_synonym shell_parser = "string \<Rightarrow> syntax_tree option"

definition named_children :: "syntax_node \<Rightarrow> syntax_node list" where
  "named_children n = filter node_named (node_children n)"

definition utf8_text :: "string \<Rightarrow> syntax_node \<Rightarrow> string option" where
  "utf8_text src n =
     (let t = take (end_byte n - start_byte n) (drop (start_byte n) src)
      in if valid_utf8 t then Some t else None)"

text \<open>All nodes of a tree.\<close>

fun all_nodes :: "syntax_node \<Rightarrow> syntax_node list" where
  "all_nodes (Node kind named b e children) =
     Node kind named b e children # concat (map all_nodes children)"

abbreviation weight :: "syntax_node list \<Rightarrow> nat" where
  "weight stack \<equiv> sum_list (map size stack)"

lemma weight_children: "weight (node_children n) < size n"
  by (cases n) (simp add: size_list_conv_sum_list)

lemma weight_filter: "weight (filter P ns) \<le> weight ns"
  by (induction ns) auto

lemma weight_named: "weight (named_children n) < size n"
  using weight_filter [of node_named "node_children n"] weight_children [of n] by (simp add: named_children_def)

subsection \<open>Words of a plain command\<close>

definition parse_double_quoted_string :: "string \<Rightarrow> syntax_node \<Rightarrow> string option" where
  "parse_double_quoted_string src node =
     (if node_kind node \<noteq> ''string'' then None
      else if \<exists>part \<in> set (named_children node). node_kind part \<noteq> ''string_content'' then None
      else (case utf8_text src node of
              None \<Rightarrow> None
            | Some raw \<Rightarrow>
                (case strip_prefix [CHR 0x22] raw of None \<Rightarrow> None | Some t \<Rightarrow> strip_suffix [CHR 0x22] t)))"

definition parse_raw_string :: "string \<Rightarrow> syntax_node \<Rightarrow> string option" where
  "parse_raw_string src node =
     (if node_kind node \<noteq> ''raw_string'' then None
      else (case utf8_text src node of
              None \<Rightarrow> None
            | Some raw \<Rightarrow>
                (case strip_prefix [CHR 0x27] raw of None \<Rightarrow> None | Some t \<Rightarrow> strip_suffix [CHR 0x27] t)))"

text \<open>A part of a concatenation.\<close>

definition concatenation_part :: "string \<Rightarrow> syntax_node \<Rightarrow> string option" where
  "concatenation_part src part =
     (if node_kind part \<in> {''word'', ''number''} then utf8_text src part
      else if node_kind part = ''string'' then parse_double_quoted_string src part
      else if node_kind part = ''raw_string'' then parse_raw_string src part
      else None)"

text \<open>The word of one named child; \<open>None\<close> makes the whole command unreadable.\<close>

definition plain_word :: "string \<Rightarrow> syntax_node \<Rightarrow> string option" where
  "plain_word src child =
     (if node_kind child = ''command_name'' then
        (case named_children child of
           [] \<Rightarrow> None
         | word_node # _ \<Rightarrow> if node_kind word_node \<noteq> ''word'' then None else utf8_text src word_node)
      else if node_kind child \<in> {''word'', ''number''} then utf8_text src child
      else if node_kind child = ''string'' then parse_double_quoted_string src child
      else if node_kind child = ''raw_string'' then parse_raw_string src child
      else if node_kind child = ''concatenation'' then
        (case those (map (concatenation_part src) (named_children child)) of
           None \<Rightarrow> None
         | Some parts \<Rightarrow> if concat parts = [] then None else Some (concat parts))
      else None)"

definition parse_plain_command_from_node :: "string \<Rightarrow> syntax_node \<Rightarrow> string list option" where
  "parse_plain_command_from_node src cmd =
     (if node_kind cmd \<noteq> ''command'' then None else those (map (plain_word src) (named_children cmd)))"

subsection \<open>Scripts of plain commands\<close>

definition ALLOWED_KINDS :: "string list" where
  "ALLOWED_KINDS =
     [''program'', ''list'', ''pipeline'', ''command'', ''command_name'', ''word'', ''string'',
      ''string_content'', ''raw_string'', ''number'', ''concatenation'']"

definition ALLOWED_PUNCT_TOKENS :: "string list" where
  "ALLOWED_PUNCT_TOKENS = [''&&'', ''||'', '';'', ''|'', [CHR 0x22], [CHR 0x27]]"

definition allowed_node :: "syntax_node \<Rightarrow> bool" where
  "allowed_node node \<longleftrightarrow>
     (if node_named node then node_kind node \<in> set ALLOWED_KINDS
      else \<not> (list_ex (\<lambda>c. c \<in> set ''&;|'') (node_kind node) \<and> node_kind node \<notin> set ALLOWED_PUNCT_TOKENS) \<and>
           (node_kind node \<in> set ALLOWED_PUNCT_TOKENS \<or> trim (node_kind node) = []))"

text \<open>The walk over the tree, with its stack: the command nodes in the order they are met.\<close>

function word_only_walk :: "syntax_node list \<Rightarrow> syntax_node list \<Rightarrow> syntax_node list option" where
  "word_only_walk [] command_nodes = Some command_nodes"
| "word_only_walk (node # stack) command_nodes =
     (if \<not> allowed_node node then None
      else word_only_walk (rev (node_children node) @ stack)
             (if node_named node \<and> node_kind node = ''command'' then command_nodes @ [node] else command_nodes))"
  by pat_completeness auto
termination
  by (relation "measure (\<lambda>(stack, _). weight stack)") (auto simp: weight_children rev_map [symmetric])

definition try_parse_word_only_commands_sequence :: "syntax_tree \<Rightarrow> string \<Rightarrow> string list list option" where
  "try_parse_word_only_commands_sequence tree src =
     (if root_has_error tree then None
      else (case word_only_walk [root_node tree] [] of
              None \<Rightarrow> None
            | Some command_nodes \<Rightarrow>
                those (map (parse_plain_command_from_node src) (sort_key start_byte command_nodes))))"

definition parse_shell_lc_plain_commands :: "shell_parser \<Rightarrow> string list \<Rightarrow> string list list option" where
  "parse_shell_lc_plain_commands try_parse_shell command =
     (case extract_bash_command command of
        None \<Rightarrow> None
      | Some (_, script) \<Rightarrow>
          (case try_parse_shell script of
             None \<Rightarrow> None
           | Some tree \<Rightarrow> try_parse_word_only_commands_sequence tree script))"

subsection \<open>A command with a here document\<close>

definition is_literal_word_or_number :: "syntax_node \<Rightarrow> bool" where
  "is_literal_word_or_number node \<longleftrightarrow>
     node_kind node \<in> {''word'', ''number''} \<and> named_children node = []"

definition is_allowed_heredoc_attachment_kind :: "string \<Rightarrow> bool" where
  "is_allowed_heredoc_attachment_kind kind \<longleftrightarrow>
     kind \<in> {''heredoc_body'', ''simple_heredoc_body'', ''heredoc_redirect'', ''herestring_redirect'',
             ''redirected_statement''}"

text \<open>The words of one named child: one, none for what only feeds the command, or a refusal.\<close>

definition heredoc_word :: "string \<Rightarrow> syntax_node \<Rightarrow> string list option" where
  "heredoc_word src child =
     (if node_kind child = ''command_name'' then
        (case named_children child of
           [] \<Rightarrow> None
         | word_node # _ \<Rightarrow>
             if node_kind word_node \<notin> {''word'', ''number''} \<or> \<not> is_literal_word_or_number word_node then None
             else map_option (\<lambda>w. [w]) (utf8_text src word_node))
      else if node_kind child \<in> {''word'', ''number''} then
        (if \<not> is_literal_word_or_number child then None else map_option (\<lambda>w. [w]) (utf8_text src child))
      else if node_kind child = ''comment'' then Some []
      else if is_allowed_heredoc_attachment_kind (node_kind child) then Some []
      else None)"

definition parse_heredoc_command_words :: "string \<Rightarrow> syntax_node \<Rightarrow> string list option" where
  "parse_heredoc_command_words src cmd =
     (if node_kind cmd \<noteq> ''command'' then None
      else (case those (map (heredoc_word src) (named_children cmd)) of
              None \<Rightarrow> None
            | Some ws \<Rightarrow> if concat ws = [] then None else Some (concat ws)))"

function single_command_walk :: "syntax_node list \<Rightarrow> syntax_node option \<Rightarrow> syntax_node option" where
  "single_command_walk [] single_command = single_command"
| "single_command_walk (node # stack) single_command =
     (if node_kind node = ''command'' \<and> single_command \<noteq> None then None
      else single_command_walk (rev (named_children node) @ stack)
             (if node_kind node = ''command'' then Some node else single_command))"
  by pat_completeness auto
termination
  by (relation "measure (\<lambda>(stack, _). weight stack)") (auto simp: weight_named rev_map [symmetric])

definition find_single_command_node :: "syntax_node \<Rightarrow> syntax_node option" where
  "find_single_command_node root = single_command_walk [root] None"

function descendant_walk :: "string \<Rightarrow> syntax_node list \<Rightarrow> bool" where
  "descendant_walk kind [] = False"
| "descendant_walk kind (current # stack) =
     (if node_kind current = kind then True
      else descendant_walk kind (rev (named_children current) @ stack))"
  by pat_completeness auto
termination
  by (relation "measure (\<lambda>(_, stack). weight stack)") (auto simp: weight_named rev_map [symmetric])

definition has_named_descendant_kind :: "syntax_node \<Rightarrow> string \<Rightarrow> bool" where
  "has_named_descendant_kind node kind = descendant_walk kind [node]"

definition parse_shell_lc_single_command_prefix :: "shell_parser \<Rightarrow> string list \<Rightarrow> string list option" where
  "parse_shell_lc_single_command_prefix try_parse_shell command =
     (case extract_bash_command command of
        None \<Rightarrow> None
      | Some (_, script) \<Rightarrow>
          (case try_parse_shell script of
             None \<Rightarrow> None
           | Some tree \<Rightarrow>
               if root_has_error tree then None
               else if \<not> has_named_descendant_kind (root_node tree) ''heredoc_redirect'' then None
               else if has_named_descendant_kind (root_node tree) ''file_redirect'' then None
               else (case find_single_command_node (root_node tree) of
                       None \<Rightarrow> None
                     | Some command_node \<Rightarrow> parse_heredoc_command_words script command_node)))"

subsection \<open>What the walk sees\<close>

definition is_command_node :: "syntax_node \<Rightarrow> bool" where
  "is_command_node node \<longleftrightarrow> node_named node \<and> node_kind node = ''command''"

lemma all_nodes_children: "all_nodes node = node # concat (map all_nodes (node_children node))"
  by (cases node) simp

lemma word_only_walk_Some:
  "word_only_walk stack command_nodes = Some found \<Longrightarrow>
    (\<forall>node \<in> set (concat (map all_nodes stack)). allowed_node node) \<and>
    mset found = mset command_nodes + mset (filter is_command_node (concat (map all_nodes stack)))"
proof (induction stack command_nodes rule: word_only_walk.induct)
  case (2 node stack command_nodes)
  then have ok: "allowed_node node" and
    walk: "word_only_walk (rev (node_children node) @ stack)
      (if is_command_node node then command_nodes @ [node] else command_nodes) = Some found"
    by (auto simp: is_command_node_def split: if_splits)
  have "mset (filter is_command_node (concat (map all_nodes (rev ns)))) = mset (filter is_command_node (concat (map all_nodes ns)))"
    for ns by (induction ns) (auto simp: ac_simps)
  with "2.IH" ok walk show ?case
    unfolding list.map concat.simps all_nodes_children [of node]
    by (auto simp: is_command_node_def ac_simps)
qed simp

lemma those_Some: "those xs = Some ys \<longleftrightarrow> xs = map Some ys"
proof (induction xs arbitrary: ys)
  case (Cons x xs)
  then show ?case by (cases x; cases ys) auto
qed auto

subsection \<open>Properties\<close>

text \<open>
  A script that is lowered to plain commands is seen in full: no node of its syntax tree
  is anything but words, quotes and the four operators, and every command of the tree, however
  deep, is one of the commands, with all its words read.
\<close>

theorem lowered_scripts_are_seen_in_full:
  assumes "try_parse_word_only_commands_sequence tree src = Some commands"
  shows "(\<forall>node \<in> set (all_nodes (root_node tree)). allowed_node node) \<and>
    image_mset Some (mset commands) =
      image_mset (parse_plain_command_from_node src) (mset (filter is_command_node (all_nodes (root_node tree))))"
proof -
  from assms obtain found where walk: "word_only_walk [root_node tree] [] = Some found"
    and words: "map (parse_plain_command_from_node src) (sort_key start_byte found) = map Some commands"
    by (auto simp: try_parse_word_only_commands_sequence_def those_Some split: if_splits option.splits)
  from words have "image_mset (parse_plain_command_from_node src) (mset (sort_key start_byte found)) = image_mset Some (mset commands)"
    by (metis mset_map)
  with word_only_walk_Some [OF walk] show ?thesis by simp
qed

text \<open>The tree of \<open>ls -l && pwd\<close>.\<close>

definition sample_tree :: syntax_tree where
  "sample_tree =
     \<lparr>root_node = Node ''program'' True 0 12
        [Node ''list'' True 0 12
          [Node ''command'' True 0 5
             [Node ''command_name'' True 0 2 [Node ''word'' True 0 2 []], Node ''word'' True 3 5 []],
           Node ''&&'' False 6 8 [],
           Node ''command'' True 9 12 [Node ''command_name'' True 9 12 [Node ''word'' True 9 12 []]]]],
      root_has_error = False\<rparr>"

theorem lowered_scripts_are_seen_in_full_witness:
  "try_parse_word_only_commands_sequence sample_tree ''ls -l && pwd'' = Some [[''ls'', ''-l''], [''pwd'']] \<and>
   image_mset (parse_plain_command_from_node ''ls -l && pwd'') (mset (filter is_command_node (all_nodes (root_node sample_tree)))) =
     {#Some [''ls'', ''-l''], Some [''pwd'']#}"
proof -
  have run: "try_parse_word_only_commands_sequence sample_tree ''ls -l && pwd'' = Some [[''ls'', ''-l''], [''pwd'']]"
    by code_simp
  from lowered_scripts_are_seen_in_full [OF run] run show ?thesis by simp
qed

text \<open>
  A backslash stays in a word as it is written, although the shell removes it: the word that is
  judged is not the word the command gets.
\<close>

lemma escaped_word_is_taken_verbatim:
  "try_parse_word_only_commands_sequence
     \<lparr>root_node = Node ''program'' True 0 15
        [Node ''command'' True 0 15
          [Node ''command_name'' True 0 4 [Node ''word'' True 0 4 []], Node ''word'' True 5 6 [], Node ''word'' True 7 15 []]],
      root_has_error = False\<rparr> (''find . -delet'' @ [CHR 0x5C] @ ''e'') =
   Some [[''find'', ''.'', ''-delet'' @ [CHR 0x5C] @ ''e'']]"
  by code_simp

end
