(* ===== verification/Command_Safety.thy ===== *)
theory Command_Safety
  imports Shell_Words
begin

section \<open>Safe and dangerous commands\<close>

text \<open>
  \<open>codex-rs/shell-command/src/command_safety\<close>: \<open>is_dangerous_command.rs\<close>, \<open>is_safe_command.rs\<close> and
  \<open>windows_safe_commands.rs\<close>, the built-in knowledge that decides about commands no rule matches.
  The build is the one for Unix; the PowerShell safelist is part of it. What parses PowerShell is
  an external process and a parameter, as is whether the target is Linux.
\<close>

record shell_tools =
  try_parse_shell :: shell_parser
  powershell_ast :: "string \<Rightarrow> string \<Rightarrow> string list list option"
  target_linux :: bool

subsection \<open>Git options\<close>

definition is_git_global_option_with_value :: "string \<Rightarrow> bool" where
  "is_git_global_option_with_value arg \<longleftrightarrow>
     arg \<in> {''-C'', ''-c'', ''--config-env'', ''--exec-path'', ''--git-dir'', ''--namespace'',
            ''--super-prefix'', ''--work-tree''}"

definition is_git_global_option_with_inline_value :: "string \<Rightarrow> bool" where
  "is_git_global_option_with_inline_value arg \<longleftrightarrow>
     list_ex (starts_with arg)
       [''--config-env='', ''--exec-path='', ''--git-dir='', ''--namespace='', ''--super-prefix='', ''--work-tree=''] \<or>
     (starts_with arg ''-C'' \<or> starts_with arg ''-c'') \<and> length arg > 2"

definition executable_name_lookup_key :: "string \<Rightarrow> string option" where
  "executable_name_lookup_key raw = file_name raw"

fun git_scan :: "string list \<Rightarrow> bool \<Rightarrow> nat \<Rightarrow> string list \<Rightarrow> (nat \<times> string) option" where
  "git_scan subcommands skip_next idx [] = None"
| "git_scan subcommands skip_next idx (arg # args) =
     (if skip_next then git_scan subcommands False (Suc idx) args
      else if is_git_global_option_with_inline_value arg then git_scan subcommands False (Suc idx) args
      else if is_git_global_option_with_value arg then git_scan subcommands True (Suc idx) args
      else if arg = ''--'' \<or> starts_with arg ''-'' then git_scan subcommands False (Suc idx) args
      else if arg \<in> set subcommands then Some (idx, arg)
      else None)"

definition find_git_subcommand :: "string list \<Rightarrow> string list \<Rightarrow> (nat \<times> string) option" where
  "find_git_subcommand command subcommands =
     (case command of
        [] \<Rightarrow> None
      | cmd0 # args \<Rightarrow>
          if executable_name_lookup_key cmd0 \<noteq> Some ''git'' then None else git_scan subcommands False 1 args)"

subsection \<open>Dangerous commands\<close>

fun is_dangerous_to_call_with_exec :: "string list \<Rightarrow> bool" where
  "is_dangerous_to_call_with_exec [] = False"
| "is_dangerous_to_call_with_exec (cmd0 # args) =
     (if cmd0 = ''rm'' then (case args of [] \<Rightarrow> False | arg # _ \<Rightarrow> arg \<in> {''-f'', ''-rf''})
      else if cmd0 = ''sudo'' then is_dangerous_to_call_with_exec args
      else False)"

definition command_might_be_dangerous :: "shell_tools \<Rightarrow> string list \<Rightarrow> bool" where
  "command_might_be_dangerous tools command \<longleftrightarrow>
     (if is_dangerous_to_call_with_exec command then True
      else (case parse_shell_lc_plain_commands (try_parse_shell tools) command of
              None \<Rightarrow> False
            | Some all_commands \<Rightarrow> list_ex is_dangerous_to_call_with_exec all_commands))"

subsection \<open>Safe git commands\<close>

datatype git_option_pattern = Exact string | ShortWithInlineValue string | Prefix string

definition UNSAFE_GIT_GLOBAL_OPTIONS :: "git_option_pattern list" where
  "UNSAFE_GIT_GLOBAL_OPTIONS =
     [Exact ''-C'', ShortWithInlineValue ''-C'', Exact ''-c'', ShortWithInlineValue ''-c'', Exact ''-p'',
      Exact ''--config-env'', Prefix ''--config-env='', Exact ''--exec-path'', Prefix ''--exec-path='',
      Exact ''--git-dir'', Prefix ''--git-dir='', Exact ''--namespace'', Prefix ''--namespace='',
      Exact ''--paginate'', Exact ''--super-prefix'', Prefix ''--super-prefix='',
      Exact ''--work-tree'', Prefix ''--work-tree='']"

definition UNSAFE_GIT_SUBCOMMAND_OPTIONS :: "git_option_pattern list" where
  "UNSAFE_GIT_SUBCOMMAND_OPTIONS =
     [Exact ''--output'', Prefix ''--output='', Exact ''--ext-diff'', Exact ''--textconv'',
      Exact ''--exec'', Prefix ''--exec='']"

fun option_pattern_matches :: "git_option_pattern \<Rightarrow> string \<Rightarrow> bool" where
  "option_pattern_matches (Exact option) arg \<longleftrightarrow> arg = option"
| "option_pattern_matches (ShortWithInlineValue option) arg \<longleftrightarrow> starts_with arg option \<and> length arg > length option"
| "option_pattern_matches (Prefix prefix) arg \<longleftrightarrow> starts_with arg prefix"

definition git_matches_option_pattern :: "string \<Rightarrow> git_option_pattern list \<Rightarrow> bool" where
  "git_matches_option_pattern arg patterns \<longleftrightarrow> list_ex (\<lambda>pattern. option_pattern_matches pattern arg) patterns"

definition git_has_unsafe_global_option :: "string list \<Rightarrow> bool" where
  "git_has_unsafe_global_option global_args \<longleftrightarrow>
     list_ex (\<lambda>arg. git_matches_option_pattern arg UNSAFE_GIT_GLOBAL_OPTIONS) global_args"

definition git_subcommand_args_are_read_only :: "string list \<Rightarrow> bool" where
  "git_subcommand_args_are_read_only args \<longleftrightarrow>
     \<not> list_ex (\<lambda>arg. git_matches_option_pattern arg UNSAFE_GIT_SUBCOMMAND_OPTIONS) args"

fun branch_args_loop :: "bool \<Rightarrow> string list \<Rightarrow> bool" where
  "branch_args_loop saw_read_only_flag [] = saw_read_only_flag"
| "branch_args_loop saw_read_only_flag (arg # args) =
     (if arg \<in> {''--list'', ''-l'', ''--show-current'', ''-a'', ''--all'', ''-r'', ''--remotes'', ''-v'',
               ''-vv'', ''--verbose''} then branch_args_loop True args
      else if starts_with arg ''--format='' then branch_args_loop True args
      else False)"

definition git_branch_is_read_only :: "string list \<Rightarrow> bool" where
  "git_branch_is_read_only branch_args \<longleftrightarrow>
     (if branch_args = [] then True else branch_args_loop False branch_args)"

text \<open>The last case is a failed \<open>debug_assert\<close>, which a release build passes over.\<close>

definition is_safe_git_command :: "string list \<Rightarrow> bool" where
  "is_safe_git_command command \<longleftrightarrow>
     (case find_git_subcommand command [''status'', ''log'', ''diff'', ''show'', ''branch''] of
        None \<Rightarrow> False
      | Some (subcommand_idx, subcommand) \<Rightarrow>
          (let global_args = drop 1 (take subcommand_idx command);
               subcommand_args = drop (subcommand_idx + 1) command
           in if git_has_unsafe_global_option global_args then False
              else if subcommand \<in> {''status'', ''log'', ''diff'', ''show''}
                then git_subcommand_args_are_read_only subcommand_args
              else if subcommand = ''branch''
                then git_subcommand_args_are_read_only subcommand_args \<and> git_branch_is_read_only subcommand_args
              else False))"

subsection \<open>Other safe commands\<close>

definition all_digits :: "string \<Rightarrow> bool" where
  "all_digits s \<longleftrightarrow> s \<noteq> [] \<and> list_all is_ascii_digit s"

definition is_valid_sed_n_arg :: "string option \<Rightarrow> bool" where
  "is_valid_sed_n_arg arg \<longleftrightarrow>
     (case arg of
        None \<Rightarrow> False
      | Some s \<Rightarrow>
          (case strip_suffix ''p'' s of
             None \<Rightarrow> False
           | Some core \<Rightarrow>
               (case split_on CHR '','' core of
                  [num] \<Rightarrow> all_digits num
                | [a, b] \<Rightarrow> all_digits a \<and> all_digits b
                | _ \<Rightarrow> False)))"

definition UNSAFE_FIND_OPTIONS :: "string list" where
  "UNSAFE_FIND_OPTIONS =
     [''-exec'', ''-execdir'', ''-ok'', ''-okdir'', ''-delete'', ''-fls'', ''-fprint'', ''-fprint0'', ''-fprintf'']"

definition UNSAFE_RIPGREP_OPTIONS_WITH_ARGS :: "string list" where
  "UNSAFE_RIPGREP_OPTIONS_WITH_ARGS = [''--pre'', ''--hostname-bin'']"

definition UNSAFE_RIPGREP_OPTIONS_WITHOUT_ARGS :: "string list" where
  "UNSAFE_RIPGREP_OPTIONS_WITHOUT_ARGS = [''--search-zip'', ''-z'']"

definition SAFE_COMMANDS :: "string list" where
  "SAFE_COMMANDS =
     [''cat'', ''cd'', ''cut'', ''echo'', ''expr'', ''false'', ''grep'', ''head'', ''id'', ''ls'', ''nl'', ''paste'',
      ''pwd'', ''rev'', ''seq'', ''stat'', ''tail'', ''tr'', ''true'', ''uname'', ''uniq'', ''wc'', ''which'', ''whoami'']"

definition unsafe_ripgrep_arg :: "string \<Rightarrow> bool" where
  "unsafe_ripgrep_arg arg \<longleftrightarrow>
     arg \<in> set UNSAFE_RIPGREP_OPTIONS_WITHOUT_ARGS \<or>
     list_ex (\<lambda>opt. arg = opt \<or> starts_with arg (opt @ ''='')) UNSAFE_RIPGREP_OPTIONS_WITH_ARGS"

definition unsafe_base64_arg :: "string \<Rightarrow> bool" where
  "unsafe_base64_arg arg \<longleftrightarrow>
     arg \<in> {''-o'', ''--output''} \<or> starts_with arg ''--output='' \<or> starts_with arg ''-o'' \<and> arg \<noteq> ''-o''"

definition is_safe_to_call_with_exec :: "bool \<Rightarrow> string list \<Rightarrow> bool" where
  "is_safe_to_call_with_exec linux command \<longleftrightarrow>
     (case command of
        [] \<Rightarrow> False
      | cmd0 # args \<Rightarrow>
          (case executable_name_lookup_key cmd0 of
             None \<Rightarrow> False
           | Some cmd \<Rightarrow>
               if linux \<and> cmd \<in> {''numfmt'', ''tac''} then True
               else if cmd \<in> set SAFE_COMMANDS then True
               else if cmd = ''base64'' then \<not> list_ex unsafe_base64_arg args
               else if cmd = ''find'' then \<not> list_ex (\<lambda>arg. arg \<in> set UNSAFE_FIND_OPTIONS) command
               else if cmd = ''rg'' then \<not> list_ex unsafe_ripgrep_arg command
               else if cmd = ''git'' then is_safe_git_command command
               else if cmd = ''sed'' then
                 length command \<le> 4 \<and> (case args of [] \<Rightarrow> False | a # _ \<Rightarrow> a = ''-n'') \<and>
                 is_valid_sed_n_arg (case args of _ # a # _ \<Rightarrow> Some a | _ \<Rightarrow> None)
               else False))"

subsection \<open>PowerShell\<close>

definition str_lower :: "string \<Rightarrow> string" where
  "str_lower s = map ascii_lower s"

definition eq_ignore_ascii_case :: "string \<Rightarrow> string \<Rightarrow> bool" where
  "eq_ignore_ascii_case a b \<longleftrightarrow> str_lower a = str_lower b"

definition is_powershell_executable :: "string \<Rightarrow> bool" where
  "is_powershell_executable exe \<longleftrightarrow>
     str_lower (case file_name exe of None \<Rightarrow> exe | Some name \<Rightarrow> name)
       \<in> {''powershell'', ''powershell.exe'', ''pwsh'', ''pwsh.exe''}"

text \<open>Single quotes around an argument with white space, doubled inside.\<close>

definition quote_argument :: "string \<Rightarrow> string" where
  "quote_argument arg =
     (if arg = [] then [CHR 0x27, CHR 0x27]
      else if list_all (\<lambda>ch. \<not> is_whitespace ch) (chars arg) then arg
      else [CHR 0x27] @ concat (map (\<lambda>c. if c = CHR 0x27 then [CHR 0x27, CHR 0x27] else [c]) arg) @ [CHR 0x27])"

definition join_arguments_as_script :: "string list \<Rightarrow> string" where
  "join_arguments_as_script args =
     (case args of [] \<Rightarrow> [] | first # rest \<Rightarrow> join '' '' (first # map quote_argument rest))"

fun parse_powershell_invocation :: "shell_tools \<Rightarrow> string \<Rightarrow> string list \<Rightarrow> string list list option" where
  "parse_powershell_invocation tools exe [] = None"
| "parse_powershell_invocation tools exe (arg # args) =
     (let lower = str_lower arg in
      if lower \<in> {''-command'', ''/command'', ''-c''} then
        (case args of [script] \<Rightarrow> powershell_ast tools exe script | _ \<Rightarrow> None)
      else if starts_with lower ''-command:'' \<or> starts_with lower ''/command:'' then
        (if args \<noteq> [] then None
         else (case split_once CHR '':'' arg of
                 None \<Rightarrow> None
               | Some (_, script) \<Rightarrow> powershell_ast tools exe script))
      else if lower \<in> {''-nologo'', ''-noprofile'', ''-noninteractive'', ''-mta'', ''-sta''} then
        parse_powershell_invocation tools exe args
      else if lower \<in> {''-encodedcommand'', ''-ec'', ''-file'', ''/file'', ''-windowstyle'', ''-executionpolicy'',
                       ''-workingdirectory''} then None
      else if starts_with lower ''-'' then None
      else powershell_ast tools exe (join_arguments_as_script (arg # args)))"

definition try_parse_powershell_command_sequence :: "shell_tools \<Rightarrow> string list \<Rightarrow> string list list option" where
  "try_parse_powershell_command_sequence tools command =
     (case command of
        [] \<Rightarrow> None
      | exe # rest \<Rightarrow> if is_powershell_executable exe then parse_powershell_invocation tools exe rest else None)"

definition trim_parentheses :: "string \<Rightarrow> string" where
  "trim_parentheses s =
     rev (dropWhile (\<lambda>c. c \<in> {CHR ''('', CHR '')''}) (rev (dropWhile (\<lambda>c. c \<in> {CHR ''('', CHR '')''}) s)))"

definition powershell_name :: "string \<Rightarrow> string" where
  "powershell_name w = str_lower (dropWhile (\<lambda>c. c = CHR ''-'') (trim_parentheses w))"

definition UNSAFE_CMDLETS :: "string list" where
  "UNSAFE_CMDLETS =
     [''set-content'', ''add-content'', ''out-file'', ''new-item'', ''remove-item'', ''move-item'', ''copy-item'',
      ''rename-item'', ''start-process'', ''stop-process'']"

definition SAFE_CMDLETS :: "string list" where
  "SAFE_CMDLETS =
     [''echo'', ''write-output'', ''write-host'', ''dir'', ''ls'', ''get-childitem'', ''gci'', ''cat'', ''type'', ''gc'',
      ''get-content'', ''select-string'', ''sls'', ''findstr'', ''measure-object'', ''measure'', ''get-location'', ''gl'',
      ''pwd'', ''test-path'', ''tp'', ''resolve-path'', ''rvpa'', ''select-object'', ''select'', ''get-item'']"

definition is_safe_ripgrep :: "string list \<Rightarrow> bool" where
  "is_safe_ripgrep words \<longleftrightarrow> \<not> list_ex (\<lambda>arg. unsafe_ripgrep_arg (str_lower arg)) (drop 1 words)"

definition is_safe_powershell_words :: "string list \<Rightarrow> bool" where
  "is_safe_powershell_words words \<longleftrightarrow>
     (case words of
        [] \<Rightarrow> False
      | w # _ \<Rightarrow>
          if list_ex (\<lambda>w. powershell_name w \<in> set UNSAFE_CMDLETS) words then False
          else (let command = powershell_name w in
                if command \<in> set SAFE_CMDLETS then True
                else if command = ''git'' then is_safe_git_command words
                else if command = ''rg'' then is_safe_ripgrep words
                else False))"

definition is_safe_command_windows :: "shell_tools \<Rightarrow> string list \<Rightarrow> bool" where
  "is_safe_command_windows tools command \<longleftrightarrow>
     (case try_parse_powershell_command_sequence tools command of
        Some commands \<Rightarrow> list_all is_safe_powershell_words commands
      | None \<Rightarrow> False)"

subsection \<open>Known to be safe\<close>

definition is_known_safe_command :: "shell_tools \<Rightarrow> string list \<Rightarrow> bool" where
  "is_known_safe_command tools command =
     (let command = map (\<lambda>s. if s = ''zsh'' then ''bash'' else s) command in
      if is_safe_command_windows tools command then True
      else if is_safe_to_call_with_exec (target_linux tools) command then True
      else (case parse_shell_lc_plain_commands (try_parse_shell tools) command of
              None \<Rightarrow> False
            | Some all_commands \<Rightarrow>
                all_commands \<noteq> [] \<and> list_all (is_safe_to_call_with_exec (target_linux tools)) all_commands))"

subsection \<open>The git subcommand\<close>

text \<open>Global options as git reads them: one that takes a value consumes the next word.\<close>

fun global_options :: "string list \<Rightarrow> bool" where
  "global_options [] \<longleftrightarrow> True"
| "global_options (arg # args) \<longleftrightarrow>
     starts_with arg ''-'' \<and>
     (if is_git_global_option_with_value arg \<and> \<not> is_git_global_option_with_inline_value arg
      then args \<noteq> [] \<and> global_options (tl args)
      else global_options args)"

lemma git_option_dash:
  "is_git_global_option_with_value arg \<Longrightarrow> starts_with arg ''-''"
  "is_git_global_option_with_inline_value arg \<Longrightarrow> starts_with arg ''-''"
  by (auto simp: is_git_global_option_with_value_def is_git_global_option_with_inline_value_def starts_with_iff)

lemma git_scan_Some:
  "git_scan subs skip idx args = Some (i, sub) \<Longrightarrow>
    \<exists>opts rest. args = opts @ sub # rest \<and> i = idx + length opts \<and> sub \<in> set subs \<and> \<not> starts_with sub ''-'' \<and>
      (if skip then opts \<noteq> [] \<and> global_options (tl opts) else global_options opts)"
proof (induction subs skip idx args rule: git_scan.induct)
  case (2 subs skip idx arg args)
  have step: ?case if run: "git_scan subs skip' (Suc idx) args = Some (i, sub)"
    and IH: "\<exists>opts rest. args = opts @ sub # rest \<and> i = Suc idx + length opts \<and> sub \<in> set subs \<and> \<not> starts_with sub ''-'' \<and>
      (if skip' then opts \<noteq> [] \<and> global_options (tl opts) else global_options opts)"
    and ok: "\<And>opts. (if skip' then opts \<noteq> [] \<and> global_options (tl opts) else global_options opts) \<Longrightarrow>
      (if skip then global_options opts else global_options (arg # opts))" for skip'
  proof -
    from IH obtain opts rest where o: "args = opts @ sub # rest" "i = Suc idx + length opts" "sub \<in> set subs"
      "\<not> starts_with sub ''-''" "if skip' then opts \<noteq> [] \<and> global_options (tl opts) else global_options opts" by blast
    from ok [OF o(5)] have "if skip then arg # opts \<noteq> [] \<and> global_options (tl (arg # opts)) else global_options (arg # opts)"
      by (cases skip) simp_all
    with o show ?thesis by (intro exI [of _ "arg # opts"] exI [of _ rest]) simp
  qed
  show ?case
  proof (cases skip)
    case True
    with 2 show ?thesis by (intro step [of False]) auto
  next
    case noskip: False
    consider (inline) "is_git_global_option_with_inline_value arg"
      | (val) "\<not> is_git_global_option_with_inline_value arg" "is_git_global_option_with_value arg"
      | (dash) "\<not> is_git_global_option_with_inline_value arg" "\<not> is_git_global_option_with_value arg"
          "arg = ''--'' \<or> starts_with arg ''-''"
      | (word) "\<not> is_git_global_option_with_inline_value arg" "\<not> is_git_global_option_with_value arg"
          "\<not> (arg = ''--'' \<or> starts_with arg ''-'')" by blast
    then show ?thesis
    proof cases
      case inline
      with 2 noskip git_option_dash(2) show ?thesis by (intro step [of False]) auto
    next
      case val
      with 2 noskip git_option_dash(1) show ?thesis by (intro step [of True]) auto
    next
      case dash
      with 2 noskip show ?thesis by (intro step [of False]) (auto simp: starts_with_iff)
    next
      case word
      with 2 noskip show ?thesis by (intro exI [of _ "[]"] exI [of _ args]) (auto split: if_splits)
    qed
  qed
qed simp

lemma git_scan_found:
  assumes "sub \<in> set subs" and "\<not> starts_with sub ''-''"
  shows "(if skip then opts \<noteq> [] \<and> global_options (tl opts) else global_options opts) \<Longrightarrow>
    git_scan subs skip idx (opts @ sub # rest) = Some (idx + length opts, sub)"
proof (induction opts arbitrary: skip idx)
  case Nil
  then have "\<not> skip" by (auto split: if_splits)
  moreover have "sub \<noteq> ''--''" using assms(2) by (auto simp: starts_with_iff)
  ultimately show ?case
    using assms git_option_dash [of sub] by auto
next
  case (Cons o1 opts)
  show ?case
  proof (cases skip)
    case True
    with Cons.prems Cons.IH [of False "Suc idx"] show ?thesis by simp
  next
    case False
    with Cons.prems Cons.IH [of False "Suc idx"] Cons.IH [of True "Suc idx"] show ?thesis
      by (auto split: if_splits)
  qed
qed

lemma split_on_one: "split_on d s = [x] \<longleftrightarrow> s = x \<and> d \<notin> set s"
  using join_split_on [of d s] split_on_pieces [of _ d s] by (auto simp: split_on_no_sep)

lemma split_on_two: "split_on d s = [x, y] \<longleftrightarrow> s = x @ d # y \<and> d \<notin> set x \<and> d \<notin> set y"
proof
  assume "split_on d s = [x, y]"
  with join_split_on [of d s] split_on_pieces [of _ d s] show "s = x @ d # y \<and> d \<notin> set x \<and> d \<notin> set y" by auto
next
  assume "s = x @ d # y \<and> d \<notin> set x \<and> d \<notin> set y"
  then show "split_on d s = [x, y]" by (simp add: split_on_at split_on_no_sep)
qed

lemma digits_no_comma: "all_digits s \<Longrightarrow> CHR '','' \<notin> set s"
  by (auto simp: all_digits_def is_ascii_digit_def list_all_iff)

subsection \<open>Shells and safe programs are apart\<close>

lemma path_parts_name: "CHR ''/'' \<notin> set n \<Longrightarrow> n \<noteq> [] \<Longrightarrow> n \<noteq> ''.'' \<Longrightarrow> path_parts n = [n]"
  by (simp add: path_parts_def split_on_no_sep)

lemma file_name_plain: "file_name p = Some n \<Longrightarrow> CHR ''/'' \<notin> set n \<and> n \<noteq> [] \<and> n \<noteq> ''.'' \<and> n \<noteq> ''..''"
proof -
  assume name: "file_name p = Some n"
  then have "n \<in> set (rev (path_parts p))" "n \<noteq> ''..''" by (auto simp: file_name_def split: list.splits if_splits)
  with split_on_pieces [of n "CHR ''/''" p] show ?thesis by (auto simp: path_parts_def)
qed

lemma file_name_idem: "file_name p = Some n \<Longrightarrow> file_name n = Some n"
  using file_name_plain [of p n] path_parts_name [of n] by (simp add: file_name_def)

lemma file_stem_no_dot:
  assumes "file_name p = Some n" and "CHR ''.'' \<notin> set n"
  shows "file_stem p = Some n"
proof -
  have "rsplit_once CHR ''.'' n = None"
  proof (cases "rsplit_once CHR ''.'' n")
    case (Some lr)
    obtain l r where "lr = (l, r)" by (cases lr)
    with Some rsplit_once_Some [of "CHR ''.''" n l r] assms(2) show ?thesis by simp
  qed
  with assms(1) show ?thesis by (simp add: file_stem_def)
qed

text \<open>Shells by name.\<close>

definition shell_of_name :: "string \<Rightarrow> shell_type option" where
  "shell_of_name n =
     map_of [(''zsh'', Zsh), (''sh'', Sh), (''cmd'', Cmd), (''bash'', Bash), (''pwsh'', PowerShell),
       (''powershell'', PowerShell)] n"

lemma detect_known: "shell_of_name p = Some t \<Longrightarrow> detect_shell_type p = Some t"
  by (subst detect_shell_type.simps) (auto simp: shell_of_name_def split: if_splits)

lemma detect_unknown:
  "shell_of_name p = None \<Longrightarrow> detect_shell_type p =
    (case file_stem p of None \<Rightarrow> None | Some n \<Rightarrow> if path_eq n p then None else detect_shell_type n)"
  by (subst detect_shell_type.simps) (auto simp: shell_of_name_def split: if_splits)

lemma detect_name:
  assumes "file_name n = Some n" and "CHR ''.'' \<notin> set n"
  shows "detect_shell_type n = shell_of_name n"
proof (cases "shell_of_name n")
  case None
  with detect_unknown [OF None] file_stem_no_dot [OF assms] show ?thesis by (simp add: path_eq_def)
qed (simp add: detect_known)

lemma known_shell_name: "shell_of_name p = Some t \<Longrightarrow> file_name p = Some p"
proof -
  have "\<forall>n \<in> {''zsh'', ''sh'', ''cmd'', ''bash'', ''pwsh'', ''powershell''}. file_name n = Some n" by code_simp
  then show "shell_of_name p = Some t \<Longrightarrow> file_name p = Some p"
    by (auto simp: shell_of_name_def split: if_splits)
qed

lemma detect_by_name:
  assumes "file_name p = Some n" and "CHR ''.'' \<notin> set n"
  shows "detect_shell_type p = shell_of_name n \<or> detect_shell_type p = None"
proof (cases "shell_of_name p")
  case (Some t)
  with known_shell_name [OF Some] assms(1) detect_known [OF Some] show ?thesis by simp
next
  case None
  with detect_unknown [OF None] file_stem_no_dot [OF assms] detect_name [OF file_name_idem [OF assms(1)] assms(2)]
  show ?thesis by simp
qed

definition SAFE_NAMES :: "string list" where
  "SAFE_NAMES = [''numfmt'', ''tac''] @ SAFE_COMMANDS @ [''base64'', ''find'', ''rg'', ''git'', ''sed'']"

lemma safe_name:
  assumes "is_safe_to_call_with_exec linux (c # args)"
  shows "\<exists>n \<in> set SAFE_NAMES. file_name c = Some n"
proof (cases "file_name c")
  case (Some n)
  with assms have "n \<in> set SAFE_NAMES"
    by (auto simp: is_safe_to_call_with_exec_def executable_name_lookup_key_def SAFE_NAMES_def split: if_splits)
  with Some show ?thesis by blast
qed (use assms in \<open>simp add: is_safe_to_call_with_exec_def executable_name_lookup_key_def\<close>)

lemma safe_names_apart:
  "n \<in> set SAFE_NAMES \<Longrightarrow> CHR ''.'' \<notin> set n \<and> shell_of_name n = None \<and> n \<noteq> ''rm'' \<and> n \<noteq> ''sudo''"
proof -
  have "list_all (\<lambda>n. CHR ''.'' \<notin> set n \<and> shell_of_name n = None \<and> n \<noteq> ''rm'' \<and> n \<noteq> ''sudo'') SAFE_NAMES"
    by code_simp
  then show "n \<in> set SAFE_NAMES \<Longrightarrow> ?thesis" by (simp add: list_all_iff)
qed

lemma dangerous_names: "file_name ''rm'' = Some ''rm''" "file_name ''sudo'' = Some ''sudo''"
  by code_simp+

lemma dangerous_first:
  "is_dangerous_to_call_with_exec (c # args) \<Longrightarrow> c = ''rm'' \<or> c = ''sudo''"
  by (auto split: if_splits)

lemma safe_exec_not_dangerous:
  assumes "is_safe_to_call_with_exec linux (c # args)"
  shows "\<not> is_dangerous_to_call_with_exec (c # args)" and "extract_bash_command (c # args') = None"
proof -
  obtain n where n: "n \<in> set SAFE_NAMES" "file_name c = Some n" using safe_name [OF assms] by blast
  note apart = safe_names_apart [OF n(1)]
  show "\<not> is_dangerous_to_call_with_exec (c # args)"
    using dangerous_first [of c args] dangerous_names n(2) apart by fastforce
  have "detect_shell_type c = None" using detect_by_name [OF n(2)] apart by auto
  then show "extract_bash_command (c # args') = None"
    by (auto simp: extract_bash_command_def split: list.splits)
qed

lemma lower_eq: "str_lower n = w \<Longrightarrow> list_all (\<lambda>c. of_char c \<ge> (97::nat)) w \<Longrightarrow> CHR ''.'' \<notin> set n"
proof
  assume "str_lower n = w" "list_all (\<lambda>c. of_char c \<ge> (97::nat)) w" "CHR ''.'' \<in> set n"
  then have "ascii_lower CHR ''.'' \<in> set w" unfolding str_lower_def by (metis imageI set_map)
  then have "CHR ''.'' \<in> set w" by (simp add: ascii_lower_def)
  with \<open>list_all (\<lambda>c. of_char c \<ge> (97::nat)) w\<close> show False by (auto simp: list_all_iff)
qed

lemma lower_shell_names:
  "shell_of_name n \<in> {Some Zsh, Some Bash, Some Sh} \<Longrightarrow>
    str_lower n \<notin> {''powershell'', ''pwsh'', ''powershell.exe'', ''pwsh.exe''}"
proof -
  have "\<forall>n \<in> {''zsh'', ''bash'', ''sh''}. str_lower n \<notin> {''powershell'', ''pwsh'', ''powershell.exe'', ''pwsh.exe''}"
    by code_simp
  then show "shell_of_name n \<in> {Some Zsh, Some Bash, Some Sh} \<Longrightarrow> ?thesis"
    by (auto simp: shell_of_name_def split: if_splits)
qed

lemma lower_split:
  assumes "str_lower n = m @ c0 # e0" and "of_char c0 < (65::nat)"
  shows "\<exists>a e. n = a @ c0 # e \<and> str_lower a = m \<and> str_lower e = e0"
proof -
  from assms(1) obtain a c e where "n = a @ c # e" "str_lower a = m" "ascii_lower c = c0" "str_lower e = e0"
    by (auto simp: str_lower_def map_eq_append_conv map_eq_Cons_conv)
  with ascii_lower_eq [OF assms(2)] show ?thesis by blast
qed

lemma lower_exe:
  "str_lower n = m @ ''.exe'' \<Longrightarrow> \<exists>a e. n = a @ CHR ''.'' # e \<and> str_lower a = m \<and> str_lower e = ''exe''"
  by (rule lower_split) simp_all

lemma powershell_base:
  assumes "file_name n = Some n" and "str_lower n \<in> {''powershell'', ''pwsh''}"
  shows "CHR ''.'' \<notin> set n" and "detect_shell_type n \<notin> {Some Zsh, Some Bash, Some Sh}"
proof -
  from assms(2) show dot: "CHR ''.'' \<notin> set n"
    using lower_eq [of n "''powershell''"] lower_eq [of n "''pwsh''"] by auto
  show "detect_shell_type n \<notin> {Some Zsh, Some Bash, Some Sh}"
    unfolding detect_name [OF assms(1) dot] using lower_shell_names [of n] assms(2) by auto
qed

lemma powershell_is_no_shell:
  assumes "is_powershell_executable exe"
  shows "detect_shell_type exe \<notin> {Some Zsh, Some Bash, Some Sh}" and "exe \<noteq> ''rm''" and "exe \<noteq> ''sudo''"
proof -
  have "\<not> is_powershell_executable ''rm''" "\<not> is_powershell_executable ''sudo''" by code_simp+
  with assms show "exe \<noteq> ''rm''" "exe \<noteq> ''sudo''" by blast+
  show "detect_shell_type exe \<notin> {Some Zsh, Some Bash, Some Sh}"
  proof (cases "shell_of_name exe")
    case (Some t)
    then have "detect_shell_type exe = shell_of_name exe" "file_name exe = Some exe"
      using detect_known known_shell_name by simp_all
    with assms lower_shell_names [of exe] show ?thesis by (auto simp: is_powershell_executable_def)
  next
    case None
    note unknown = detect_unknown [OF None]
    show ?thesis
    proof (cases "file_name exe")
      case None
      then show ?thesis by (simp add: unknown file_stem_def)
    next
      case (Some n)
      note idem = file_name_idem [OF Some]
      from assms Some have lower: "str_lower n \<in> {''powershell'', ''pwsh''} \<or>
          (\<exists>m \<in> {''powershell'', ''pwsh''}. str_lower n = m @ ''.exe'')"
        by (auto simp: is_powershell_executable_def)
      then show ?thesis
      proof
        assume base: "str_lower n \<in> {''powershell'', ''pwsh''}"
        note b = powershell_base [OF idem base]
        from unknown file_stem_no_dot [OF Some b(1)] b(2) show ?thesis by simp
      next
        assume "\<exists>m \<in> {''powershell'', ''pwsh''}. str_lower n = m @ ''.exe''"
        then obtain a e where n: "n = a @ CHR ''.'' # e" and a: "str_lower a \<in> {''powershell'', ''pwsh''}"
          and e: "str_lower e = ''exe''"
          using lower_exe by blast
        have "CHR ''.'' \<notin> set e" using lower_eq [OF e] by simp
        then have "rsplit_once CHR ''.'' n = Some (a, e)" by (simp add: rsplit_once_Some n)
        moreover have "a \<noteq> []" using a by (auto simp: str_lower_def)
        ultimately have stem: "file_stem exe = Some a" using Some by (simp add: file_stem_def)
        have "CHR ''.'' \<notin> set a" using a lower_eq [of a "''powershell''"] lower_eq [of a "''pwsh''"] by auto
        then have "a \<noteq> ''.''" "a \<noteq> ''..''" by auto
        moreover have "CHR ''/'' \<notin> set a" using file_name_plain [OF Some] n by simp
        ultimately have "file_name a = Some a" using path_parts_name [of a] \<open>a \<noteq> []\<close> by (simp add: file_name_def)
        from powershell_base(2) [OF this a] unknown stem show ?thesis by simp
      qed
    qed
  qed
qed

subsection \<open>Properties\<close>

text \<open>
  The git subcommand that is found is the first word after git's global options, an option
  that takes a value having consumed the word after it, and it is found whenever it is there.
\<close>

theorem git_subcommand_is_the_first_word:
  "find_git_subcommand command subs = Some (idx, sub) \<longleftrightarrow>
    (\<exists>c opts rest. command = c # opts @ sub # rest \<and> idx = 1 + length opts \<and> file_name c = Some ''git'' \<and>
      global_options opts \<and> sub \<in> set subs \<and> \<not> starts_with sub ''-'')"
proof
  assume "find_git_subcommand command subs = Some (idx, sub)"
  then obtain c args where c: "command = c # args" "file_name c = Some ''git''" "git_scan subs False 1 args = Some (idx, sub)"
    by (auto simp: find_git_subcommand_def executable_name_lookup_key_def split: list.splits if_splits)
  with git_scan_Some [OF c(3)] show "\<exists>c opts rest. command = c # opts @ sub # rest \<and> idx = 1 + length opts \<and>
      file_name c = Some ''git'' \<and> global_options opts \<and> sub \<in> set subs \<and> \<not> starts_with sub ''-''"
    by auto
next
  assume "\<exists>c opts rest. command = c # opts @ sub # rest \<and> idx = 1 + length opts \<and> file_name c = Some ''git'' \<and>
      global_options opts \<and> sub \<in> set subs \<and> \<not> starts_with sub ''-''"
  then show "find_git_subcommand command subs = Some (idx, sub)"
    using git_scan_found [of sub subs False] by (auto simp: find_git_subcommand_def executable_name_lookup_key_def)
qed

lemma unsafe_global_value: "is_git_global_option_with_value arg \<Longrightarrow> git_matches_option_pattern arg UNSAFE_GIT_GLOBAL_OPTIONS"
  unfolding is_git_global_option_with_value_def
  by (elim insertE emptyE; simp add: git_matches_option_pattern_def UNSAFE_GIT_GLOBAL_OPTIONS_def)

lemma unsafe_global_inline:
  "is_git_global_option_with_inline_value arg \<Longrightarrow> git_matches_option_pattern arg UNSAFE_GIT_GLOBAL_OPTIONS"
  unfolding is_git_global_option_with_inline_value_def list_ex_Nil_iff list_ex_Cons_iff
  by (elim disjE conjE; simp add: git_matches_option_pattern_def UNSAFE_GIT_GLOBAL_OPTIONS_def numeral_2_eq_2)

lemma unsafe_global_pager: "arg \<in> {''-p'', ''--paginate''} \<Longrightarrow> git_matches_option_pattern arg UNSAFE_GIT_GLOBAL_OPTIONS"
  by (elim insertE emptyE; simp add: git_matches_option_pattern_def UNSAFE_GIT_GLOBAL_OPTIONS_def)



lemma extract_bash_zsh:
  "extract_bash_command (''bash'' # args) = map_option (\<lambda>(_, script). (''bash'', script)) (extract_bash_command (''zsh'' # args))"
  by (auto simp: extract_bash_command_def detect_known shell_of_name_def split: list.splits)

lemma script_zsh:
  "parse_shell_lc_plain_commands parse (''bash'' # args) = parse_shell_lc_plain_commands parse (''zsh'' # args)"
  unfolding parse_shell_lc_plain_commands_def extract_bash_zsh by (auto split: option.splits)

lemma safe_not_dangerous:
  assumes safe: "is_known_safe_command tools command" and "''zsh'' \<notin> set (tl command)"
  shows "\<not> command_might_be_dangerous tools command"
proof (cases command)
  case (Cons c args)
  define c' where "c' = (if c = ''zsh'' then ''bash'' else c)"
  have "map (\<lambda>s. if s = ''zsh'' then ''bash'' else s) args = args"
    using assms(2) Cons by (intro map_idI) auto
  then have known: "is_safe_command_windows tools (c' # args) \<or> is_safe_to_call_with_exec (target_linux tools) (c' # args) \<or>
      (\<exists>cmds. parse_shell_lc_plain_commands (try_parse_shell tools) (c' # args) = Some cmds \<and>
        list_all (is_safe_to_call_with_exec (target_linux tools)) cmds)"
    using safe by (auto simp: is_known_safe_command_def Cons c'_def Let_def split: if_splits option.splits)
  have script: "parse_shell_lc_plain_commands (try_parse_shell tools) command =
      parse_shell_lc_plain_commands (try_parse_shell tools) (c' # args)"
    by (auto simp: Cons c'_def script_zsh)
  have exec: "is_dangerous_to_call_with_exec command \<longleftrightarrow> is_dangerous_to_call_with_exec (c' # args)"
    by (auto simp: Cons c'_def)
  have no_script: "parse_shell_lc_plain_commands (try_parse_shell tools) (c' # args) = None"
    if "extract_bash_command (c' # args) = None"
    using that by (simp add: parse_shell_lc_plain_commands_def)
  have cmds: "\<not> is_dangerous_to_call_with_exec cmd" if "is_safe_to_call_with_exec linux cmd" for linux cmd
    using that safe_exec_not_dangerous(1) by (cases cmd) auto
  from known show ?thesis
  proof (elim disjE exE conjE)
    assume "is_safe_command_windows tools (c' # args)"
    then have "is_powershell_executable c'"
      by (auto simp: is_safe_command_windows_def try_parse_powershell_command_sequence_def split: if_splits)
    note no_shell = powershell_is_no_shell [OF this]
    have "extract_bash_command (c' # args) = None"
      using no_shell(1) by (auto simp: extract_bash_command_def split: list.splits)
    moreover have "\<not> is_dangerous_to_call_with_exec (c' # args)"
      using dangerous_first [of c' args] no_shell(2,3) by blast
    ultimately show ?thesis using no_script by (simp add: command_might_be_dangerous_def exec script)
  next
    assume "is_safe_to_call_with_exec (target_linux tools) (c' # args)"
    from safe_exec_not_dangerous [OF this] no_script show ?thesis
      by (simp add: command_might_be_dangerous_def exec script)
  next
    fix cmds
    assume parsed: "parse_shell_lc_plain_commands (try_parse_shell tools) (c' # args) = Some cmds"
      and all: "list_all (is_safe_to_call_with_exec (target_linux tools)) cmds"
    have "c' \<noteq> ''rm'' \<and> c' \<noteq> ''sudo''"
    proof -
      have "detect_shell_type ''rm'' = None \<and> detect_shell_type ''sudo'' = None"
        using detect_name dangerous_names by (simp add: shell_of_name_def)
      moreover have "detect_shell_type c' \<in> {Some Zsh, Some Bash, Some Sh}"
        using parsed
        by (auto simp: parse_shell_lc_plain_commands_def extract_bash_command_def split: option.splits list.splits if_splits)
      ultimately show ?thesis by auto
    qed
    then have "\<not> is_dangerous_to_call_with_exec (c' # args)" using dangerous_first [of c' args] by blast
    moreover have "\<not> list_ex is_dangerous_to_call_with_exec cmds"
      using all cmds unfolding list_all_iff list_ex_iff by blast
    ultimately show ?thesis by (simp add: command_might_be_dangerous_def exec script parsed)
  qed
qed (simp add: command_might_be_dangerous_def parse_shell_lc_plain_commands_def extract_bash_command_def)


definition sample_tools :: shell_tools where
  "sample_tools =
     \<lparr>try_parse_shell = (\<lambda>script. if script = ''ls -l && pwd'' then Some sample_tree else None),
      powershell_ast = (\<lambda>_ _. None), target_linux = True\<rparr>"


text \<open>
  The line argument of \<open>sed -n\<close> that is approved is the documented pattern: one number, or
  two numbers with a comma between them, followed by \<open>p\<close>.
\<close>

theorem sed_argument_is_a_line_range:
  "is_valid_sed_n_arg (Some s) \<longleftrightarrow>
    (\<exists>b. all_digits b \<and> (s = b @ ''p'' \<or> (\<exists>a. all_digits a \<and> s = a @ '','' @ b @ ''p'')))"
proof -
  have parts: "(case split_on CHR '','' core of [num] \<Rightarrow> all_digits num | [a, b] \<Rightarrow> all_digits a \<and> all_digits b | _ \<Rightarrow> False) \<longleftrightarrow>
      all_digits core \<or> (\<exists>a b. core = a @ CHR '','' # b \<and> all_digits a \<and> all_digits b)" (is "?l \<longleftrightarrow> ?r") for core
  proof
    assume ?l
    then consider x where "split_on CHR '','' core = [x]" "all_digits x"
      | x y where "split_on CHR '','' core = [x, y]" "all_digits x" "all_digits y"
      by (auto split: list.splits)
    then show ?r
      by cases (auto simp: split_on_one split_on_two)
  next
    assume ?r
    then show ?l
    proof (elim disjE exE conjE)
      assume "all_digits core"
      with digits_no_comma [OF this] split_on_one [of "CHR '',''" core core] show ?l by simp
    next
      fix a b assume "core = a @ CHR '','' # b" and ab: "all_digits a" "all_digits b"
      with digits_no_comma [OF ab(1)] digits_no_comma [OF ab(2)] split_on_two [of "CHR '',''" core a b] show ?l by simp
    qed
  qed
  show ?thesis
  proof (cases "strip_suffix ''p'' s")
    case None
    then have "\<nexists>r. s = r @ ''p''" by (metis option.distinct(1) strip_suffix_Some)
    then have "\<not> (\<exists>b. all_digits b \<and> (s = b @ ''p'' \<or> (\<exists>a. all_digits a \<and> s = a @ '','' @ b @ ''p'')))"
      by (metis append.assoc)
    with None show ?thesis by (simp add: is_valid_sed_n_arg_def)
  next
    case (Some core)
    then have s: "s = core @ ''p''" by (simp add: strip_suffix_Some)
    have "is_valid_sed_n_arg (Some s) \<longleftrightarrow> all_digits core \<or> (\<exists>a b. core = a @ CHR '','' # b \<and> all_digits a \<and> all_digits b)"
      unfolding parts [symmetric] by (simp add: is_valid_sed_n_arg_def Some)
    also have "\<dots> \<longleftrightarrow> (\<exists>b. all_digits b \<and> (s = b @ ''p'' \<or> (\<exists>a. all_digits a \<and> s = a @ '','' @ b @ ''p'')))"
      by (auto simp: s)
    finally show ?thesis .
  qed
qed

text \<open>
  Ripgrep's \<open>-z\<close> runs decompression programs and is refused as a word of its own, but not
  when it is combined with another short option.
\<close>

lemma combined_search_zip_is_approved:
  "is_known_safe_command sample_tools [''rg'', ''-z'', ''x''] = False"
  "is_known_safe_command sample_tools [''rg'', ''-nz'', ''x''] = True"
  by code_simp+

end
