(* ===== verification/Protocol_Types.thy ===== *)
theory Protocol_Types
  imports Rust_Prelude
begin

section \<open>Settings of approval and sandbox\<close>

text \<open>
  The types of \<open>codex-rs/protocol/src/protocol.rs\<close>, \<open>protocol/src/models.rs\<close> and
  \<open>protocol/src/permissions.rs\<close> that say when the user is asked and what the sandbox allows.
\<close>

record granular_approval_config =
  sandbox_approval :: bool
  rules_approval :: bool
  skill_approval :: bool
  request_permissions :: bool
  mcp_elicitations :: bool

datatype ask_for_approval =
  UnlessTrusted | OnFailure | OnRequest | Granular granular_approval_config | Never

datatype sandbox_permissions = UseDefault | RequireEscalated | WithAdditionalPermissions

definition requests_sandbox_override :: "sandbox_permissions \<Rightarrow> bool" where
  "requests_sandbox_override p \<longleftrightarrow> p \<noteq> UseDefault"

datatype file_system_sandbox_kind = Restricted | Unrestricted | ExternalSandbox

text \<open>The permissions inside a profile play no role here and are parameters.\<close>

datatype ('f, 'n) permission_profile = Managed 'f 'n | ProfileDisabled | External 'n

definition allows_sandbox_approval :: "granular_approval_config \<Rightarrow> bool" where
  "allows_sandbox_approval c = sandbox_approval c"

definition allows_rules_approval :: "granular_approval_config \<Rightarrow> bool" where
  "allows_rules_approval c = rules_approval c"

end
