(* ===== verification/Exec_Approval.thy ===== *)
theory Exec_Approval
  imports Command_Safety Policy_Language Policy_Amend Protocol_Types
begin

section \<open>Whether a command runs\<close>

text \<open>
  \<open>codex-rs/core/src/exec_policy.rs\<close>: a command is lowered to the commands it runs, the policy and
  the built-in knowledge decide about each, and the outcome is to run it, to ask the user, or to
  refuse; approvals are stored. The requirement comes from \<open>core/src/tools/sandboxing.rs\<close>.
  On Unix a command always has the generic origin and the sandbox is a real one, so
  \<open>environment_lacks_sandbox_protections\<close> is false.
\<close>

subsection \<open>Settings\<close>

record ('f, 'n) unmatched_command_context =
  ctx_approval_policy :: ask_for_approval
  ctx_permission_profile :: "('f, 'n) permission_profile"
  ctx_sandbox_kind :: file_system_sandbox_kind
  ctx_sandbox_permissions :: sandbox_permissions
  ctx_used_complex_parsing :: bool

record exec_policy_commands =
  lowered_commands :: "string list list"
  used_complex_parsing :: bool

datatype exec_approval_requirement =
    Skip (bypass_sandbox: bool) (proposed_amendment: "string list option")
  | NeedsApproval (prompt_reason: "string option") (proposed_amendment: "string list option")
  | ForbiddenCommand string

definition PROMPT_CONFLICT_REASON :: string where
  "PROMPT_CONFLICT_REASON = ''approval required by policy, but AskForApproval is set to Never''"

definition REJECT_SANDBOX_APPROVAL_REASON :: string where
  "REJECT_SANDBOX_APPROVAL_REASON =
     ''approval required by policy, but AskForApproval::Granular.sandbox_approval is false''"

definition REJECT_RULES_APPROVAL_REASON :: string where
  "REJECT_RULES_APPROVAL_REASON =
     ''approval required by policy rule, but AskForApproval::Granular.rules is false''"

definition BANNED_PREFIX_SUGGESTIONS :: "string list list" where
  "BANNED_PREFIX_SUGGESTIONS =
     [[''python3''], [''python3'', ''-''], [''python3'', ''-c''], [''python''], [''python'', ''-''], [''python'', ''-c''],
      [''py''], [''py'', ''-3''], [''pythonw''], [''pyw''], [''pypy''], [''pypy3''], [''git''],
      [''bash''], [''bash'', ''-lc''], [''sh''], [''sh'', ''-c''], [''sh'', ''-lc''], [''zsh''], [''zsh'', ''-lc''],
      [''/bin/zsh''], [''/bin/zsh'', ''-lc''], [''/bin/bash''], [''/bin/bash'', ''-lc''],
      [''pwsh''], [''pwsh'', ''-Command''], [''pwsh'', ''-c''],
      [''powershell''], [''powershell'', ''-Command''], [''powershell'', ''-c''],
      [''powershell.exe''], [''powershell.exe'', ''-Command''], [''powershell.exe'', ''-c''],
      [''env''], [''sudo''], [''node''], [''node'', ''-e''], [''perl''], [''perl'', ''-e''], [''ruby''], [''ruby'', ''-e''],
      [''php''], [''php'', ''-r''], [''lua''], [''lua'', ''-e''], [''osascript'']]"

definition is_policy_match :: "rule_match \<Rightarrow> bool" where
  "is_policy_match m \<longleftrightarrow> (case m of PrefixRuleMatch _ _ _ _ \<Rightarrow> True | HeuristicsRuleMatch _ _ \<Rightarrow> False)"

definition prompt_is_rejected_by_policy :: "ask_for_approval \<Rightarrow> bool \<Rightarrow> string option" where
  "prompt_is_rejected_by_policy approval_policy prompt_is_rule =
     (case approval_policy of
        Never \<Rightarrow> Some PROMPT_CONFLICT_REASON
      | OnFailure \<Rightarrow> None
      | OnRequest \<Rightarrow> None
      | UnlessTrusted \<Rightarrow> None
      | Granular granular_config \<Rightarrow>
          if prompt_is_rule then
            (if \<not> allows_rules_approval granular_config then Some REJECT_RULES_APPROVAL_REASON else None)
          else if \<not> allows_sandbox_approval granular_config then Some REJECT_SANDBOX_APPROVAL_REASON
          else None)"

subsection \<open>Commands without a rule\<close>

definition render_decision_for_unmatched_command ::
    "shell_tools \<Rightarrow> ('f, 'n) unmatched_command_context \<Rightarrow> string list \<Rightarrow> decision" where
  "render_decision_for_unmatched_command tools ctx command =
     (if is_known_safe_command tools command \<and> \<not> ctx_used_complex_parsing ctx \<and> ctx_approval_policy ctx = UnlessTrusted
      then Allow
      else if command_might_be_dangerous tools command then
        (case ctx_approval_policy ctx of
           Never \<Rightarrow>
             (case ctx_permission_profile ctx of Managed _ _ \<Rightarrow> Forbidden | ProfileDisabled \<Rightarrow> Allow | External _ \<Rightarrow> Allow)
         | OnFailure \<Rightarrow> Prompt
         | OnRequest \<Rightarrow> Prompt
         | UnlessTrusted \<Rightarrow> Prompt
         | Granular _ \<Rightarrow> Prompt)
      else
        (case ctx_approval_policy ctx of
           Never \<Rightarrow> Allow
         | OnFailure \<Rightarrow> Allow
         | UnlessTrusted \<Rightarrow> Prompt
         | OnRequest \<Rightarrow>
             (case ctx_sandbox_kind ctx of
                Unrestricted \<Rightarrow> Allow
              | ExternalSandbox \<Rightarrow> Allow
              | Restricted \<Rightarrow> if requests_sandbox_override (ctx_sandbox_permissions ctx) then Prompt else Allow)
         | Granular _ \<Rightarrow>
             (case ctx_sandbox_kind ctx of
                Unrestricted \<Rightarrow> Allow
              | ExternalSandbox \<Rightarrow> Allow
              | Restricted \<Rightarrow> if requests_sandbox_override (ctx_sandbox_permissions ctx) then Prompt else Allow)))"

subsection \<open>Lowering\<close>

definition commands_for_exec_policy :: "shell_tools \<Rightarrow> string list \<Rightarrow> exec_policy_commands" where
  "commands_for_exec_policy tools command =
     (case parse_shell_lc_plain_commands (try_parse_shell tools) command of
        Some (c # cs) \<Rightarrow> \<lparr>lowered_commands = c # cs, used_complex_parsing = False\<rparr>
      | _ \<Rightarrow>
          (case parse_shell_lc_single_command_prefix (try_parse_shell tools) command of
             Some single_command \<Rightarrow> \<lparr>lowered_commands = [single_command], used_complex_parsing = True\<rparr>
           | None \<Rightarrow> \<lparr>lowered_commands = [command], used_complex_parsing = False\<rparr>))"

subsection \<open>Amendments\<close>

text \<open>An \<open>ExecPolicyAmendment\<close> is the list of its words.\<close>

definition prompt_command :: "decision \<Rightarrow> rule_match \<Rightarrow> string list option" where
  "prompt_command d m =
     (case m of
        HeuristicsRuleMatch command d' \<Rightarrow> if d' = d then Some command else None
      | PrefixRuleMatch _ _ _ _ \<Rightarrow> None)"

fun find_map :: "('a \<Rightarrow> 'b option) \<Rightarrow> 'a list \<Rightarrow> 'b option" where
  "find_map f [] = None"
| "find_map f (x # xs) = (case f x of Some y \<Rightarrow> Some y | None \<Rightarrow> find_map f xs)"

definition try_derive_execpolicy_amendment_for_prompt_rules :: "rule_match list \<Rightarrow> string list option" where
  "try_derive_execpolicy_amendment_for_prompt_rules ms =
     (if list_ex (\<lambda>m. is_policy_match m \<and> match_decision m = Prompt) ms then None
      else find_map (prompt_command Prompt) ms)"

definition try_derive_execpolicy_amendment_for_allow_rules :: "rule_match list \<Rightarrow> string list option" where
  "try_derive_execpolicy_amendment_for_allow_rules ms =
     (if list_ex is_policy_match ms then None else find_map (prompt_command Allow) ms)"

definition prefix_rule_would_approve_all_commands ::
    "program_paths \<Rightarrow> exec_policy \<Rightarrow> string list \<Rightarrow> string list list \<Rightarrow> fallback \<Rightarrow> match_options \<Rightarrow> bool" where
  "prefix_rule_would_approve_all_commands paths p prefix_rule commands fallback options =
     (case add_prefix_rule p prefix_rule Allow of
        Inl _ \<Rightarrow> False
      | Inr p' \<Rightarrow>
          list_all (\<lambda>command. map_option eval_decision (check_with_options paths p' command fallback options) = Some Allow)
            commands)"

definition derive_requested_execpolicy_amendment_from_prefix_rule ::
    "program_paths \<Rightarrow> string list option \<Rightarrow> rule_match list \<Rightarrow> exec_policy \<Rightarrow> string list list \<Rightarrow> fallback
     \<Rightarrow> match_options \<Rightarrow> string list option" where
  "derive_requested_execpolicy_amendment_from_prefix_rule paths prefix_rule ms p commands fallback options =
     (case prefix_rule of
        None \<Rightarrow> None
      | Some prefix_rule \<Rightarrow>
          if prefix_rule = [] then None
          else if prefix_rule \<in> set BANNED_PREFIX_SUGGESTIONS then None
          else if list_ex is_policy_match ms then None
          else if prefix_rule_would_approve_all_commands paths p prefix_rule commands fallback options
            then Some prefix_rule
          else None)"

subsection \<open>Reasons\<close>

definition render_shlex_command :: "rendering \<Rightarrow> string list \<Rightarrow> string" where
  "render_shlex_command rd args = (case try_join rd args of Some str \<Rightarrow> str | None \<Rightarrow> join '' '' args)"

definition rule_matches_of :: "decision \<Rightarrow> rule_match list \<Rightarrow> (string list \<times> string option) list" where
  "rule_matches_of d ms =
     List.map_filter
       (\<lambda>m. case m of
              PrefixRuleMatch prefix d' _ justification \<Rightarrow> if d' = d then Some (prefix, justification) else None
            | HeuristicsRuleMatch _ _ \<Rightarrow> None) ms"

definition derive_prompt_reason :: "rendering \<Rightarrow> string list \<Rightarrow> evaluation \<Rightarrow> string option" where
  "derive_prompt_reason rd command_args e =
     (let command = render_shlex_command rd command_args in
      case max_by_key (\<lambda>(prefix, _). length prefix) (rule_matches_of Prompt (matched_rules e)) of
        Some (_, Some justification) \<Rightarrow> Some (''`'' @ command @ ''` requires approval: '' @ justification)
      | Some (_, None) \<Rightarrow> Some (''`'' @ command @ ''` requires approval by policy'')
      | None \<Rightarrow> None)"

definition derive_forbidden_reason :: "rendering \<Rightarrow> string list \<Rightarrow> evaluation \<Rightarrow> string" where
  "derive_forbidden_reason rd command_args e =
     (let command = render_shlex_command rd command_args in
      case max_by_key (\<lambda>(prefix, _). length prefix) (rule_matches_of Forbidden (matched_rules e)) of
        Some (_, Some justification) \<Rightarrow> ''`'' @ command @ ''` rejected: '' @ justification
      | Some (prefix, None) \<Rightarrow>
          ''`'' @ command @ ''` rejected: policy forbids commands starting with `'' @ render_shlex_command rd prefix @ ''`''
      | None \<Rightarrow> ''`'' @ command @ ''` rejected: blocked by policy'')"

subsection \<open>The requirement\<close>

record ('f, 'n) exec_approval_request =
  req_command :: "string list"
  req_approval_policy :: ask_for_approval
  req_permission_profile :: "('f, 'n) permission_profile"
  req_sandbox_kind :: file_system_sandbox_kind
  req_sandbox_permissions :: sandbox_permissions
  req_prefix_rule :: "string list option"

definition exec_policy_fallback ::
    "shell_tools \<Rightarrow> ('f, 'n) exec_approval_request \<Rightarrow> bool \<Rightarrow> fallback" where
  "exec_policy_fallback tools req complex_parsing cmd =
     render_decision_for_unmatched_command tools
       \<lparr>ctx_approval_policy = req_approval_policy req, ctx_permission_profile = req_permission_profile req,
        ctx_sandbox_kind = req_sandbox_kind req, ctx_sandbox_permissions = req_sandbox_permissions req,
        ctx_used_complex_parsing = complex_parsing\<rparr> cmd"

text \<open>\<open>None\<close> is the panic of an evaluation without matches.\<close>

definition create_exec_approval_requirement_for_command ::
    "shell_tools \<Rightarrow> program_paths \<Rightarrow> rendering \<Rightarrow> exec_policy \<Rightarrow> ('f, 'n) exec_approval_request
     \<Rightarrow> exec_approval_requirement option" where
  "create_exec_approval_requirement_for_command tools paths rd p req =
     (let lowered = commands_for_exec_policy tools (req_command req);
          commands = lowered_commands lowered;
          auto_amendment_allowed = \<not> used_complex_parsing lowered;
          fallback = exec_policy_fallback tools req (used_complex_parsing lowered);
          options = \<lparr>resolve_host_executables = True\<rparr>
      in case check_multiple_with_options paths p commands fallback options of
           None \<Rightarrow> None
         | Some e \<Rightarrow>
             (let requested_amendment =
                (if auto_amendment_allowed
                 then derive_requested_execpolicy_amendment_from_prefix_rule paths (req_prefix_rule req)
                        (matched_rules e) p commands fallback options
                 else None)
              in Some (case eval_decision e of
                   Forbidden \<Rightarrow> ForbiddenCommand (derive_forbidden_reason rd (req_command req) e)
                 | Prompt \<Rightarrow>
                     (let prompt_is_rule = list_ex (\<lambda>m. is_policy_match m \<and> match_decision m = Prompt) (matched_rules e)
                      in case prompt_is_rejected_by_policy (req_approval_policy req) prompt_is_rule of
                           Some reason \<Rightarrow> ForbiddenCommand reason
                         | None \<Rightarrow>
                             NeedsApproval (derive_prompt_reason rd (req_command req) e)
                               (case requested_amendment of
                                  Some a \<Rightarrow> Some a
                                | None \<Rightarrow>
                                    if auto_amendment_allowed
                                    then try_derive_execpolicy_amendment_for_prompt_rules (matched_rules e) else None))
                 | Allow \<Rightarrow>
                     Skip
                       (list_all
                         (\<lambda>command. list_ex (\<lambda>m. is_policy_match m \<and> match_decision m = Allow)
                            (matches_for_command_with_options paths p command None options)) commands)
                       (if auto_amendment_allowed
                        then try_derive_execpolicy_amendment_for_allow_rules (matched_rules e) else None))))"

subsection \<open>Storing an approval\<close>

datatype exec_policy_update_error =
    AppendRule string amend_error
  | JoinBlockingTask
  | AddRule exec_error

text \<open>
  The manager holds the current policy; the files are the state of the file operations. The
  semaphore is never closed and the blocking task is always joined, so those errors do not occur.
  The path of the rules file is the result of \<open>default_policy_path\<close>.
\<close>

definition append_amendment_and_update ::
    "to_json \<Rightarrow> 's rule_files \<Rightarrow> (string \<Rightarrow> string option) \<Rightarrow> program_paths \<Rightarrow> string \<Rightarrow> string list
     \<Rightarrow> 's \<times> exec_policy \<Rightarrow> ('s \<times> exec_policy) \<times> (exec_policy_update_error + unit)" where
  "append_amendment_and_update json fs parent paths policy_path amendment st =
     (case st of (s, current_policy) \<Rightarrow>
     (case blocking_append_allow_prefix_rule json fs parent policy_path amendment s of
        (s, Inl source) \<Rightarrow> ((s, current_policy), Inl (AppendRule policy_path source))
      | (s, Inr _) \<Rightarrow>
          (let already_allowed =
             (case check_multiple_with_options paths current_policy [amendment] (\<lambda>_. Forbidden) \<lparr>resolve_host_executables = True\<rparr> of
                None \<Rightarrow> False
              | Some e \<Rightarrow>
                  eval_decision e = Allow \<and>
                  list_ex (\<lambda>m. is_policy_match m \<and> match_decision m = Allow) (matched_rules e))
           in if already_allowed then ((s, current_policy), Inr ())
              else (case add_prefix_rule current_policy amendment Allow of
                      Inl e \<Rightarrow> ((s, current_policy), Inl (AddRule e))
                    | Inr updated_policy \<Rightarrow> ((s, updated_policy), Inr ())))))"

definition append_network_rule_and_update ::
    "(string list \<Rightarrow> string) \<Rightarrow> to_json \<Rightarrow> 's rule_files \<Rightarrow> (string \<Rightarrow> string option) \<Rightarrow> string \<Rightarrow> string
     \<Rightarrow> network_rule_protocol \<Rightarrow> decision \<Rightarrow> string option \<Rightarrow> 's \<times> exec_policy
     \<Rightarrow> ('s \<times> exec_policy) \<times> (exec_policy_update_error + unit)" where
  "append_network_rule_and_update dbg json fs parent policy_path host protocol d justification st =
     (case st of (s, current_policy) \<Rightarrow>
     (case blocking_append_network_rule dbg json fs parent policy_path host protocol d justification s of
        (s, Inl source) \<Rightarrow> ((s, current_policy), Inl (AppendRule policy_path source))
      | (s, Inr _) \<Rightarrow>
          (case add_network_rule current_policy host protocol d justification of
             Inl e \<Rightarrow> ((s, current_policy), Inl (AddRule e))
           | Inr updated_policy \<Rightarrow> ((s, updated_policy), Inr ()))))"

subsection \<open>Loading the policy\<close>

datatype exec_policy_error =
    ReadDir string io_error
  | ReadFile string io_error
  | ParsePolicy string exec_error

text \<open>
  \<open>Path::extension\<close>: what follows the last dot of the file name, unless that dot is in front.
\<close>

definition extension :: "string \<Rightarrow> string option" where
  "extension p =
     (case file_name p of
        None \<Rightarrow> None
      | Some name \<Rightarrow>
          (case rsplit_once CHR ''.'' name of
             None \<Rightarrow> None
           | Some (before, after) \<Rightarrow> if before = [] then None else Some after))"

text \<open>
  A directory listing: the entries come one by one, each a path or an error, and a path has a
  file type or an error of its own.
\<close>

record dir_listing =
  read_dir :: "string \<Rightarrow> io_error + (io_error + string) list"
  entry_is_file :: "string \<Rightarrow> io_error + bool"

fun collect_entries :: "dir_listing \<Rightarrow> string \<Rightarrow> (io_error + string) list \<Rightarrow> string list \<Rightarrow> exec_policy_error + string list" where
  "collect_entries ls dir [] policy_paths = Inr (sort policy_paths)"
| "collect_entries ls dir (Inl source # entries) policy_paths = Inl (ReadDir dir source)"
| "collect_entries ls dir (Inr path # entries) policy_paths =
     (case entry_is_file ls path of
        Inl source \<Rightarrow> Inl (ReadDir dir source)
      | Inr regular \<Rightarrow>
          collect_entries ls dir entries
            (if extension path = Some ''rules'' \<and> regular then policy_paths @ [path] else policy_paths))"

definition collect_policy_files :: "dir_listing \<Rightarrow> string \<Rightarrow> exec_policy_error + string list" where
  "collect_policy_files ls dir =
     (case read_dir ls dir of
        Inl err \<Rightarrow> if error_kind err = NotFound then Inr [] else Inl (ReadDir dir err)
      | Inr entries \<Rightarrow> collect_entries ls dir entries [])"

text \<open>
  The configuration as loading sees it: the enabled layers from low to high precedence, each with
  its rules folder if it has one and whether it is a user or project layer; whether those are to
  be ignored; and the policy that the requirements impose.
\<close>

record config_layer =
  layer_is_user_or_project :: bool
  layer_rules_dir :: "string option"

record config_stack =
  stack_layers :: "config_layer list"
  ignore_user_and_project_exec_policy_rules :: bool
  requirements_exec_policy :: "exec_policy option"

fun collect_layers :: "dir_listing \<Rightarrow> bool \<Rightarrow> config_layer list \<Rightarrow> exec_policy_error + string list" where
  "collect_layers ls ignore [] = Inr []"
| "collect_layers ls ignore (layer # layers) =
     (if ignore \<and> layer_is_user_or_project layer then collect_layers ls ignore layers
      else (case layer_rules_dir layer of
              None \<Rightarrow> collect_layers ls ignore layers
            | Some policy_dir \<Rightarrow>
                (case collect_policy_files ls policy_dir of
                   Inl e \<Rightarrow> Inl e
                 | Inr layer_policy_paths \<Rightarrow>
                     (case collect_layers ls ignore layers of
                        Inl e \<Rightarrow> Inl e
                      | Inr policy_paths \<Rightarrow> Inr (layer_policy_paths @ policy_paths)))))"

text \<open>Reading and parsing go file by file, so the first file with an error of either kind wins.\<close>

fun read_and_parse ::
    "'v interpreter \<Rightarrow> 'v starlark \<Rightarrow> rendering \<Rightarrow> path_syntax \<Rightarrow> (string \<Rightarrow> io_error + string) \<Rightarrow> string list
     \<Rightarrow> policy_builder \<Rightarrow> exec_policy_error + policy_builder" where
  "read_and_parse interp sl rd ps read [] b = Inr b"
| "read_and_parse interp sl rd ps read (policy_path # policy_paths) b =
     (case read policy_path of
        Inl source \<Rightarrow> Inl (ReadFile policy_path source)
      | Inr contents \<Rightarrow>
          (case parse_policy_file interp sl rd ps policy_path contents b of
             (_, Inl source) \<Rightarrow> Inl (ParsePolicy policy_path source)
           | (b', Inr _) \<Rightarrow> read_and_parse interp sl rd ps read policy_paths b'))"

definition load_exec_policy ::
    "'v interpreter \<Rightarrow> 'v starlark \<Rightarrow> rendering \<Rightarrow> path_syntax \<Rightarrow> dir_listing \<Rightarrow> (string \<Rightarrow> io_error + string)
     \<Rightarrow> config_stack \<Rightarrow> exec_policy_error + exec_policy" where
  "load_exec_policy interp sl rd ps ls read stack =
     (case collect_layers ls (ignore_user_and_project_exec_policy_rules stack) (stack_layers stack) of
        Inl e \<Rightarrow> Inl e
      | Inr policy_paths \<Rightarrow>
          (case read_and_parse interp sl rd ps read policy_paths new_builder of
             Inl e \<Rightarrow> Inl e
           | Inr b \<Rightarrow>
               (case requirements_exec_policy stack of
                  None \<Rightarrow> Inr (build_policy b)
                | Some requirements_policy \<Rightarrow> Inr (merge_overlay (build_policy b) requirements_policy))))"

definition load_exec_policy_with_warning ::
    "'v interpreter \<Rightarrow> 'v starlark \<Rightarrow> rendering \<Rightarrow> path_syntax \<Rightarrow> dir_listing \<Rightarrow> (string \<Rightarrow> io_error + string)
     \<Rightarrow> config_stack \<Rightarrow> exec_policy_error + (exec_policy \<times> exec_policy_error option)" where
  "load_exec_policy_with_warning interp sl rd ps ls read stack =
     (case load_exec_policy interp sl rd ps ls read stack of
        Inr p \<Rightarrow> Inr (p, None)
      | Inl (ParsePolicy path source) \<Rightarrow> Inr (empty_policy, Some (ParsePolicy path source))
      | Inl err \<Rightarrow> Inl err)"

subsection \<open>What the requirement rests on\<close>

lemma lowered_nonempty: "\<exists>c cs. lowered_commands (commands_for_exec_policy tools command) = c # cs"
  by (auto simp: commands_for_exec_policy_def split: option.splits list.splits)

abbreviation resolving :: match_options where
  "resolving \<equiv> \<lparr>resolve_host_executables = True\<rparr>"

definition command_matches ::
    "shell_tools \<Rightarrow> program_paths \<Rightarrow> exec_policy \<Rightarrow> ('f, 'n) exec_approval_request \<Rightarrow> string list \<Rightarrow> rule_match list" where
  "command_matches tools paths p req cmd =
     matches_for_command_with_options paths p cmd
       (Some (exec_policy_fallback tools req (used_complex_parsing (commands_for_exec_policy tools (req_command req)))))
       resolving"

lemma requirement_evaluation:
  obtains e where
    "check_multiple_with_options paths p (lowered_commands (commands_for_exec_policy tools (req_command req)))
      (exec_policy_fallback tools req (used_complex_parsing (commands_for_exec_policy tools (req_command req)))) resolving = Some e"
    "matched_rules e = concat (map (command_matches tools paths p req) (lowered_commands (commands_for_exec_policy tools (req_command req))))"
    "eval_decision e = Max (match_decision ` set (matched_rules e))" "matched_rules e \<noteq> []"
proof -
  obtain c cs where cs: "lowered_commands (commands_for_exec_policy tools (req_command req)) = c # cs"
    using lowered_nonempty by blast
  let ?ms = "concat (map (command_matches tools paths p req) (c # cs))"
  have "?ms \<noteq> []" using fallback_match_nonempty by (simp add: command_matches_def)
  then obtain e where e: "from_matches ?ms = Some e" by (cases "from_matches ?ms") (simp only: from_matches_None)
  then have "matched_rules e = ?ms" "eval_decision e = Max (match_decision ` set (matched_rules e))"
    unfolding from_matches_Some by (blast, intro Max_eqI [symmetric]) auto
  moreover have "check_multiple_with_options paths p (c # cs)
      (exec_policy_fallback tools req (used_complex_parsing (commands_for_exec_policy tools (req_command req)))) resolving = Some e"
    using e by (simp add: check_multiple_with_options_def command_matches_def [abs_def])
  ultimately show thesis using that cs \<open>?ms \<noteq> []\<close> by simp
qed

text \<open>The evaluation that the requirement is drawn from, and the decision of each outcome.\<close>

definition outcome_of ::
    "program_paths \<Rightarrow> exec_policy \<Rightarrow> ('f, 'n) exec_approval_request \<Rightarrow> string list list \<Rightarrow> evaluation
     \<Rightarrow> exec_approval_requirement \<Rightarrow> bool" where
  "outcome_of paths p req commands e r \<longleftrightarrow>
     (let rejected = prompt_is_rejected_by_policy (req_approval_policy req)
            (list_ex (\<lambda>m. is_policy_match m \<and> match_decision m = Prompt) (matched_rules e)) \<noteq> None
      in case r of
           ForbiddenCommand _ \<Rightarrow> eval_decision e = Forbidden \<or> eval_decision e = Prompt \<and> rejected
         | NeedsApproval _ _ \<Rightarrow> eval_decision e = Prompt \<and> \<not> rejected
         | Skip bypass _ \<Rightarrow> eval_decision e = Allow \<and>
             bypass = list_all (\<lambda>command. list_ex (\<lambda>m. is_policy_match m \<and> match_decision m = Allow)
               (matches_for_command_with_options paths p command None resolving)) commands)"

lemma requirement_cases:
  obtains e r where
    "create_exec_approval_requirement_for_command tools paths rd p req = Some r"
    "matched_rules e = concat (map (command_matches tools paths p req) (lowered_commands (commands_for_exec_policy tools (req_command req))))"
    "eval_decision e = Max (match_decision ` set (matched_rules e))" "matched_rules e \<noteq> []"
    "outcome_of paths p req (lowered_commands (commands_for_exec_policy tools (req_command req))) e r"
proof (rule requirement_evaluation [of paths p tools req])
  fix e
  assume e: "check_multiple_with_options paths p (lowered_commands (commands_for_exec_policy tools (req_command req)))
      (exec_policy_fallback tools req (used_complex_parsing (commands_for_exec_policy tools (req_command req)))) resolving = Some e"
    "matched_rules e = concat (map (command_matches tools paths p req) (lowered_commands (commands_for_exec_policy tools (req_command req))))"
    "eval_decision e = Max (match_decision ` set (matched_rules e))" "matched_rules e \<noteq> []"
  have "\<exists>r. create_exec_approval_requirement_for_command tools paths rd p req = Some r \<and>
      outcome_of paths p req (lowered_commands (commands_for_exec_policy tools (req_command req))) e r"
    by (simp add: create_exec_approval_requirement_for_command_def Let_def e(1) outcome_of_def
        split: decision.splits option.splits)
  then show thesis using that e(2-4) by blast
qed

lemma fallback_matches:
  "command_matches tools paths p req cmd =
    (case matches_for_command_with_options paths p cmd None resolving of
       [] \<Rightarrow> [HeuristicsRuleMatch cmd (exec_policy_fallback tools req
                (used_complex_parsing (commands_for_exec_policy tools (req_command req))) cmd)]
     | m # ms \<Rightarrow> m # ms)"
  by (simp add: command_matches_def matches_for_command_with_options_def Let_def split: list.splits option.splits)

lemma rule_match_is_policy:
  "m \<in> set (matches_for_command_with_options paths p cmd None options) \<Longrightarrow> is_policy_match m"
proof -
  have resolved: "is_policy_match (with_resolved_program m program) \<longleftrightarrow> is_policy_match m" for m program
    by (cases m) (simp_all add: is_policy_match_def)
  assume m: "m \<in> set (matches_for_command_with_options paths p cmd None options)"
  obtain first args where cmd: "cmd = first # args"
    using m by (cases cmd)
      (auto simp: matches_for_command_with_options_def match_exact_rules_def match_host_executable_rules_def split: if_splits)
  from m consider "m \<in> set (List.map_filter (\<lambda>rule. rule_matches rule cmd) (rules_for (rules_by_program p) first))"
    | "m \<in> set (match_host_executable_rules paths p cmd)"
    by (auto simp: matches_for_command_with_options_def match_exact_rules_Cons cmd split: list.splits if_splits)
  then show ?thesis
  proof cases
    case 1
    then show ?thesis by (auto simp: List.map_filter_def rule_matches_def is_policy_match_def)
  next
    case 2
    then show ?thesis unfolding cmd
      by (rule host_rule_matched) (auto simp: resolved is_policy_match_def dest!: rule_matches_Some)
  qed
qed

lemma eval_max:
  assumes "matched_rules e = concat (map (command_matches tools paths p req) cmds)"
    and "eval_decision e = Max (match_decision ` set (matched_rules e))" and "cmd \<in> set cmds"
    and "m \<in> set (command_matches tools paths p req cmd)"
  shows "match_decision m \<le> eval_decision e"
proof -
  have "m \<in> set (matched_rules e)" using assms(1,3,4) by auto
  then show ?thesis unfolding assms(2) by (intro Max_ge) auto
qed

lemma rule_in_matches:
  "m \<in> set (matches_for_command_with_options paths p cmd None resolving) \<Longrightarrow> m \<in> set (command_matches tools paths p req cmd)"
  by (simp add: fallback_matches split: list.splits) auto

subsection \<open>Properties\<close>

text \<open>
  (C5) A rule that forbids is final: if any command that a request would run, however deep in
  the script, is matched by a rule with the decision forbidden, the request is refused,
  whatever the approval settings, the sandbox and the other rules are.
\<close>

theorem forbidden_rules_are_final:
  assumes "cmd \<in> set (lowered_commands (commands_for_exec_policy tools (req_command req)))"
    and "m \<in> set (matches_for_command_with_options paths p cmd None \<lparr>resolve_host_executables = True\<rparr>)"
    and "match_decision m = Forbidden"
  shows "\<exists>reason. create_exec_approval_requirement_for_command tools paths rd p req = Some (ForbiddenCommand reason)"
proof (rule requirement_cases [of tools paths rd p req])
  fix e r
  assume r: "create_exec_approval_requirement_for_command tools paths rd p req = Some r"
    "matched_rules e = concat (map (command_matches tools paths p req) (lowered_commands (commands_for_exec_policy tools (req_command req))))"
    "eval_decision e = Max (match_decision ` set (matched_rules e))"
    "outcome_of paths p req (lowered_commands (commands_for_exec_policy tools (req_command req))) e r"
  have "Forbidden \<le> eval_decision e"
    using eval_max [OF r(2,3) assms(1) rule_in_matches [OF assms(2)]] assms(3) by simp
  with r(1,4) show ?thesis by (auto simp: outcome_of_def Let_def split: exec_approval_requirement.splits)
qed

definition sample_request :: "string list \<Rightarrow> ask_for_approval \<Rightarrow> (unit, unit) exec_approval_request" where
  "sample_request command approval =
     \<lparr>req_command = command, req_approval_policy = approval, req_permission_profile = Managed () (),
      req_sandbox_kind = Restricted, req_sandbox_permissions = UseDefault, req_prefix_rule = None\<rparr>"

theorem forbidden_rules_are_final_witness:
  "\<exists>reason. create_exec_approval_requirement_for_command sample_tools sample_paths sample_rendering sample_policy
      (sample_request [''rm'', ''-rf'', ''/''] OnRequest) = Some (ForbiddenCommand reason)"
proof -
  have "[''rm'', ''-rf'', ''/''] \<in> set (lowered_commands (commands_for_exec_policy sample_tools
      (req_command (sample_request [''rm'', ''-rf'', ''/''] OnRequest))))" by code_simp
  moreover have "PrefixRuleMatch [''rm'', ''-rf''] Forbidden None None \<in>
      set (matches_for_command_with_options sample_paths sample_policy [''rm'', ''-rf'', ''/''] None \<lparr>resolve_host_executables = True\<rparr>)"
    by code_simp
  ultimately show ?thesis by (rule forbidden_rules_are_final) simp
qed

text \<open>
  (C6) A request runs outside the sandbox without a question only if every command it runs is
  matched by a rule that allows it, and by no rule that does anything else.
\<close>

theorem sandbox_is_bypassed_only_by_allow_rules:
  assumes "create_exec_approval_requirement_for_command tools paths rd p req = Some (Skip True am)"
    and "cmd \<in> set (lowered_commands (commands_for_exec_policy tools (req_command req)))"
  shows "matches_for_command_with_options paths p cmd None \<lparr>resolve_host_executables = True\<rparr> \<noteq> [] \<and>
    (\<forall>m \<in> set (matches_for_command_with_options paths p cmd None \<lparr>resolve_host_executables = True\<rparr>).
      is_policy_match m \<and> match_decision m = Allow)"
proof (rule requirement_cases [of tools paths rd p req])
  fix e r
  assume r: "create_exec_approval_requirement_for_command tools paths rd p req = Some r"
    "matched_rules e = concat (map (command_matches tools paths p req) (lowered_commands (commands_for_exec_policy tools (req_command req))))"
    "eval_decision e = Max (match_decision ` set (matched_rules e))"
    "outcome_of paths p req (lowered_commands (commands_for_exec_policy tools (req_command req))) e r"
  from r(1,4) assms(1) have allow: "eval_decision e = Allow" and
    some: "list_ex (\<lambda>m. is_policy_match m \<and> match_decision m = Allow) (matches_for_command_with_options paths p cmd None resolving)"
    using assms(2) by (auto simp: outcome_of_def list_all_iff)
  have "match_decision m = Allow" if "m \<in> set (matches_for_command_with_options paths p cmd None resolving)" for m
    using eval_max [OF r(2,3) assms(2) rule_in_matches [OF that]] allow by simp
  with some rule_match_is_policy show ?thesis by (force simp: list_ex_iff)
qed

theorem sandbox_is_bypassed_only_by_allow_rules_witness:
  "\<exists>p. add_prefix_rule empty_policy [''ls''] Allow = Inr p \<and>
    matches_for_command_with_options sample_paths p [''ls'', ''-l''] None \<lparr>resolve_host_executables = True\<rparr> \<noteq> []"
proof -
  let ?p = "new_policy [(''ls'', [sample_rule [''ls''] Allow])]"
  have p: "add_prefix_rule empty_policy [''ls''] Allow = Inr ?p"
    by (simp add: add_prefix_rule_def empty_policy_def new_policy_def from_parts_def sample_rule_def)
  have "create_exec_approval_requirement_for_command sample_tools sample_paths sample_rendering ?p
      (sample_request [''ls'', ''-l''] OnRequest) = Some (Skip True None)" by code_simp
  moreover have "[''ls'', ''-l''] \<in> set (lowered_commands (commands_for_exec_policy sample_tools
      (req_command (sample_request [''ls'', ''-l''] OnRequest))))" by code_simp
  ultimately have "matches_for_command_with_options sample_paths ?p [''ls'', ''-l''] None \<lparr>resolve_host_executables = True\<rparr> \<noteq> []"
    by (rule sandbox_is_bypassed_only_by_allow_rules [THEN conjunct1])
  with p show ?thesis by blast
qed



lemma find_map_Some: "find_map f xs = Some y \<Longrightarrow> \<exists>x \<in> set xs. f x = Some y"
  by (induction xs) (auto split: option.splits)

lemma heuristics_match:
  assumes "HeuristicsRuleMatch command d \<in> set (command_matches tools paths p req cmd)"
  shows "command = cmd \<and> matches_for_command_with_options paths p cmd None resolving = []"
proof (cases "matches_for_command_with_options paths p cmd None resolving")
  case Nil
  with assms show ?thesis by (simp add: fallback_matches)
next
  case (Cons m ms)
  with assms have "HeuristicsRuleMatch command d \<in> set (matches_for_command_with_options paths p cmd None resolving)"
    by (simp add: fallback_matches)
  from rule_match_is_policy [OF this] show ?thesis by (simp add: is_policy_match_def)
qed

text \<open>
  (C11) The amendment offered with a question is sound: it is the prefix that was asked for,
  which is not one of the banned ones and with which the policy allows every command of the
  request; or it is one of the commands of the request, one that no rule matches.
\<close>

theorem proposed_amendments_are_sound:
  assumes "create_exec_approval_requirement_for_command tools paths rd p req = Some (NeedsApproval reason (Some am))"
  shows "(req_prefix_rule req = Some am \<and> am \<notin> set BANNED_PREFIX_SUGGESTIONS \<and>
      prefix_rule_would_approve_all_commands paths p am (lowered_commands (commands_for_exec_policy tools (req_command req)))
        (exec_policy_fallback tools req False) \<lparr>resolve_host_executables = True\<rparr>) \<or>
    (am \<in> set (lowered_commands (commands_for_exec_policy tools (req_command req))) \<and>
      matches_for_command_with_options paths p am None \<lparr>resolve_host_executables = True\<rparr> = [])"
proof (rule requirement_evaluation [of paths p tools req])
  fix e
  let ?low = "commands_for_exec_policy tools (req_command req)"
  assume e: "check_multiple_with_options paths p (lowered_commands ?low)
      (exec_policy_fallback tools req (used_complex_parsing ?low)) resolving = Some e"
    "matched_rules e = concat (map (command_matches tools paths p req) (lowered_commands ?low))"
  define requested where "requested = derive_requested_execpolicy_amendment_from_prefix_rule paths (req_prefix_rule req)
      (matched_rules e) p (lowered_commands ?low) (exec_policy_fallback tools req (used_complex_parsing ?low)) resolving"
  from assms have simple: "\<not> used_complex_parsing ?low"
    unfolding create_exec_approval_requirement_for_command_def Let_def e(1)
    by (auto split: decision.splits option.splits if_splits simp: try_derive_execpolicy_amendment_for_prompt_rules_def)
  from assms have am: "(case requested of Some a \<Rightarrow> Some a | None \<Rightarrow> try_derive_execpolicy_amendment_for_prompt_rules (matched_rules e)) = Some am"
    unfolding create_exec_approval_requirement_for_command_def Let_def e(1) requested_def
    using simple by (simp split: decision.splits option.splits)
  show ?thesis
  proof (cases requested)
    case (Some a)
    with am have "requested = Some am" by simp
    then have "req_prefix_rule req = Some am \<and> am \<notin> set BANNED_PREFIX_SUGGESTIONS \<and>
      prefix_rule_would_approve_all_commands paths p am (lowered_commands ?low) (exec_policy_fallback tools req False) resolving"
      using simple unfolding requested_def derive_requested_execpolicy_amendment_from_prefix_rule_def
      by (simp split: option.splits if_splits)
    then show ?thesis ..
  next
    case None
    with am obtain m where "m \<in> set (matched_rules e)" "prompt_command Prompt m = Some am"
      by (auto simp: try_derive_execpolicy_amendment_for_prompt_rules_def split: if_splits dest!: find_map_Some)
    then have "HeuristicsRuleMatch am Prompt \<in> set (matched_rules e)"
      by (auto simp: prompt_command_def split: rule_match.splits if_splits)
    then obtain cmd where "cmd \<in> set (lowered_commands ?low)" "HeuristicsRuleMatch am Prompt \<in> set (command_matches tools paths p req cmd)"
      using e(2) by auto
    with heuristics_match [OF this(2)] show ?thesis by blast
  qed
qed

theorem proposed_amendments_are_sound_witness:
  "matches_for_command_with_options sample_paths sample_policy [''touch'', ''x''] None \<lparr>resolve_host_executables = True\<rparr> = [] \<and>
   create_exec_approval_requirement_for_command sample_tools sample_paths sample_rendering sample_policy
     (sample_request [''touch'', ''x''] UnlessTrusted) = Some (NeedsApproval None (Some [''touch'', ''x'']))"
proof -
  have run: "create_exec_approval_requirement_for_command sample_tools sample_paths sample_rendering sample_policy
     (sample_request [''touch'', ''x''] UnlessTrusted) = Some (NeedsApproval None (Some [''touch'', ''x'']))"
    by code_simp
  have "req_prefix_rule (sample_request [''touch'', ''x''] UnlessTrusted) = None" by (simp add: sample_request_def)
  with proposed_amendments_are_sound [OF run] run show ?thesis by simp
qed


abbreviation sample_store_approval :: "string list \<Rightarrow> (rule_store \<times> exec_policy) \<times> (exec_policy_update_error + unit)" where
  "sample_store_approval am \<equiv>
     append_amendment_and_update sample_json memory_files (\<lambda>_. Some ''/h/rules'') sample_paths ''/h/rules/d'' am
       (sample_rules, empty_policy)"



text \<open>One user rules file, which is empty or, for the second interpreter, cannot be read as Starlark.\<close>

definition sample_listing :: dir_listing where
  "sample_listing = \<lparr>read_dir = (\<lambda>_. Inr [Inr ''/u/rules/my.rules'']), entry_is_file = (\<lambda>_. Inr True)\<rparr>"

definition sample_stack :: config_stack where
  "sample_stack =
     \<lparr>stack_layers = [\<lparr>layer_is_user_or_project = True, layer_rules_dir = Some ''/u/rules''\<rparr>],
      ignore_user_and_project_exec_policy_rules = False,
      requirements_exec_policy = Some (new_policy [(''rm'', [sample_rule [''rm'', ''-rf''] Forbidden])])\<rparr>"

definition good_interpreter :: "(string + string list) interpreter" where
  "good_interpreter = \<lparr>module_calls = (\<lambda>_ _. Inr ([], None)), wrap_error = id\<rparr>"

definition broken_interpreter :: "(string + string list) interpreter" where
  "broken_interpreter = \<lparr>module_calls = (\<lambda>_ _. Inl (StarlarkFailure ''parse error'' None)), wrap_error = id\<rparr>"

abbreviation sample_load :: "(string + string list) interpreter \<Rightarrow> exec_policy_error + (exec_policy \<times> exec_policy_error option)" where
  "sample_load interp \<equiv>
     load_exec_policy_with_warning interp sample_starlark sample_rendering sample_syntax sample_listing (\<lambda>_. Inr []) sample_stack"


text \<open>
  When a rules file cannot be parsed, the program goes on with the empty policy, so the rules
  of the requirements are gone too: the command they forbid is matched by nothing.
\<close>

lemma broken_rules_file_drops_requirements:
  "(case sample_load good_interpreter of
      Inr (p, None) \<Rightarrow> matches_for_command sample_paths p [''rm'', ''-rf'', ''/''] None
    | _ \<Rightarrow> []) = [PrefixRuleMatch [''rm'', ''-rf''] Forbidden None None]"
  "(case sample_load broken_interpreter of
      Inr (p, Some _) \<Rightarrow> map_option eval_decision (check_command sample_paths p [''rm'', ''-rf'', ''/''] (\<lambda>_. Allow))
    | _ \<Rightarrow> None) = Some Allow"
  by code_simp+

end
