(* ===== verification/Output_Buffer.thy ===== *)
theory Output_Buffer
  imports Rust_Prelude
begin

section \<open>The capped buffer of command output\<close>

text \<open>
  \<open>codex-rs/core/src/unified_exec/head_tail_buffer.rs\<close>: output of a command is collected chunk by
  chunk; a first part and a last part are kept and the middle is dropped. The fields of the record
  are those of \<open>HeadTailBuffer\<close>. A \<open>usize\<close> is a number up to \<open>usize_max\<close>; subtraction of natural
  numbers is \<open>saturating_sub\<close>.
\<close>

subsection \<open>Saturating numbers\<close>

definition usize_max :: nat where
  "usize_max = 2 ^ 64 - 1"

definition sat_add :: "nat \<Rightarrow> nat \<Rightarrow> nat" where
  "sat_add a b = min usize_max (a + b)"

definition sat_mul :: "nat \<Rightarrow> nat \<Rightarrow> nat" where
  "sat_mul a b = min usize_max (a * b)"

lemma sat_add_small [simp]: "a + b \<le> usize_max \<Longrightarrow> sat_add a b = a + b"
  by (simp add: sat_add_def)

lemma sat_add_min: "sat_add (min usize_max a) b = min usize_max (a + b)"
  by (simp add: sat_add_def)

lemma sat_mul_small [simp]: "a * b \<le> usize_max \<Longrightarrow> sat_mul a b = a * b"
  by (simp add: sat_mul_def)

text \<open>The last \<open>n\<close> elements, or all of them.\<close>

definition last_part :: "nat \<Rightarrow> 'a list \<Rightarrow> 'a list" where
  "last_part n xs = drop (length xs - n) xs"

lemma length_last_part [simp]: "length (last_part n xs) = min n (length xs)"
  by (simp add: last_part_def)

lemma last_part_all: "length xs \<le> n \<Longrightarrow> last_part n xs = xs"
  by (simp add: last_part_def)

lemma last_part_Nil [simp]: "last_part n [] = []"
  by (simp add: last_part_def)

lemma last_part_0 [simp]: "last_part 0 xs = []"
  by (simp add: last_part_def)

lemma last_part_append: "last_part n (last_part n xs @ ys) = last_part n (xs @ ys)"
  by (cases "n \<le> length xs") (simp_all add: last_part_def, metis add_diff_assoc2 diff_add_inverse2 diff_diff_left diff_is_0_eq drop_drop le_add_diff_inverse2 nat_le_linear)

lemma last_part_long: "n \<le> length ys \<Longrightarrow> last_part n (xs @ ys) = last_part n ys"
  by (simp add: last_part_def)

subsection \<open>The buffer\<close>

record head_tail_buffer =
  max_bytes :: nat
  head_budget :: nat
  tail_budget :: nat
  head_chunks :: "string list"
  tail_chunks :: "string list"
  head_bytes :: nat
  tail_bytes :: nat
  omitted_bytes :: nat

definition new_buffer :: "nat \<Rightarrow> head_tail_buffer" where
  "new_buffer mb =
     (let hb = mb div 2; tb = mb - hb
      in \<lparr>max_bytes = mb, head_budget = hb, tail_budget = tb, head_chunks = [], tail_chunks = [],
          head_bytes = 0, tail_bytes = 0, omitted_bytes = 0\<rparr>)"

definition retained_bytes :: "head_tail_buffer \<Rightarrow> nat" where
  "retained_bytes b = sat_add (head_bytes b) (tail_bytes b)"

text \<open>The loop of \<open>trim_tail_to_budget\<close> takes chunks off the front of the tail.\<close>

function trim_tail_loop :: "nat \<Rightarrow> head_tail_buffer \<Rightarrow> head_tail_buffer" where
  "trim_tail_loop excess b =
     (if excess = 0 then b
      else (case tail_chunks b of
              [] \<Rightarrow> b
            | front # rest \<Rightarrow>
                if length front \<le> excess
                then trim_tail_loop (excess - length front)
                       (b\<lparr>tail_chunks := rest, tail_bytes := tail_bytes b - length front,
                          omitted_bytes := sat_add (omitted_bytes b) (length front)\<rparr>)
                else b\<lparr>tail_chunks := drop excess front # rest, tail_bytes := tail_bytes b - excess,
                       omitted_bytes := sat_add (omitted_bytes b) excess\<rparr>))"
  by pat_completeness auto
termination
  by (relation "measure (\<lambda>(_, b). length (tail_chunks b))") auto

declare trim_tail_loop.simps [simp del]

definition trim_tail_to_budget :: "head_tail_buffer \<Rightarrow> head_tail_buffer" where
  "trim_tail_to_budget b = trim_tail_loop (tail_bytes b - tail_budget b) b"

definition push_to_tail :: "head_tail_buffer \<Rightarrow> string \<Rightarrow> head_tail_buffer" where
  "push_to_tail b chunk =
     (if tail_budget b = 0 then b\<lparr>omitted_bytes := sat_add (omitted_bytes b) (length chunk)\<rparr>
      else if tail_budget b \<le> length chunk then
        (let kept = drop (length chunk - tail_budget b) chunk;
             dropped = length chunk - length kept
         in b\<lparr>omitted_bytes := sat_add (sat_add (omitted_bytes b) (tail_bytes b)) dropped,
              tail_chunks := [kept], tail_bytes := length kept\<rparr>)
      else trim_tail_to_budget
             (b\<lparr>tail_bytes := sat_add (tail_bytes b) (length chunk), tail_chunks := tail_chunks b @ [chunk]\<rparr>))"

definition push_chunk :: "head_tail_buffer \<Rightarrow> string \<Rightarrow> head_tail_buffer" where
  "push_chunk b chunk =
     (if max_bytes b = 0 then b\<lparr>omitted_bytes := sat_add (omitted_bytes b) (length chunk)\<rparr>
      else if head_bytes b < head_budget b then
        (let remaining_head = head_budget b - head_bytes b in
         if length chunk \<le> remaining_head
         then b\<lparr>head_bytes := sat_add (head_bytes b) (length chunk), head_chunks := head_chunks b @ [chunk]\<rparr>
         else (let head_part = take remaining_head chunk;
                   tail_part = drop remaining_head chunk;
                   b1 = (if head_part = [] then b
                         else b\<lparr>head_bytes := sat_add (head_bytes b) (length head_part),
                                head_chunks := head_chunks b @ [head_part]\<rparr>)
               in push_to_tail b1 tail_part))
      else push_to_tail b chunk)"

definition snapshot_chunks :: "head_tail_buffer \<Rightarrow> string list" where
  "snapshot_chunks b = head_chunks b @ tail_chunks b"

definition to_bytes :: "head_tail_buffer \<Rightarrow> string" where
  "to_bytes b = concat (head_chunks b) @ concat (tail_chunks b)"

definition drain_chunks :: "head_tail_buffer \<Rightarrow> head_tail_buffer \<times> string list" where
  "drain_chunks b =
     (b\<lparr>head_chunks := [], tail_chunks := [], head_bytes := 0, tail_bytes := 0, omitted_bytes := 0\<rparr>,
      head_chunks b @ tail_chunks b)"

subsection \<open>What the buffer holds\<close>

text \<open>
  The specification keeps the whole output \<open>s\<close> since the start or the last drain: the buffer holds
  its first \<open>head_budget\<close> bytes and the last \<open>tail_budget\<close> bytes of the rest.
\<close>

definition kept_tail :: "head_tail_buffer \<Rightarrow> string \<Rightarrow> string" where
  "kept_tail b s = last_part (tail_budget b) (drop (head_budget b) s)"

definition holds :: "nat \<Rightarrow> head_tail_buffer \<Rightarrow> string \<Rightarrow> bool" where
  "holds mb b s \<longleftrightarrow>
     max_bytes b = mb \<and> head_budget b = mb div 2 \<and> tail_budget b = mb - mb div 2 \<and>
     concat (head_chunks b) = take (head_budget b) s \<and> head_bytes b = length (concat (head_chunks b)) \<and>
     concat (tail_chunks b) = kept_tail b s \<and> tail_bytes b = length (concat (tail_chunks b)) \<and>
     omitted_bytes b = min usize_max (length s - (head_bytes b + tail_bytes b))"

lemma holds_new: "holds mb (new_buffer mb) []"
  by (simp add: holds_def new_buffer_def kept_tail_def Let_def)

lemma holds_drained: "holds mb b s \<Longrightarrow> holds mb (fst (drain_chunks b)) []"
  by (simp add: holds_def drain_chunks_def kept_tail_def)

lemma trim_tail_loop_keeps [simp]:
  "max_bytes (trim_tail_loop excess b) = max_bytes b"
  "head_budget (trim_tail_loop excess b) = head_budget b"
  "tail_budget (trim_tail_loop excess b) = tail_budget b"
  "head_chunks (trim_tail_loop excess b) = head_chunks b"
  "head_bytes (trim_tail_loop excess b) = head_bytes b"
  by (induction excess b rule: trim_tail_loop.induct, subst trim_tail_loop.simps, simp split: list.split)+

lemma trim_tail_loop_spec:
  assumes "tail_bytes b = length (concat (tail_chunks b))" "excess \<le> tail_bytes b"
    "omitted_bytes b = min usize_max n"
  shows "concat (tail_chunks (trim_tail_loop excess b)) = drop excess (concat (tail_chunks b)) \<and>
    tail_bytes (trim_tail_loop excess b) = tail_bytes b - excess \<and>
    omitted_bytes (trim_tail_loop excess b) = min usize_max (n + excess)"
  using assms
proof (induction excess b arbitrary: n rule: trim_tail_loop.induct)
  case (1 excess b)
  show ?case
  proof (cases "excess = 0")
    case True
    with "1.prems" show ?thesis by (simp add: trim_tail_loop.simps [of 0])
  next
    case pos: False
    with "1.prems" obtain front rest where chunks: "tail_chunks b = front # rest"
      by (cases "tail_chunks b") auto
    show ?thesis
    proof (cases "length front \<le> excess")
      case True
      let ?b = "b\<lparr>tail_chunks := rest, tail_bytes := tail_bytes b - length front,
                  omitted_bytes := sat_add (omitted_bytes b) (length front)\<rparr>"
      have step: "trim_tail_loop excess b = trim_tail_loop (excess - length front) ?b"
        using pos chunks True by (subst trim_tail_loop.simps) simp
      have "tail_bytes ?b = length (concat (tail_chunks ?b))" "excess - length front \<le> tail_bytes ?b"
        "omitted_bytes ?b = min usize_max (n + length front)"
        using "1.prems" chunks True by (auto simp: sat_add_min)
      from "1.IH" [OF pos chunks True this] show ?thesis
        unfolding step using chunks True "1.prems" by simp
    next
      case False
      with "1.prems" pos chunks show ?thesis
        by (simp add: trim_tail_loop.simps [of excess b] sat_add_min)
    qed
  qed
qed

lemma min_split: "(k::nat) \<le> m \<Longrightarrow> min k n + min (m - k) (n - k) = min m n"
  by (simp add: min_def, arith)

lemma holds_budgets:
  "holds mb b s \<Longrightarrow> max_bytes b = mb \<and> head_budget b = mb div 2 \<and> tail_budget b = mb - mb div 2"
  by (simp add: holds_def)

lemma holds_parts:
  assumes "holds mb b s"
  shows "concat (head_chunks b) = take (head_budget b) s" "concat (tail_chunks b) = kept_tail b s"
    "head_bytes b = min (head_budget b) (length s)"
    "tail_bytes b = min (tail_budget b) (length s - head_budget b)"
    "omitted_bytes b = min usize_max (length s - (head_bytes b + tail_bytes b))"
  using assms by (simp_all add: holds_def kept_tail_def min.commute)

lemma holdsI:
  assumes "holds mb b s"
    and "max_bytes b' = max_bytes b" "head_budget b' = head_budget b" "tail_budget b' = tail_budget b"
    and "concat (head_chunks b') = take (head_budget b) s'" "concat (tail_chunks b') = kept_tail b s'"
    and "head_bytes b' = min (head_budget b) (length s')" "tail_bytes b' = min (tail_budget b) (length s' - head_budget b)"
    and "omitted_bytes b' = min usize_max (length s' - (head_bytes b' + tail_bytes b'))"
  shows "holds mb b' s'"
proof -
  have "kept_tail b' s' = kept_tail b s'" using assms(3,4) by (simp add: kept_tail_def)
  moreover have "length (kept_tail b s') = min (tail_budget b) (length s' - head_budget b)" by (simp add: kept_tail_def)
  moreover have "length (take (head_budget b) s') = min (head_budget b) (length s')" by (simp add: min.commute)
  ultimately show ?thesis
    unfolding holds_def using holds_budgets [OF assms(1)] assms(2-) by (simp only: simp_thms)
qed

lemma push_zero:
  "holds 0 b s \<Longrightarrow> holds 0 (b\<lparr>omitted_bytes := sat_add (omitted_bytes b) (length chunk)\<rparr>) (s @ chunk)"
  by (simp add: holds_def kept_tail_def sat_add_min)

text \<open>Pushing to the tail when the head is full: the tail budget slides over the output.\<close>

lemma push_to_tail_holds:
  assumes b: "holds mb b s" and mb: "mb \<le> usize_max" and full: "head_budget b \<le> length s"
  shows "holds mb (push_to_tail b chunk) (s @ chunk)"
proof -
  let ?tb = "tail_budget b" and ?t = "drop (head_budget b) s"
  note p = holds_parts [OF b]
  have budgets: "?tb + head_budget b = mb" and tb2: "?tb \<le> mb div 2 + 1" using holds_budgets [OF b] by auto
  have head: "take (head_budget b) (s @ chunk) = take (head_budget b) s" using full by simp
  have kept: "kept_tail b (s @ chunk) = last_part ?tb (?t @ chunk)" using full by (simp add: kept_tail_def)
  have len: "head_bytes b = head_budget b" using p(3) full by (simp add: min_def)
  consider (none) "?tb = 0" | (long) "0 < ?tb" "?tb \<le> length chunk" | (short) "length chunk < ?tb" by linarith
  then show ?thesis
  proof cases
    case none
    then have "mb = 0" using holds_budgets [OF b] by presburger
    with push_zero [of b s chunk] b none show ?thesis by (simp add: push_to_tail_def)
  next
    case long
    let ?kept = "drop (length chunk - ?tb) chunk"
    have step: "push_to_tail b chunk =
        b\<lparr>omitted_bytes := sat_add (sat_add (omitted_bytes b) (tail_bytes b)) (length chunk - ?tb),
          tail_chunks := [?kept], tail_bytes := ?tb\<rparr>"
      using long by (simp add: push_to_tail_def Let_def)
    have omitted: "sat_add (sat_add (omitted_bytes b) (tail_bytes b)) (length chunk - ?tb) =
        min usize_max (length s - (head_bytes b + tail_bytes b) + tail_bytes b + (length chunk - ?tb))"
      unfolding p(5) by (simp only: sat_add_min)
    have sum: "length s - (head_bytes b + tail_bytes b) + tail_bytes b + (length chunk - ?tb) =
        length (s @ chunk) - (head_bytes b + ?tb)"
      using long len p(4) full by simp
    have "last_part ?tb (?t @ chunk) = ?kept" using long by (simp add: last_part_long last_part_def)
    moreover have "?tb \<le> length (s @ chunk) - head_budget b" using long full by simp
    ultimately show ?thesis
      unfolding step using kept head p(1,3) full
      by (intro holdsI [OF b]) (simp_all add: omitted sum [simplified len length_append] len)
  next
    case short
    let ?b = "b\<lparr>tail_bytes := sat_add (tail_bytes b) (length chunk), tail_chunks := tail_chunks b @ [chunk]\<rparr>"
    let ?x = "tail_bytes b + length chunk - ?tb"
    have small: "tail_bytes b + length chunk \<le> usize_max" using short p(4) tb2 budgets mb holds_budgets [OF b] by linarith
    have step: "push_to_tail b chunk = trim_tail_loop ?x ?b"
      using short small by (simp add: push_to_tail_def trim_tail_to_budget_def)
    have tail: "tail_bytes b = length (concat (tail_chunks b))" using b by (simp add: holds_def)
    have "tail_bytes ?b = length (concat (tail_chunks ?b))" "?x \<le> tail_bytes ?b"
      "omitted_bytes ?b = min usize_max (length s - (head_bytes b + tail_bytes b))"
      using tail p(5) small by auto
    from trim_tail_loop_spec [OF this]
    have out: "concat (tail_chunks (push_to_tail b chunk)) = drop ?x (concat (tail_chunks b) @ chunk)"
      "tail_bytes (push_to_tail b chunk) = tail_bytes b + length chunk - ?x"
      "omitted_bytes (push_to_tail b chunk) = min usize_max (length s - (head_bytes b + tail_bytes b) + ?x)"
      using small by (simp_all add: step)
    have "concat (tail_chunks (push_to_tail b chunk)) = last_part ?tb (last_part ?tb ?t @ chunk)"
      using out(1) p(2) tail by (simp add: last_part_def kept_tail_def)
    then have chunks: "concat (tail_chunks (push_to_tail b chunk)) = kept_tail b (s @ chunk)"
      by (simp only: last_part_append kept)
    have bytes: "tail_bytes b + length chunk - ?x = min ?tb (length (s @ chunk) - head_budget b)"
      using p(4) full short by (cases "?tb \<le> length s - head_budget b") (simp_all add: min_def, linarith?)
    have omitted: "length s - (head_bytes b + tail_bytes b) + ?x =
        length (s @ chunk) - (head_bytes b + (tail_bytes b + length chunk - ?x))"
      using len full short p(4) by auto
    have same: "max_bytes (push_to_tail b chunk) = max_bytes b" "head_budget (push_to_tail b chunk) = head_budget b"
      "tail_budget (push_to_tail b chunk) = ?tb" "head_chunks (push_to_tail b chunk) = head_chunks b"
      "head_bytes (push_to_tail b chunk) = head_bytes b"
      by (simp_all add: step)
    show ?thesis
    proof (rule holdsI [OF b same(1-3) _ chunks])
      show "concat (head_chunks (push_to_tail b chunk)) = take (head_budget b) (s @ chunk)"
        by (simp only: same p(1) head)
      show "head_bytes (push_to_tail b chunk) = min (head_budget b) (length (s @ chunk))"
        using full by (simp add: same len)
      show "tail_bytes (push_to_tail b chunk) = min ?tb (length (s @ chunk) - head_budget b)"
        by (simp only: out(2) bytes)
      show "omitted_bytes (push_to_tail b chunk) =
          min usize_max (length (s @ chunk) - (head_bytes (push_to_tail b chunk) + tail_bytes (push_to_tail b chunk)))"
        by (simp only: out(2,3) same omitted)
    qed
  qed
qed

lemma push_chunk_holds:
  assumes b: "holds mb b s" and mb: "mb \<le> usize_max"
  shows "holds mb (push_chunk b chunk) (s @ chunk)"
proof -
  note p = holds_parts [OF b] and h = holds_budgets [OF b]
  consider (zero) "mb = 0" | (full) "0 < mb" "head_budget b \<le> length s"
    | (fits) "0 < mb" "length s + length chunk \<le> head_budget b" "length s < head_budget b"
    | (cut) "0 < mb" "length s < head_budget b" "head_budget b < length s + length chunk"
    by linarith
  then show ?thesis
  proof cases
    case zero
    with h push_zero [of b s chunk] b show ?thesis by (simp add: push_chunk_def)
  next
    case full
    then have "push_chunk b chunk = push_to_tail b chunk" using h p(3) by (simp add: push_chunk_def)
    with push_to_tail_holds [OF b mb full(2)] show ?thesis by simp
  next
    case fits
    then have len: "head_bytes b = length s" "tail_bytes b = 0" using p(3,4) by auto
    moreover have "length s + length chunk \<le> usize_max" using fits h mb by simp
    ultimately have step: "push_chunk b chunk =
        b\<lparr>head_bytes := length s + length chunk, head_chunks := head_chunks b @ [chunk]\<rparr>"
      using fits h by (simp add: push_chunk_def Let_def le_diff_conv2 add.commute)
    show ?thesis
      unfolding step using fits p(1,2,5) len
      by (intro holdsI [OF b]) (simp_all add: kept_tail_def)
  next
    case cut
    let ?k = "head_budget b - length s"
    let ?b = "b\<lparr>head_bytes := head_budget b, head_chunks := head_chunks b @ [take ?k chunk]\<rparr>"
    from cut have len: "head_bytes b = length s" "tail_bytes b = 0" using p(3,4) by auto
    have "head_budget b \<le> usize_max" using h mb by simp
    then have step: "push_chunk b chunk = push_to_tail ?b (drop ?k chunk)"
      using cut h len by (auto simp: push_chunk_def Let_def min_def)
    have "holds mb ?b (s @ take ?k chunk)"
      using cut p(1,2,5) len by (intro holdsI [OF b]) (simp_all add: kept_tail_def)
    from push_to_tail_holds [OF this mb, of "drop ?k chunk"] cut show ?thesis
      unfolding step by simp
  qed
qed

text \<open>
  The buffers that occur: a new one, and what pushing and draining make of one. The last argument
  is the output since the start or the last drain.
\<close>

inductive collects :: "nat \<Rightarrow> head_tail_buffer \<Rightarrow> string \<Rightarrow> bool" for mb where
  start: "collects mb (new_buffer mb) []"
| push: "collects mb b s \<Longrightarrow> collects mb (push_chunk b chunk) (s @ chunk)"
| drain: "collects mb b s \<Longrightarrow> drain_chunks b = (b', chunks) \<Longrightarrow> collects mb b' []"

lemma collects_holds: "collects mb b s \<Longrightarrow> mb \<le> usize_max \<Longrightarrow> holds mb b s"
proof (induction rule: collects.induct)
  case (drain b s b' chunks)
  with holds_drained [of mb b s] show ?case by simp
qed (auto intro: holds_new push_chunk_holds)

subsection \<open>Properties\<close>

text \<open>
  (C20) Whatever chunks the output of a command comes in, with drains in between, the buffer is
  exactly its first half budget and the last half budget of the rest: it never holds more than its
  maximum, the bytes it reports as omitted are the missing ones (up to the largest number), and
  the snapshot and a drain give the same bytes.
\<close>

theorem buffer_keeps_both_ends:
  assumes "collects mb b s" and "mb \<le> usize_max"
  shows "to_bytes b = take (mb div 2) s @ last_part (mb - mb div 2) (drop (mb div 2) s) \<and>
    length (to_bytes b) = min mb (length s) \<and>
    retained_bytes b = length (to_bytes b) \<and>
    omitted_bytes b = min usize_max (length s - length (to_bytes b)) \<and>
    concat (snapshot_chunks b) = to_bytes b \<and>
    concat (snd (drain_chunks b)) = to_bytes b \<and> to_bytes (fst (drain_chunks b)) = []"
proof -
  from collects_holds [OF assms] have h: "holds mb b s" .
  have bytes: "to_bytes b = take (mb div 2) s @ last_part (mb - mb div 2) (drop (mb div 2) s)"
    using h by (simp add: to_bytes_def holds_def kept_tail_def)
  have len: "length (to_bytes b) = min mb (length s)" 
    using min_split [of "mb div 2" mb "length s"] by (simp add: bytes min.commute)
  have "head_bytes b + tail_bytes b = length (to_bytes b)" using h by (simp add: to_bytes_def holds_def)
  with h len assms(2) have "retained_bytes b = length (to_bytes b)"
    "omitted_bytes b = min usize_max (length s - length (to_bytes b))"
    by (simp_all add: retained_bytes_def holds_def)
  moreover have "concat (snapshot_chunks b) = to_bytes b" "concat (snd (drain_chunks b)) = to_bytes b"
    "to_bytes (fst (drain_chunks b)) = []"
    by (simp_all add: to_bytes_def snapshot_chunks_def drain_chunks_def)
  ultimately show ?thesis using bytes len by blast
qed

theorem buffer_keeps_both_ends_witness:
  "to_bytes (push_chunk (push_chunk (push_chunk (new_buffer 7) ''ab'') ''cdefg'') ''hij'') = ''abcghij'' \<and>
   omitted_bytes (push_chunk (push_chunk (push_chunk (new_buffer 7) ''ab'') ''cdefg'') ''hij'') = 3"
proof -
  have "collects 7 (push_chunk (push_chunk (push_chunk (new_buffer 7) ''ab'') ''cdefg'') ''hij'') ((([] @ ''ab'') @ ''cdefg'') @ ''hij'')"
    by (intro collects.intros)
  moreover have "(7::nat) \<le> usize_max" by (simp add: usize_max_def)
  ultimately show ?thesis
    using buffer_keeps_both_ends by (force simp: last_part_def usize_max_def)
qed

end
