(* ===== verification/Text_Cut.thy ===== *)
theory Text_Cut
  imports Output_Buffer
begin

section \<open>Cutting text to a budget\<close>

text \<open>
  \<open>codex-rs/utils/string/src/truncate.rs\<close> cuts the middle out of a text at character boundaries,
  \<open>utils/output-truncation/src/lib.rs\<close> applies it to the output of tools under a
  \<open>TruncationPolicy\<close> (\<open>protocol/src/protocol.rs\<close>) in bytes or in approximate tokens.
\<close>

subsection \<open>Tokens and budgets\<close>

definition APPROX_BYTES_PER_TOKEN :: nat where
  "APPROX_BYTES_PER_TOKEN = 4"

definition approx_token_count :: "string \<Rightarrow> nat" where
  "approx_token_count s = sat_add (length s) (APPROX_BYTES_PER_TOKEN - 1) div APPROX_BYTES_PER_TOKEN"

definition approx_bytes_for_tokens :: "nat \<Rightarrow> nat" where
  "approx_bytes_for_tokens tokens = sat_mul tokens APPROX_BYTES_PER_TOKEN"

definition approx_tokens_from_byte_count :: "nat \<Rightarrow> nat" where
  "approx_tokens_from_byte_count bytes = sat_add bytes (APPROX_BYTES_PER_TOKEN - 1) div APPROX_BYTES_PER_TOKEN"

definition split_budget :: "nat \<Rightarrow> nat \<times> nat" where
  "split_budget budget = (let left = budget div 2 in (left, budget - left))"

text \<open>An ellipsis is the three bytes of U+2026.\<close>

definition ellipsis :: string where
  "ellipsis = [CHR 0xE2, CHR 0x80, CHR 0xA6]"

definition format_truncation_marker :: "bool \<Rightarrow> nat \<Rightarrow> string" where
  "format_truncation_marker use_tokens removed_count =
     ellipsis @ nat_str removed_count @ (if use_tokens then '' tokens truncated'' else '' chars truncated'') @ ellipsis"

definition removed_units :: "bool \<Rightarrow> nat \<Rightarrow> nat \<Rightarrow> nat" where
  "removed_units use_tokens removed_bytes removed_chars =
     (if use_tokens then approx_tokens_from_byte_count removed_bytes else removed_chars)"

subsection \<open>Splitting\<close>

text \<open>
  The loop over \<open>char_indices\<close>: \<open>idx\<close> is where the character starts, the other arguments are the
  local variables \<open>prefix_end\<close>, \<open>suffix_start\<close>, \<open>removed_chars\<close> and \<open>suffix_started\<close>.
\<close>

fun split_loop :: "nat \<Rightarrow> nat \<Rightarrow> nat \<Rightarrow> string list \<Rightarrow> nat \<Rightarrow> nat \<Rightarrow> nat \<Rightarrow> bool \<Rightarrow> nat \<times> nat \<times> nat" where
  "split_loop beginning_bytes tail_start_target idx [] prefix_end suffix_start removed_chars suffix_started =
     (prefix_end, suffix_start, removed_chars)"
| "split_loop beginning_bytes tail_start_target idx (ch # rest) prefix_end suffix_start removed_chars suffix_started =
     (let char_end = idx + length ch in
      if char_end \<le> beginning_bytes
      then split_loop beginning_bytes tail_start_target char_end rest char_end suffix_start removed_chars suffix_started
      else if tail_start_target \<le> idx
      then split_loop beginning_bytes tail_start_target char_end rest prefix_end
             (if \<not> suffix_started then idx else suffix_start) removed_chars True
      else split_loop beginning_bytes tail_start_target char_end rest prefix_end suffix_start
             (sat_add removed_chars 1) suffix_started)"

definition split_string :: "string \<Rightarrow> nat \<Rightarrow> nat \<Rightarrow> nat \<times> string \<times> string" where
  "split_string s beginning_bytes end_bytes =
     (if s = [] then (0, [], [])
      else (let len = length s; tail_start_target = len - end_bytes in
            case split_loop beginning_bytes tail_start_target 0 (chars s) 0 len 0 False of
              (prefix_end, suffix_start, removed_chars) \<Rightarrow>
                (let suffix_start = (if suffix_start < prefix_end then prefix_end else suffix_start)
                 in (removed_chars, take prefix_end s, drop suffix_start s))))"

definition assemble_truncated_output :: "string \<Rightarrow> string \<Rightarrow> string \<Rightarrow> string" where
  "assemble_truncated_output prefix suffix marker = prefix @ marker @ suffix"

definition truncate_with_byte_estimate :: "string \<Rightarrow> nat \<Rightarrow> bool \<Rightarrow> string" where
  "truncate_with_byte_estimate s mb use_tokens =
     (if s = [] then []
      else (let total_chars = length (chars s) in
        if mb = 0 then format_truncation_marker use_tokens (removed_units use_tokens (length s) total_chars)
        else if length s \<le> mb then s
        else (let total_bytes = length s in
              case split_budget mb of (left_budget, right_budget) \<Rightarrow>
              (case split_string s left_budget right_budget of (removed_chars, left, right) \<Rightarrow>
                 (let marker = format_truncation_marker use_tokens
                                 (removed_units use_tokens (total_bytes - mb) removed_chars)
                  in assemble_truncated_output left right marker)))))"

definition truncate_middle_chars :: "string \<Rightarrow> nat \<Rightarrow> string" where
  "truncate_middle_chars s mb = truncate_with_byte_estimate s mb False"

definition truncate_middle_with_token_budget :: "string \<Rightarrow> nat \<Rightarrow> string \<times> nat option" where
  "truncate_middle_with_token_budget s max_tokens =
     (if s = [] then ([], None)
      else if 0 < max_tokens \<and> length s \<le> approx_bytes_for_tokens max_tokens then (s, None)
      else (let truncated = truncate_with_byte_estimate s (approx_bytes_for_tokens max_tokens) True;
                total_tokens = approx_token_count s
            in if truncated = s then (truncated, None) else (truncated, Some total_tokens)))"

subsection \<open>Policies and items\<close>

datatype truncation_policy = Bytes nat | Tokens nat

fun token_budget :: "truncation_policy \<Rightarrow> nat" where
  "token_budget (Bytes bytes) = approx_tokens_from_byte_count bytes"
| "token_budget (Tokens tokens) = tokens"

fun byte_budget :: "truncation_policy \<Rightarrow> nat" where
  "byte_budget (Bytes bytes) = bytes"
| "byte_budget (Tokens tokens) = approx_bytes_for_tokens tokens"

fun truncate_text :: "string \<Rightarrow> truncation_policy \<Rightarrow> string" where
  "truncate_text content (Bytes bytes) = truncate_middle_chars content bytes"
| "truncate_text content (Tokens tokens) = fst (truncate_middle_with_token_budget content tokens)"

definition formatted_truncate_text :: "string \<Rightarrow> truncation_policy \<Rightarrow> string" where
  "formatted_truncate_text content policy =
     (if length content \<le> byte_budget policy then content
      else (let total_lines = length (lines content); result = truncate_text content policy
            in ''Total output lines: '' @ nat_str total_lines @ [CHR 0x0A, CHR 0x0A] @ result))"

text \<open>The content items of a tool's answer; the detail of an image is a parameter.\<close>

datatype 'd content_item =
  InputText string | InputImage string 'd | EncryptedContent string

fun is_text :: "'d content_item \<Rightarrow> bool" where
  "is_text (InputText _) = True"
| "is_text _ = False"

fun text_segments :: "'d content_item list \<Rightarrow> string list" where
  "text_segments [] = []"
| "text_segments (InputText t # items) = t # text_segments items"
| "text_segments (_ # items) = text_segments items"

fun combine_segments :: "string \<Rightarrow> string list \<Rightarrow> string" where
  "combine_segments combined [] = combined"
| "combine_segments combined (t # ts) =
     combine_segments ((if combined \<noteq> [] then combined @ [CHR 0x0A] else combined) @ t) ts"

definition formatted_truncate_text_content_items_with_policy ::
    "'d content_item list \<Rightarrow> truncation_policy \<Rightarrow> 'd content_item list \<times> nat option" where
  "formatted_truncate_text_content_items_with_policy items policy =
     (let segments = text_segments items in
      if segments = [] then (items, None)
      else (let combined = combine_segments [] segments in
        if length combined \<le> byte_budget policy then (items, None)
        else (InputText (formatted_truncate_text combined policy) # filter (\<lambda>i. \<not> is_text i) items,
              Some (approx_token_count combined))))"

fun item_cost :: "truncation_policy \<Rightarrow> string \<Rightarrow> nat" where
  "item_cost (Bytes _) t = length t"
| "item_cost (Tokens _) t = approx_token_count t"

fun snippet_policy :: "truncation_policy \<Rightarrow> nat \<Rightarrow> truncation_policy" where
  "snippet_policy (Bytes _) remaining_budget = Bytes remaining_budget"
| "snippet_policy (Tokens _) remaining_budget = Tokens remaining_budget"

text \<open>The loop over the items: what goes out, and how many text items were left out.\<close>

fun truncate_items_loop ::
    "truncation_policy \<Rightarrow> 'd content_item list \<Rightarrow> nat \<Rightarrow> nat \<Rightarrow> 'd content_item list \<times> nat" where
  "truncate_items_loop policy [] remaining_budget omitted_text_items = ([], omitted_text_items)"
| "truncate_items_loop policy (InputText t # items) remaining_budget omitted_text_items =
     (if remaining_budget = 0 then truncate_items_loop policy items remaining_budget (omitted_text_items + 1)
      else (let cost = item_cost policy t in
        if cost \<le> remaining_budget
        then map_prod (\<lambda>out. InputText t # out) id
               (truncate_items_loop policy items (remaining_budget - cost) omitted_text_items)
        else (let snippet = truncate_text t (snippet_policy policy remaining_budget) in
          if snippet = [] then truncate_items_loop policy items 0 (omitted_text_items + 1)
          else map_prod (\<lambda>out. InputText snippet # out) id (truncate_items_loop policy items 0 omitted_text_items))))"
| "truncate_items_loop policy (item # items) remaining_budget omitted_text_items =
     map_prod (\<lambda>out. item # out) id (truncate_items_loop policy items remaining_budget omitted_text_items)"

definition truncate_function_output_items_with_policy ::
    "'d content_item list \<Rightarrow> truncation_policy \<Rightarrow> 'd content_item list" where
  "truncate_function_output_items_with_policy items policy =
     (let remaining_budget = (case policy of Bytes _ \<Rightarrow> byte_budget policy | Tokens _ \<Rightarrow> token_budget policy)
      in case truncate_items_loop policy items remaining_budget 0 of
           (out, omitted_text_items) \<Rightarrow>
             if 0 < omitted_text_items
             then out @ [InputText (''[omitted '' @ nat_str omitted_text_items @ '' text items ...]'')]
             else out)"

subsection \<open>Where a text is cut\<close>

text \<open>The characters that go to the front, and those of the rest that fall out.\<close>

fun prefix_chars :: "nat \<Rightarrow> string list \<Rightarrow> string list" where
  "prefix_chars budget [] = []"
| "prefix_chars budget (ch # rest) = (if length ch \<le> budget then ch # prefix_chars (budget - length ch) rest else [])"

fun middle_chars :: "nat \<Rightarrow> string list \<Rightarrow> string list" where
  "middle_chars target [] = []"
| "middle_chars target (ch # rest) = (if target = 0 then [] else ch # middle_chars (target - length ch) rest)"

lemma split_loop_suffix:
  "T \<le> idx \<Longrightarrow> B < idx \<Longrightarrow> split_loop B T idx cs pe ss r True = (pe, ss, r)"
  by (induction cs arbitrary: idx) (auto simp: Let_def)

lemma split_loop_middle:
  assumes "cs \<noteq> [] \<Longrightarrow> B < idx + length (hd cs)" and "\<forall>c \<in> set cs. c \<noteq> []" and "r \<le> usize_max"
    and "len = idx + length (concat cs)"
  shows "split_loop B T idx cs pe len r False =
    (pe, idx + length (concat (middle_chars (T - idx) cs)), min usize_max (r + length (middle_chars (T - idx) cs)))"
  using assms
proof (induction cs arbitrary: idx r)
  case (Cons ch rest)
  then have big: "B < idx + length ch" by simp
  show ?case
  proof (cases "T \<le> idx")
    case True
    moreover have "T \<le> idx + length ch" "B < idx + length ch" using True big by auto
    ultimately show ?thesis
      using split_loop_suffix [of T "idx + length ch" B rest pe idx r] big Cons.prems(3) by simp
  next
    case False
    have "rest \<noteq> [] \<Longrightarrow> B < idx + length ch + length (hd rest)" using big by simp
    moreover have "len = idx + length ch + length (concat rest)" using Cons.prems by simp
    ultimately have "split_loop B T (idx + length ch) rest pe len (sat_add r 1) False =
      (pe, idx + length ch + length (concat (middle_chars (T - (idx + length ch)) rest)),
       min usize_max (sat_add r 1 + length (middle_chars (T - (idx + length ch)) rest)))"
      using Cons.prems by (intro Cons.IH) (auto simp: sat_add_def)
    with False big show ?thesis by (simp add: Let_def sat_add_def min_def diff_diff_left)
  qed
qed simp

lemma split_loop_prefix:
  assumes "\<forall>c \<in> set cs. c \<noteq> []" and "len = idx + length (concat cs)" and "idx \<le> B"
  shows "split_loop B T idx cs idx len 0 False =
    (let pre = prefix_chars (B - idx) cs; start = idx + length (concat pre);
         mid = middle_chars (T - start) (drop (length pre) cs)
     in (start, start + length (concat mid), min usize_max (length mid)))"
  using assms
proof (induction cs arbitrary: idx)
  case (Cons ch rest)
  show ?case
  proof (cases "idx + length ch \<le> B")
    case True
    then have "length ch \<le> B - idx" "B - idx - length ch = B - (idx + length ch)" by auto
    with True Cons.prems Cons.IH [of "idx + length ch"] show ?thesis by (simp add: Let_def add.assoc)
  next
    case False
    then have "\<not> length ch \<le> B - idx" using Cons.prems(3) by simp
    with False Cons.prems split_loop_middle [of "ch # rest" B idx 0 len T idx] show ?thesis
      by (simp add: Let_def del: split_loop.simps middle_chars.simps)
  qed
qed simp

lemma prefix_chars_fit: "length (concat (prefix_chars budget cs)) \<le> budget"
  by (induction budget cs rule: prefix_chars.induct) auto

lemma prefix_chars_split: "prefix_chars budget cs @ drop (length (prefix_chars budget cs)) cs = cs"
  by (induction budget cs rule: prefix_chars.induct) auto

lemma prefix_chars_most:
  "drop (length (prefix_chars budget cs)) cs = c # rest \<Longrightarrow> budget < length (concat (prefix_chars budget cs)) + length c"
  by (induction budget cs rule: prefix_chars.induct) (auto split: if_splits)

lemma middle_chars_split: "middle_chars target cs @ drop (length (middle_chars target cs)) cs = cs"
  by (induction target cs rule: middle_chars.induct) auto

lemma middle_chars_reach:
  "drop (length (middle_chars target cs)) cs \<noteq> [] \<Longrightarrow> target \<le> length (concat (middle_chars target cs))"
  by (induction target cs rule: middle_chars.induct) auto

lemma middle_chars_least:
  "middle_chars target cs \<noteq> [] \<Longrightarrow>
   length (concat (middle_chars target cs)) < target + length (last (middle_chars target cs))"
proof (induction target cs rule: middle_chars.induct)
  case (2 target ch rest)
  have "middle_chars (target - length ch) rest \<noteq> [] \<Longrightarrow> length ch < target" by (cases rest) (auto split: if_splits)
  with 2 show ?case by (cases "middle_chars (target - length ch) rest = []") (auto split: if_splits)
qed simp

text \<open>The three parts of a text that is too long for its budgets.\<close>

lemma split_string_parts:
  assumes "s \<noteq> []" and "left + right < length s" and "length s \<le> usize_max"
  obtains before mid after where "chars s = before @ mid @ after" "mid \<noteq> []"
    "split_string s left right = (length mid, concat before, concat after)"
    "length (concat before) \<le> left" "left < length (concat before) + length (hd mid)"
    "length (concat after) \<le> right" "right < length (concat after) + length (last mid)"
proof -
  define before where "before = prefix_chars left (chars s)"
  define rest where "rest = drop (length before) (chars s)"
  define target where "target = length s - right - length (concat before)"
  define mid where "mid = middle_chars target rest"
  define after where "after = drop (length mid) rest"
  have parts: "chars s = before @ mid @ after"
    unfolding after_def mid_def middle_chars_split rest_def before_def prefix_chars_split ..
  then have s: "s = concat before @ concat mid @ concat after" by (metis concat_chars concat_append)
  then have len: "length s = length (concat before) + length (concat mid) + length (concat after)" by simp
  have fit: "length (concat before) \<le> left" unfolding before_def by (rule prefix_chars_fit)
  have target: "target + length (concat before) = length s - right"
    using fit assms(2) by (simp add: target_def)
  have tail: "length (concat after) \<le> right"
  proof (cases "after = []")
    case False
    then have "target \<le> length (concat mid)" unfolding after_def mid_def by (rule middle_chars_reach)
    with target len show ?thesis by linarith
  qed simp
  have mid: "mid \<noteq> []" using len fit tail assms(2) by auto
  then have "drop (length before) (chars s) = hd mid # tl mid @ after" using parts by simp
  then have most: "left < length (concat before) + length (hd mid)"
    unfolding before_def by (rule prefix_chars_most)
  have "length (concat mid) < target + length (last mid)"
    using mid unfolding mid_def by (rule middle_chars_least)
  with target len assms(2) have least: "right < length (concat after) + length (last mid)" by linarith
  have "length mid \<le> length (concat mid)"
  proof -
    have "\<forall>c \<in> set mid. c \<noteq> []" using parts chars_nonempty by (metis Un_iff set_append)
    then show ?thesis
    proof (induction mid)
      case (Cons c cs)
      then have "1 \<le> length c" "length cs \<le> length (concat cs)" by (auto simp: Suc_le_eq)
      then have "Suc (length cs) \<le> length c + length (concat cs)" by linarith
      then show ?case by simp
    qed simp
  qed
  then have count: "min usize_max (length mid) = length mid" using len assms(3) by simp
  have loop: "split_loop left (length s - right) 0 (chars s) 0 (length s) 0 False =
      (length (concat before), length (concat before) + length (concat mid), length mid)"
    using split_loop_prefix [of "chars s" "length s" 0 left "length s - right"] chars_nonempty count
    by (simp add: Let_def before_def [symmetric] rest_def [symmetric] target_def [symmetric] mid_def [symmetric] del: diff_diff_left)
  have "take (length (concat before)) s = concat before"
    "drop (length (concat before) + length (concat mid)) s = concat after"
    by (subst s, simp)+
  with loop assms(1) have "split_string s left right = (length mid, concat before, concat after)"
    by (simp add: split_string_def Let_def)
  with that parts mid fit most tail least show ?thesis by blast
qed

subsection \<open>Items under a budget\<close>

lemma truncate_items_exhausted:
  "truncate_items_loop policy items 0 omitted = (filter (\<lambda>i. \<not> is_text i) items, omitted + length (text_segments items))"
proof (induction items arbitrary: omitted)
  case (Cons item items)
  then show ?case by (cases item) simp_all
qed simp

lemma text_segments_no_text: "text_segments (filter (\<lambda>i. \<not> is_text i) items) = []"
proof (induction items)
  case (Cons item items)
  then show ?case by (cases item) simp_all
qed simp

definition kept_and_cut ::
    "truncation_policy \<Rightarrow> nat \<Rightarrow> string list \<Rightarrow> string list \<Rightarrow> string list \<Rightarrow> string list \<Rightarrow> bool" where
  "kept_and_cut policy budget texts kept snip rest \<longleftrightarrow>
     texts = kept @ rest \<and> sum_list (map (item_cost policy) kept) \<le> budget \<and>
     (snip = [] \<or> rest \<noteq> [] \<and> snip = [truncate_text (hd rest) (snippet_policy policy (budget - sum_list (map (item_cost policy) kept)))]) \<and>
     (rest \<noteq> [] \<longrightarrow> sum_list (map (item_cost policy) kept) = budget \<or>
        budget < sum_list (map (item_cost policy) kept) + item_cost policy (hd rest))"

lemma kept_and_cut_Cons:
  "kept_and_cut policy (budget - item_cost policy t) texts kept snip rest \<Longrightarrow> item_cost policy t \<le> budget \<Longrightarrow>
   kept_and_cut policy budget (t # texts) (t # kept) snip rest"
  by (auto simp: kept_and_cut_def)

lemma truncate_items_loop_parts:
  "truncate_items_loop policy items budget omitted = (out, omitted') \<Longrightarrow>
   filter (\<lambda>i. \<not> is_text i) out = filter (\<lambda>i. \<not> is_text i) items \<and>
   (\<exists>kept snip rest. kept_and_cut policy budget (text_segments items) kept snip rest \<and>
      text_segments out = kept @ snip \<and> omitted' + length snip = omitted + length rest)"
proof (induction items arbitrary: budget omitted out omitted')
  case Nil
  then have "kept_and_cut policy budget [] [] [] []" by (simp add: kept_and_cut_def)
  with Nil show ?case by auto
next
  case (Cons item items)
  show ?case
  proof (cases item)
    case (InputText t)
    let ?cost = "item_cost policy t" and ?snippet = "truncate_text t (snippet_policy policy budget)"
    let ?rest = "t # text_segments items"
    consider (spent) "budget = 0" | (fits) "0 < budget" "?cost \<le> budget"
      | (gone) "0 < budget" "budget < ?cost" "?snippet = []" | (snip) "0 < budget" "budget < ?cost" "?snippet \<noteq> []"
      by linarith
    then show ?thesis
    proof cases
      case spent
      then have "kept_and_cut policy budget ?rest [] [] ?rest" by (simp add: kept_and_cut_def)
      moreover have "out = filter (\<lambda>i. \<not> is_text i) items" "omitted' = omitted + length ?rest"
        using Cons.prems InputText spent by (simp_all add: truncate_items_exhausted)
      ultimately show ?thesis using InputText by (fastforce simp: text_segments_no_text)
    next
      case fits
      from Cons.prems InputText fits obtain out1 where
        "truncate_items_loop policy items (budget - ?cost) omitted = (out1, omitted')" "out = InputText t # out1"
        by (auto simp: Let_def map_prod_def split: prod.splits)
      moreover from Cons.IH [OF this(1)] obtain kept snip rest where
        "kept_and_cut policy (budget - ?cost) (text_segments items) kept snip rest" "text_segments out1 = kept @ snip"
        "omitted' + length snip = omitted + length rest" "filter (\<lambda>i. \<not> is_text i) out1 = filter (\<lambda>i. \<not> is_text i) items"
        by auto
      moreover note kept_and_cut_Cons [OF this(1) fits(2)]
      ultimately show ?thesis
        using InputText by (intro conjI exI [of _ "t # kept"] exI [of _ snip] exI [of _ rest]) simp_all
    next
      case gone
      then have "kept_and_cut policy budget ?rest [] [] ?rest" by (simp add: kept_and_cut_def)
      moreover have "out = filter (\<lambda>i. \<not> is_text i) items" "omitted' = omitted + length ?rest"
        using Cons.prems InputText gone by (simp_all add: truncate_items_exhausted)
      ultimately show ?thesis using InputText by (fastforce simp: text_segments_no_text)
    next
      case snip
      then have "kept_and_cut policy budget ?rest [] [?snippet] ?rest" by (simp add: kept_and_cut_def)
      moreover have "out = InputText ?snippet # filter (\<lambda>i. \<not> is_text i) items" "omitted' = omitted + length (text_segments items)"
        using Cons.prems InputText snip by (simp_all add: truncate_items_exhausted)
      ultimately show ?thesis using InputText by (fastforce simp: text_segments_no_text)
    qed
  qed (use Cons in \<open>auto simp: map_prod_def split: prod.splits\<close>)
qed

subsection \<open>Properties\<close>

text \<open>
  A text over its budget keeps both ends, whole characters only: what stays in front fits half
  the budget and what stays at the back the other half, neither could take one more character, and
  the marker between them says how much is missing.
\<close>

theorem truncation_keeps_both_ends:
  assumes "0 < mb" and "mb < length s" and "length s \<le> usize_max"
  shows "\<exists>before mid after. chars s = before @ mid @ after \<and> mid \<noteq> [] \<and>
    truncate_with_byte_estimate s mb use_tokens =
      concat before @ format_truncation_marker use_tokens
        (if use_tokens then approx_tokens_from_byte_count (length s - mb) else length mid) @ concat after \<and>
    length (concat before) \<le> mb div 2 \<and> mb div 2 < length (concat before) + length (hd mid) \<and>
    length (concat after) \<le> mb - mb div 2 \<and> mb - mb div 2 < length (concat after) + length (last mid)"
proof -
  have s: "s \<noteq> []" and sum: "mb div 2 + (mb - mb div 2) < length s" using assms by auto
  from split_string_parts [OF s sum assms(3)] obtain before mid after where
    p: "chars s = before @ mid @ after" "mid \<noteq> []" "split_string s (mb div 2) (mb - mb div 2) = (length mid, concat before, concat after)"
    "length (concat before) \<le> mb div 2" "mb div 2 < length (concat before) + length (hd mid)"
    "length (concat after) \<le> mb - mb div 2" "mb - mb div 2 < length (concat after) + length (last mid)" .
  have "truncate_with_byte_estimate s mb use_tokens =
      concat before @ format_truncation_marker use_tokens
        (if use_tokens then approx_tokens_from_byte_count (length s - mb) else length mid) @ concat after"
    using s assms(1,2) p(3)
    by (simp add: truncate_with_byte_estimate_def split_budget_def Let_def assemble_truncated_output_def removed_units_def)
  with p show ?thesis by blast
qed

theorem truncation_keeps_both_ends_witness:
  "\<exists>before mid after. chars ''abcdefghij'' = before @ mid @ after \<and> mid \<noteq> [] \<and>
    truncate_with_byte_estimate ''abcdefghij'' 5 False =
      concat before @ format_truncation_marker False (length mid) @ concat after \<and>
    length (concat before) \<le> 2 \<and> 2 < length (concat before) + length (hd mid) \<and>
    length (concat after) \<le> 3 \<and> 3 < length (concat after) + length (last mid)"
  using truncation_keeps_both_ends [of 5 "''abcdefghij''" False] by (simp add: usize_max_def)

text \<open>
  Items under a budget: everything but text is kept in order, the first text items are kept
  whole as long as their cost fits, at most one more is cut to what is left, and a closing note
  counts exactly the text items that are missing.
\<close>

theorem function_output_items_fit_the_budget:
  "\<exists>kept snip rest missing.
    kept_and_cut policy (case policy of Bytes b \<Rightarrow> b | Tokens t \<Rightarrow> t) (text_segments items) kept snip rest \<and>
    missing + length snip = length rest \<and>
    filter (\<lambda>i. \<not> is_text i) (truncate_function_output_items_with_policy items policy) = filter (\<lambda>i. \<not> is_text i) items \<and>
    text_segments (truncate_function_output_items_with_policy items policy) =
      kept @ snip @ (if missing = 0 then [] else [''[omitted '' @ nat_str missing @ '' text items ...]''])"
proof -
  let ?budget = "case policy of Bytes _ \<Rightarrow> byte_budget policy | Tokens _ \<Rightarrow> token_budget policy"
  have budget: "?budget = (case policy of Bytes b \<Rightarrow> b | Tokens t \<Rightarrow> t)" by (cases policy) simp_all
  have segments: "text_segments (xs @ ys) = text_segments xs @ text_segments ys" for xs ys :: "'a content_item list"
  proof (induction xs)
    case (Cons x xs)
    then show ?case by (cases x) simp_all
  qed simp
  obtain out missing where loop: "truncate_items_loop policy items ?budget 0 = (out, missing)" by fastforce
  from truncate_items_loop_parts [OF loop] obtain kept snip rest where
    "filter (\<lambda>i. \<not> is_text i) out = filter (\<lambda>i. \<not> is_text i) items"
    "kept_and_cut policy ?budget (text_segments items) kept snip rest" "text_segments out = kept @ snip"
    "missing + length snip = length rest"
    by auto
  moreover from loop have "truncate_function_output_items_with_policy items policy =
      out @ (if missing = 0 then [] else [InputText (''[omitted '' @ nat_str missing @ '' text items ...]'')])"
    by (simp add: truncate_function_output_items_with_policy_def Let_def)
  ultimately show ?thesis
    unfolding budget by (intro exI [of _ kept] exI [of _ snip] exI [of _ rest] exI [of _ missing]) (auto simp: segments)
qed

text \<open>
  The comment on \<open>truncate_middle_with_token_budget\<close> promises at most \<open>max_tokens\<close> tokens; the marker is
  not counted, so the result can be over the budget, and even longer than the text.
\<close>

lemma token_budget_is_exceeded:
  "1 < approx_token_count (fst (truncate_middle_with_token_budget ''abcdefgh'' 1)) \<and>
   length ''abcdefgh'' < length (fst (truncate_middle_with_token_budget ''abcdefgh'' 1))"
proof -
  let ?s = "''abcdefgh''"
  obtain removed left right where parts: "split_string ?s 2 2 = (removed, left, right)" by (cases "split_string ?s 2 2")
  have long: "8 < length (truncate_with_byte_estimate ?s 4 True)"
    using parts by (simp add: truncate_with_byte_estimate_def split_budget_def Let_def assemble_truncated_output_def
      format_truncation_marker_def)
  then have "fst (truncate_middle_with_token_budget ?s 1) = truncate_with_byte_estimate ?s 4 True"
    by (simp add: truncate_middle_with_token_budget_def Let_def approx_bytes_for_tokens_def sat_mul_def usize_max_def
      APPROX_BYTES_PER_TOKEN_def)
  moreover have "1 < (n + 3) div 4" if "8 < n" for n :: nat using that by arith
  ultimately show ?thesis
    using long by (simp add: approx_token_count_def APPROX_BYTES_PER_TOKEN_def sat_add_def usize_max_def min_def)
qed

end
