(* ===== verification/Absolute_Paths.thy ===== *)
theory Absolute_Paths
  imports Rust_Prelude
begin

section \<open>Absolute paths\<close>

text \<open>
  \<open>codex-rs/utils/absolute-path/src\<close>, on Unix. An \<open>AbsolutePathBuf\<close> is absolute and normalised:
  the list of the names below the root. A raw \<open>Path\<close> is its text; its \<open>components\<close> are those of
  the standard library. A path starts with another when the list does.
\<close>

subsection \<open>Components\<close>

datatype component = RootDir | CurDir | ParentDir | Normal string

fun segment_component :: "string \<Rightarrow> component option" where
  "segment_component c =
     (if c = [] \<or> c = ''.'' then None else if c = ''..'' then Some ParentDir else Some (Normal c))"

definition is_absolute :: "string \<Rightarrow> bool" where
  "is_absolute p \<longleftrightarrow> starts_with p ''/''"

definition components :: "string \<Rightarrow> component list" where
  "components p =
     (let segments = split_on CHR ''/'' p in
      (if is_absolute p then [RootDir] else if hd segments = ''.'' then [CurDir] else []) @
      List.map_filter segment_component segments)"

type_synonym abs_path = "string list"

text \<open>\<open>PathBuf::join\<close> of two raw paths.\<close>

definition raw_join :: "string \<Rightarrow> string \<Rightarrow> string" where
  "raw_join base p =
     (if is_absolute p then p
      else if base = [] \<or> last base = CHR ''/'' then base @ p else base @ ''/'' @ p)"

subsection \<open>absolutize.rs\<close>

text \<open>
  One round of the loop of \<open>normalize_path\<close>. A path that is not absolute is first joined to its
  base, which is absolute, so the loop starts at the base.
\<close>

fun normalize_step :: "abs_path \<Rightarrow> component \<Rightarrow> abs_path" where
  "normalize_step normalized CurDir = normalized"
| "normalize_step normalized ParentDir = butlast normalized"
| "normalize_step normalized RootDir = []"
| "normalize_step normalized (Normal name) = normalized @ [name]"

definition absolutize_from :: "string \<Rightarrow> abs_path \<Rightarrow> abs_path" where
  "absolutize_from p base = foldl normalize_step (if is_absolute p then [] else base) (components p)"

definition absolutize :: "abs_path option \<Rightarrow> string \<Rightarrow> abs_path option" where
  "absolutize current_dir p =
     (if is_absolute p then Some (absolutize_from p []) else map_option (absolutize_from p) current_dir)"

subsection \<open>AbsolutePathBuf\<close>

text \<open>What the process knows: the home directory and the current directory.\<close>

record path_env =
  home_dir :: "string option"
  current_dir :: "abs_path option"

definition trim_start_slashes :: "string \<Rightarrow> string" where
  "trim_start_slashes s = dropWhile (\<lambda>c. c = CHR ''/'') s"

definition maybe_expand_home_directory :: "'a path_env_scheme \<Rightarrow> string \<Rightarrow> string" where
  "maybe_expand_home_directory env p =
     (case home_dir env of
        None \<Rightarrow> p
      | Some home \<Rightarrow>
          (case strip_prefix ''~'' p of
             None \<Rightarrow> p
           | Some rest \<Rightarrow>
               if rest = [] then home
               else (case strip_prefix ''/'' rest of
                       None \<Rightarrow> p
                     | Some rest \<Rightarrow> raw_join home (trim_start_slashes rest))))"

definition abs_resolve_path_against_base :: "'a path_env_scheme \<Rightarrow> string \<Rightarrow> abs_path \<Rightarrow> abs_path" where
  "abs_resolve_path_against_base env p base = absolutize_from (maybe_expand_home_directory env p) base"

definition from_absolute_path :: "'a path_env_scheme \<Rightarrow> string \<Rightarrow> abs_path option" where
  "from_absolute_path env p = absolutize (current_dir env) (maybe_expand_home_directory env p)"

definition from_absolute_path_checked :: "'a path_env_scheme \<Rightarrow> string \<Rightarrow> abs_path option" where
  "from_absolute_path_checked env p =
     (let expanded = maybe_expand_home_directory env p
      in if \<not> is_absolute expanded then None else Some (absolutize_from expanded []))"

definition abs_join :: "'a path_env_scheme \<Rightarrow> abs_path \<Rightarrow> string \<Rightarrow> abs_path" where
  "abs_join env p child = abs_resolve_path_against_base env child p"

definition abs_parent :: "abs_path \<Rightarrow> abs_path option" where
  "abs_parent p = (if p = [] then None else Some (butlast p))"

text \<open>\<open>abs_ancestors\<close>: the path itself, its parent and so on up to the root.\<close>

fun abs_ancestors :: "abs_path \<Rightarrow> abs_path list" where
  "abs_ancestors p = p # (if p = [] then [] else abs_ancestors (butlast p))"

declare abs_ancestors.simps [simp del]

text \<open>The text of an absolute path, which is what \<open>as_path\<close> hands to functions on raw paths.\<close>

definition path_text :: "abs_path \<Rightarrow> string" where
  "path_text p = ''/'' @ join ''/'' p"

text \<open>Names that can stand in an absolute path.\<close>

definition plain_name :: "string \<Rightarrow> bool" where
  "plain_name n \<longleftrightarrow> n \<noteq> [] \<and> n \<noteq> ''.'' \<and> n \<noteq> ''..'' \<and> CHR ''/'' \<notin> set n"

subsection \<open>Normalising\<close>

lemma path_text_absolute [simp]: "is_absolute (path_text p)"
  by (simp add: is_absolute_def path_text_def starts_with_iff)

lemma not_home [simp]: "is_absolute p \<Longrightarrow> maybe_expand_home_directory env p = p"
  by (auto simp: maybe_expand_home_directory_def is_absolute_def starts_with_iff strip_prefix_Some split: option.splits)

lemma map_filter_plain: "list_all plain_name p \<Longrightarrow> List.map_filter segment_component p = map Normal p"
  by (induction p) (auto simp: List.map_filter_def plain_name_def)

lemma foldl_normal: "foldl normalize_step acc (map Normal p) = acc @ p"
  by (induction p arbitrary: acc) auto

lemma components_path_text:
  assumes "list_all plain_name p"
  shows "components (path_text p) = RootDir # map Normal p"
proof (cases "p = []")
  case True
  then show ?thesis
    by (simp add: components_def path_text_def is_absolute_def starts_with_def List.map_filter_def)
next
  case False
  have "\<forall>n \<in> set p. CHR ''/'' \<notin> set n" using assms by (auto simp: list_all_iff plain_name_def)
  then have "split_on CHR ''/'' (join ''/'' p) = p" using False by (intro split_on_join) auto
  then have "split_on CHR ''/'' (path_text p) = [] # p" by (simp add: path_text_def)
  then show ?thesis
    using map_filter_plain [OF assms] by (simp add: components_def List.map_filter_def)
qed

text \<open>An absolute path is what its text is read as, whatever the process knows.\<close>

lemma from_absolute_path_text [simp]:
  "list_all plain_name p \<Longrightarrow> from_absolute_path env (path_text p) = Some p"
  by (simp add: from_absolute_path_def absolutize_def absolutize_from_def components_path_text foldl_normal)

lemma segment_component_plain:
  "segment_component c = Some (Normal n) \<Longrightarrow> CHR ''/'' \<notin> set c \<Longrightarrow> plain_name n"
  by (auto simp: plain_name_def split: if_splits)

lemma components_plain: "Normal n \<in> set (components p) \<Longrightarrow> plain_name n"
proof -
  assume "Normal n \<in> set (components p)"
  then obtain c where "c \<in> set (split_on CHR ''/'' p)" "segment_component c = Some (Normal n)"
    by (auto simp: components_def Let_def List.map_filter_def split: if_splits)
  then show ?thesis using segment_component_plain split_on_pieces by metis
qed

lemma foldl_plain:
  "list_all plain_name acc \<Longrightarrow> (\<And>n. Normal n \<in> set cs \<Longrightarrow> plain_name n) \<Longrightarrow> list_all plain_name (foldl normalize_step acc cs)"
proof (induction cs arbitrary: acc)
  case (Cons c cs)
  have "list_all plain_name (normalize_step acc c)"
    using Cons.prems by (cases c) (auto simp: list_all_iff dest: in_set_butlastD)
  with Cons show ?case by simp
qed simp

lemma absolutize_from_plain: "list_all plain_name base \<Longrightarrow> list_all plain_name (absolutize_from p base)"
  unfolding absolutize_from_def by (intro foldl_plain) (auto intro: components_plain)

definition plain_env :: "'a path_env_scheme \<Rightarrow> bool" where
  "plain_env env \<longleftrightarrow> (\<forall>d. current_dir env = Some d \<longrightarrow> list_all plain_name d)"

lemma resolve_path_plain: "list_all plain_name base \<Longrightarrow> list_all plain_name (abs_resolve_path_against_base env p base)"
  by (simp add: abs_resolve_path_against_base_def absolutize_from_plain)

lemma from_absolute_path_plain: "from_absolute_path env p = Some q \<Longrightarrow> plain_env env \<Longrightarrow> list_all plain_name q"
  by (auto simp: from_absolute_path_def absolutize_def plain_env_def absolutize_from_plain split: if_splits)

lemma abs_join_name:
  assumes "plain_name n" and "CHR ''~'' \<notin> set n"
  shows "abs_join env p n = p @ [n]"
proof -
  have "maybe_expand_home_directory env n = n"
    using assms(2) by (auto simp: maybe_expand_home_directory_def strip_prefix_Some split: option.splits)
  moreover have "split_on CHR ''/'' n = [n]" using assms(1) by (simp add: plain_name_def split_on_no_sep)
  moreover have "\<not> is_absolute n" using assms(1) by (auto simp: is_absolute_def starts_with_iff plain_name_def)
  ultimately show ?thesis
    using assms(1) by (simp add: abs_join_def abs_resolve_path_against_base_def absolutize_from_def components_def
      List.map_filter_def plain_name_def)
qed

end
