(* ===== verification/File_Permissions.thy ===== *)
theory File_Permissions
  imports Absolute_Paths Protocol_Types "HOL-Library.Product_Lexorder"
begin

section \<open>What the sandbox lets a command read and write\<close>

text \<open>
  \<open>codex-rs/protocol/src/permissions.rs\<close>: a \<open>FileSystemSandboxPolicy\<close> is a list of entries, each a
  path with an access mode; the most specific entry decides. Metadata directories of a workspace
  stay protected. \<open>WritableRoot\<close> comes from \<open>protocol/src/protocol.rs\<close>.
\<close>

subsection \<open>Entries\<close>

datatype access_mode = Read | Write | Deny

fun access_rank :: "access_mode \<Rightarrow> nat" where
  "access_rank Read = 0"
| "access_rank Write = 1"
| "access_rank Deny = 2"

lemma access_rank_inj [simp]: "access_rank a = access_rank b \<longleftrightarrow> a = b"
  by (cases a; cases b) simp_all

instantiation access_mode :: linorder
begin

definition less_eq_access_mode :: "access_mode \<Rightarrow> access_mode \<Rightarrow> bool" where
  "a \<le> b \<longleftrightarrow> access_rank a \<le> access_rank b"

definition less_access_mode :: "access_mode \<Rightarrow> access_mode \<Rightarrow> bool" where
  "a < b \<longleftrightarrow> access_rank a < access_rank b"

instance
  by standard (auto simp: less_eq_access_mode_def less_access_mode_def)

end

definition can_read :: "access_mode \<Rightarrow> bool" where
  "can_read a \<longleftrightarrow> a \<noteq> Deny"

definition can_write :: "access_mode \<Rightarrow> bool" where
  "can_write a \<longleftrightarrow> a = Write"

datatype special_path =
    Root
  | Minimal
  | ProjectRoots "string option"
  | Tmpdir
  | SlashTmp
  | UnknownSpecial string "string option"

datatype file_system_path = AtPath abs_path | GlobPattern string | Special special_path

record sandbox_entry =
  entry_path :: file_system_path
  entry_access :: access_mode

record file_system_sandbox_policy =
  policy_kind :: file_system_sandbox_kind
  glob_scan_max_depth :: "nat option"
  policy_entries :: "sandbox_entry list"

record resolved_entry =
  resolved_path :: abs_path
  resolved_access :: access_mode

definition default_policy :: file_system_sandbox_policy where
  "default_policy = \<lparr>policy_kind = Restricted, glob_scan_max_depth = None,
     policy_entries = [\<lparr>entry_path = Special Root, entry_access = Read\<rparr>]\<rparr>"

definition unrestricted_policy :: file_system_sandbox_policy where
  "unrestricted_policy = \<lparr>policy_kind = Unrestricted, glob_scan_max_depth = None, policy_entries = []\<rparr>"

definition external_sandbox_policy :: file_system_sandbox_policy where
  "external_sandbox_policy = \<lparr>policy_kind = ExternalSandbox, glob_scan_max_depth = None, policy_entries = []\<rparr>"

definition restricted_policy :: "sandbox_entry list \<Rightarrow> file_system_sandbox_policy" where
  "restricted_policy entries = \<lparr>policy_kind = Restricted, glob_scan_max_depth = None, policy_entries = entries\<rparr>"

subsection \<open>The surroundings\<close>

text \<open>
  What the code asks the process and the disk: the variable \<open>TMPDIR\<close>, whether a path is a
  directory, a file or there at all, the text of a file, whether a path is a symbolic link (\<open>None\<close>
  when \<open>symlink_metadata\<close> fails), and the canonical form of a path.
\<close>

record fs_env = path_env +
  tmpdir_var :: "string option"
  path_is_dir :: "abs_path \<Rightarrow> bool"
  path_is_file :: "abs_path \<Rightarrow> bool"
  path_exists :: "abs_path \<Rightarrow> bool"
  pointer_text :: "abs_path \<Rightarrow> string option"
  symlink_metadata :: "abs_path \<Rightarrow> bool option"
  canonicalize :: "abs_path \<Rightarrow> abs_path option"

subsection \<open>Resolving entries\<close>

definition resolve_candidate_path :: "fs_env \<Rightarrow> string \<Rightarrow> string \<Rightarrow> abs_path option" where
  "resolve_candidate_path env p cwd =
     (if is_absolute p then from_absolute_path env p
      else map_option (\<lambda>cwd. abs_join env cwd p) (from_absolute_path env cwd))"

definition absolute_root_path_for_cwd :: "abs_path \<Rightarrow> abs_path" where
  "absolute_root_path_for_cwd cwd = last (abs_ancestors cwd)"

definition resolve_file_system_special_path :: "fs_env \<Rightarrow> special_path \<Rightarrow> abs_path option \<Rightarrow> abs_path option" where
  "resolve_file_system_special_path env v cwd =
     (case v of
        Root \<Rightarrow> None
      | Minimal \<Rightarrow> None
      | UnknownSpecial _ _ \<Rightarrow> None
      | ProjectRoots subpath \<Rightarrow>
          (case cwd of
             None \<Rightarrow> None
           | Some cwd \<Rightarrow>
               (case subpath of
                  Some subpath \<Rightarrow> Some (abs_resolve_path_against_base env subpath cwd)
                | None \<Rightarrow> Some cwd))
      | Tmpdir \<Rightarrow>
          (case tmpdir_var env of
             None \<Rightarrow> None
           | Some tmpdir \<Rightarrow> if tmpdir = [] then None else from_absolute_path env tmpdir)
      | SlashTmp \<Rightarrow> if path_is_dir env [''tmp''] then Some [''tmp''] else None)"

definition resolve_file_system_path :: "fs_env \<Rightarrow> file_system_path \<Rightarrow> abs_path option \<Rightarrow> abs_path option" where
  "resolve_file_system_path env p cwd =
     (case p of
        AtPath p \<Rightarrow> Some p
      | GlobPattern _ \<Rightarrow> None
      | Special v \<Rightarrow> resolve_file_system_special_path env v cwd)"

definition resolve_entry_path :: "fs_env \<Rightarrow> file_system_path \<Rightarrow> abs_path option \<Rightarrow> abs_path option" where
  "resolve_entry_path env p cwd =
     (if p = Special Root then map_option absolute_root_path_for_cwd cwd
      else resolve_file_system_path env p cwd)"

definition resolve_entry :: "fs_env \<Rightarrow> abs_path option \<Rightarrow> sandbox_entry \<Rightarrow> resolved_entry option" where
  "resolve_entry env cwd_absolute entry =
     map_option (\<lambda>p. \<lparr>resolved_path = p, resolved_access = entry_access entry\<rparr>)
       (resolve_entry_path env (entry_path entry) cwd_absolute)"

definition resolved_entries_with_cwd :: "fs_env \<Rightarrow> file_system_sandbox_policy \<Rightarrow> string \<Rightarrow> resolved_entry list" where
  "resolved_entries_with_cwd env policy cwd =
     List.map_filter (resolve_entry env (from_absolute_path env cwd)) (policy_entries policy)"

definition resolved_entry_precedence :: "resolved_entry \<Rightarrow> nat \<times> access_mode" where
  "resolved_entry_precedence e = (length (resolved_path e) + 1, resolved_access e)"

definition resolve_access_with_cwd ::
    "fs_env \<Rightarrow> file_system_sandbox_policy \<Rightarrow> string \<Rightarrow> string \<Rightarrow> access_mode" where
  "resolve_access_with_cwd env policy p cwd =
     (if policy_kind policy \<noteq> Restricted then Write
      else (case resolve_candidate_path env p cwd of
              None \<Rightarrow> Deny
            | Some p \<Rightarrow>
                (case max_by_key resolved_entry_precedence
                        (filter (\<lambda>e. starts_with p (resolved_path e)) (resolved_entries_with_cwd env policy cwd)) of
                   None \<Rightarrow> Deny
                 | Some e \<Rightarrow> resolved_access e)))"

subsection \<open>Full access\<close>

definition has_root_access :: "file_system_sandbox_policy \<Rightarrow> (access_mode \<Rightarrow> bool) \<Rightarrow> bool" where
  "has_root_access policy predicate \<longleftrightarrow>
     policy_kind policy = Restricted \<and>
     list_ex (\<lambda>entry. entry_path entry = Special Root \<and> predicate (entry_access entry)) (policy_entries policy)"

definition has_denied_read_restrictions :: "file_system_sandbox_policy \<Rightarrow> bool" where
  "has_denied_read_restrictions policy \<longleftrightarrow>
     policy_kind policy = Restricted \<and> list_ex (\<lambda>entry. entry_access entry = Deny) (policy_entries policy)"

fun special_paths_share_target :: "special_path \<Rightarrow> special_path \<Rightarrow> bool" where
  "special_paths_share_target Root Root = True"
| "special_paths_share_target Minimal Minimal = True"
| "special_paths_share_target Tmpdir Tmpdir = True"
| "special_paths_share_target SlashTmp SlashTmp = True"
| "special_paths_share_target (ProjectRoots left) (ProjectRoots right) = (left = right)"
| "special_paths_share_target (UnknownSpecial left left_subpath) (UnknownSpecial right right_subpath) =
     (left = right \<and> left_subpath = right_subpath)"
| "special_paths_share_target _ _ = False"

fun special_path_matches_absolute_path :: "special_path \<Rightarrow> abs_path \<Rightarrow> bool" where
  "special_path_matches_absolute_path Root p = (abs_parent p = None)"
| "special_path_matches_absolute_path SlashTmp p = (p = [''tmp''])"
| "special_path_matches_absolute_path _ p = False"

fun file_system_paths_share_target :: "file_system_path \<Rightarrow> file_system_path \<Rightarrow> bool" where
  "file_system_paths_share_target (AtPath left) (AtPath right) = (left = right)"
| "file_system_paths_share_target (Special left) (Special right) = special_paths_share_target left right"
| "file_system_paths_share_target (AtPath p) (Special v) = special_path_matches_absolute_path v p"
| "file_system_paths_share_target (Special v) (AtPath p) = special_path_matches_absolute_path v p"
| "file_system_paths_share_target (GlobPattern left) (GlobPattern right) = (left = right)"
| "file_system_paths_share_target _ _ = False"

definition has_same_target_write_override :: "file_system_sandbox_policy \<Rightarrow> sandbox_entry \<Rightarrow> bool" where
  "has_same_target_write_override policy entry \<longleftrightarrow>
     list_ex (\<lambda>candidate. can_write (entry_access candidate) \<and> entry_access entry < entry_access candidate \<and>
       file_system_paths_share_target (entry_path candidate) (entry_path entry)) (policy_entries policy)"

definition narrows_write :: "file_system_sandbox_policy \<Rightarrow> sandbox_entry \<Rightarrow> bool" where
  "narrows_write policy entry \<longleftrightarrow>
     (if can_write (entry_access entry) then False
      else (case entry_path entry of
              AtPath _ \<Rightarrow> \<not> has_same_target_write_override policy entry
            | GlobPattern _ \<Rightarrow> True
            | Special v \<Rightarrow>
                (case v of
                   Root \<Rightarrow> entry_access entry = Deny
                 | Minimal \<Rightarrow> False
                 | UnknownSpecial _ _ \<Rightarrow> False
                 | _ \<Rightarrow> \<not> has_same_target_write_override policy entry)))"

definition has_write_narrowing_entries :: "file_system_sandbox_policy \<Rightarrow> bool" where
  "has_write_narrowing_entries policy \<longleftrightarrow>
     policy_kind policy = Restricted \<and> list_ex (narrows_write policy) (policy_entries policy)"

definition has_full_disk_read_access :: "file_system_sandbox_policy \<Rightarrow> bool" where
  "has_full_disk_read_access policy =
     (case policy_kind policy of
        Unrestricted \<Rightarrow> True
      | ExternalSandbox \<Rightarrow> True
      | Restricted \<Rightarrow> has_root_access policy can_read \<and> \<not> has_denied_read_restrictions policy)"

definition has_full_disk_write_access :: "file_system_sandbox_policy \<Rightarrow> bool" where
  "has_full_disk_write_access policy =
     (case policy_kind policy of
        Unrestricted \<Rightarrow> True
      | ExternalSandbox \<Rightarrow> True
      | Restricted \<Rightarrow> has_root_access policy can_write \<and> \<not> has_write_narrowing_entries policy)"

definition include_platform_defaults :: "file_system_sandbox_policy \<Rightarrow> bool" where
  "include_platform_defaults policy \<longleftrightarrow>
     \<not> has_full_disk_read_access policy \<and> policy_kind policy = Restricted \<and>
     list_ex (\<lambda>entry. entry_path entry = Special Minimal \<and> can_read (entry_access entry)) (policy_entries policy)"

subsection \<open>Protected metadata\<close>

definition PROTECTED_METADATA_PATH_NAMES :: "string list" where
  "PROTECTED_METADATA_PATH_NAMES = [''.git'', ''.agents'', ''.codex'']"

definition is_protected_metadata_name :: "string \<Rightarrow> bool" where
  "is_protected_metadata_name name \<longleftrightarrow> list_ex (\<lambda>metadata_name. name = metadata_name) PROTECTED_METADATA_PATH_NAMES"

definition is_protected_metadata_directory_name :: "string \<Rightarrow> bool" where
  "is_protected_metadata_directory_name name \<longleftrightarrow> name = ''.agents'' \<or> name = ''.codex''"

definition metadata_path_name :: "string \<Rightarrow> string option" where
  "metadata_path_name name = find (\<lambda>metadata_name. name = metadata_name) PROTECTED_METADATA_PATH_NAMES"

definition metadata_child :: "fs_env \<Rightarrow> abs_path \<Rightarrow> resolved_entry \<Rightarrow> (abs_path \<times> string) option" where
  "metadata_child env target entry =
     (case strip_prefix (resolved_path entry) target of
        None \<Rightarrow> None
      | Some [] \<Rightarrow> None
      | Some (first_component # _) \<Rightarrow>
          map_option (\<lambda>metadata_name. (abs_join env (resolved_path entry) metadata_name, metadata_name))
            (metadata_path_name first_component))"

fun first_of :: "'a list \<Rightarrow> 'a option" where
  "first_of [] = None"
| "first_of (x # xs) = Some x"

definition metadata_child_of_writable_root ::
    "fs_env \<Rightarrow> file_system_sandbox_policy \<Rightarrow> abs_path \<Rightarrow> string \<Rightarrow> (abs_path \<times> string) option" where
  "metadata_child_of_writable_root env policy target cwd =
     first_of (List.map_filter (metadata_child env target)
       (filter (\<lambda>entry. can_write (resolved_access entry)) (resolved_entries_with_cwd env policy cwd)))"

definition has_explicit_write_entry_for_metadata_path ::
    "fs_env \<Rightarrow> file_system_sandbox_policy \<Rightarrow> abs_path \<Rightarrow> abs_path \<Rightarrow> string \<Rightarrow> bool" where
  "has_explicit_write_entry_for_metadata_path env policy protected_metadata_path target cwd \<longleftrightarrow>
     list_ex (\<lambda>entry. can_write (resolved_access entry) \<and> starts_with target (resolved_path entry) \<and>
       starts_with (resolved_path entry) protected_metadata_path) (resolved_entries_with_cwd env policy cwd)"

definition is_metadata_write_denied :: "fs_env \<Rightarrow> file_system_sandbox_policy \<Rightarrow> string \<Rightarrow> string \<Rightarrow> bool" where
  "is_metadata_write_denied env policy p cwd =
     (if policy_kind policy \<noteq> Restricted then False
      else (case resolve_candidate_path env p cwd of
              None \<Rightarrow> True
            | Some target \<Rightarrow>
                (case metadata_child_of_writable_root env policy target cwd of
                   None \<Rightarrow> False
                 | Some (protected_metadata_path, _) \<Rightarrow>
                     \<not> has_explicit_write_entry_for_metadata_path env policy protected_metadata_path target cwd)))"

definition can_read_path_with_cwd :: "fs_env \<Rightarrow> file_system_sandbox_policy \<Rightarrow> string \<Rightarrow> string \<Rightarrow> bool" where
  "can_read_path_with_cwd env policy p cwd \<longleftrightarrow> can_read (resolve_access_with_cwd env policy p cwd)"

definition can_write_path_with_cwd :: "fs_env \<Rightarrow> file_system_sandbox_policy \<Rightarrow> string \<Rightarrow> string \<Rightarrow> bool" where
  "can_write_path_with_cwd env policy p cwd =
     (if \<not> can_write (resolve_access_with_cwd env policy p cwd) then False
      else if has_full_disk_write_access policy then True
      else \<not> is_metadata_write_denied env policy p cwd)"

definition forbidden_agent_metadata_write ::
    "fs_env \<Rightarrow> string \<Rightarrow> string \<Rightarrow> file_system_sandbox_policy \<Rightarrow> string option" where
  "forbidden_agent_metadata_write env p cwd policy =
     (if policy_kind policy \<noteq> Restricted then None
      else (case resolve_candidate_path env p cwd of
              None \<Rightarrow> None
            | Some target \<Rightarrow>
                (case metadata_child_of_writable_root env policy target cwd of
                   None \<Rightarrow> None
                 | Some (protected_metadata_path, metadata_name) \<Rightarrow>
                     if has_explicit_write_entry_for_metadata_path env policy protected_metadata_path target cwd then None
                     else if \<not> can_write_path_with_cwd env policy (path_text target) cwd then Some metadata_name
                     else None)))"

subsection \<open>Changing a policy\<close>

definition add_entry :: "file_system_sandbox_policy \<Rightarrow> sandbox_entry \<Rightarrow> file_system_sandbox_policy" where
  "add_entry policy entry = policy\<lparr>policy_entries := policy_entries policy @ [entry]\<rparr>"

fun readable_roots_loop :: "fs_env \<Rightarrow> string \<Rightarrow> abs_path list \<Rightarrow> file_system_sandbox_policy \<Rightarrow> file_system_sandbox_policy" where
  "readable_roots_loop env cwd [] policy = policy"
| "readable_roots_loop env cwd (p # ps) policy =
     readable_roots_loop env cwd ps
       (if can_read_path_with_cwd env policy (path_text p) cwd then policy
        else add_entry policy \<lparr>entry_path = AtPath p, entry_access = Read\<rparr>)"

definition with_additional_readable_roots ::
    "fs_env \<Rightarrow> file_system_sandbox_policy \<Rightarrow> string \<Rightarrow> abs_path list \<Rightarrow> file_system_sandbox_policy" where
  "with_additional_readable_roots env policy cwd additional_readable_roots =
     (if has_full_disk_read_access policy then policy
      else readable_roots_loop env cwd additional_readable_roots policy)"

fun writable_roots_loop :: "fs_env \<Rightarrow> string \<Rightarrow> abs_path list \<Rightarrow> file_system_sandbox_policy \<Rightarrow> file_system_sandbox_policy" where
  "writable_roots_loop env cwd [] policy = policy"
| "writable_roots_loop env cwd (p # ps) policy =
     writable_roots_loop env cwd ps
       (if can_write_path_with_cwd env policy (path_text p) cwd then policy
        else add_entry policy \<lparr>entry_path = AtPath p, entry_access = Write\<rparr>)"

definition with_additional_writable_roots ::
    "fs_env \<Rightarrow> file_system_sandbox_policy \<Rightarrow> string \<Rightarrow> abs_path list \<Rightarrow> file_system_sandbox_policy" where
  "with_additional_writable_roots env policy cwd additional_writable_roots =
     writable_roots_loop env cwd additional_writable_roots policy"

definition PROJECT_ROOTS_GLOB_PATTERN_PREFIX :: string where
  "PROJECT_ROOTS_GLOB_PATTERN_PREFIX = ''codex-project-roots://''"

definition project_roots_glob_pattern :: "string \<Rightarrow> string" where
  "project_roots_glob_pattern subpath = PROJECT_ROOTS_GLOB_PATTERN_PREFIX @ subpath"

definition parse_project_roots_glob_pattern :: "string \<Rightarrow> string option" where
  "parse_project_roots_glob_pattern pattern = strip_prefix PROJECT_ROOTS_GLOB_PATTERN_PREFIX pattern"

definition resolve_project_roots_glob_pattern :: "fs_env \<Rightarrow> string \<Rightarrow> abs_path \<Rightarrow> string" where
  "resolve_project_roots_glob_pattern env subpath root = path_text (abs_resolve_path_against_base env subpath root)"

definition materialize_entry_with_cwd :: "fs_env \<Rightarrow> abs_path option \<Rightarrow> sandbox_entry \<Rightarrow> sandbox_entry" where
  "materialize_entry_with_cwd env cwd entry =
     (case entry_path entry of
        Special (ProjectRoots _) \<Rightarrow>
          (case resolve_file_system_path env (entry_path entry) cwd of
             None \<Rightarrow> entry
           | Some p \<Rightarrow> entry\<lparr>entry_path := AtPath p\<rparr>)
      | GlobPattern pattern \<Rightarrow>
          (case (cwd, parse_project_roots_glob_pattern pattern) of
             (Some cwd, Some subpath) \<Rightarrow>
               entry\<lparr>entry_path := GlobPattern (resolve_project_roots_glob_pattern env subpath cwd)\<rparr>
           | _ \<Rightarrow> entry)
      | _ \<Rightarrow> entry)"

definition materialize_project_roots_with_cwd ::
    "fs_env \<Rightarrow> file_system_sandbox_policy \<Rightarrow> string \<Rightarrow> file_system_sandbox_policy" where
  "materialize_project_roots_with_cwd env policy cwd =
     policy\<lparr>policy_entries := map (materialize_entry_with_cwd env (from_absolute_path env cwd)) (policy_entries policy)\<rparr>"

definition materialize_entry :: "fs_env \<Rightarrow> abs_path list \<Rightarrow> sandbox_entry \<Rightarrow> sandbox_entry list" where
  "materialize_entry env workspace_roots entry =
     (case entry_path entry of
        Special (ProjectRoots subpath) \<Rightarrow>
          map (\<lambda>root. \<lparr>entry_path = AtPath (case subpath of
                          Some subpath \<Rightarrow> abs_resolve_path_against_base env subpath root
                        | None \<Rightarrow> root), entry_access = entry_access entry\<rparr>) workspace_roots
      | GlobPattern pattern \<Rightarrow>
          (case parse_project_roots_glob_pattern pattern of
             Some subpath \<Rightarrow>
               map (\<lambda>root. \<lparr>entry_path = GlobPattern (resolve_project_roots_glob_pattern env subpath root),
                            entry_access = entry_access entry\<rparr>) workspace_roots
           | None \<Rightarrow> [\<lparr>entry_path = GlobPattern pattern, entry_access = entry_access entry\<rparr>])
      | p \<Rightarrow> [\<lparr>entry_path = p, entry_access = entry_access entry\<rparr>])"

definition materialize_project_roots_with_workspace_roots ::
    "fs_env \<Rightarrow> file_system_sandbox_policy \<Rightarrow> abs_path list \<Rightarrow> file_system_sandbox_policy" where
  "materialize_project_roots_with_workspace_roots env policy workspace_roots =
     policy\<lparr>policy_entries := concat (map (materialize_entry env workspace_roots) (policy_entries policy))\<rparr>"

fun push_missing_entries :: "sandbox_entry list \<Rightarrow> file_system_sandbox_policy \<Rightarrow> file_system_sandbox_policy" where
  "push_missing_entries [] policy = policy"
| "push_missing_entries (entry # entries) policy =
     push_missing_entries entries (if entry \<in> set (policy_entries policy) then policy else add_entry policy entry)"

definition with_materialized_project_roots_for_workspace_roots ::
    "fs_env \<Rightarrow> file_system_sandbox_policy \<Rightarrow> abs_path list \<Rightarrow> file_system_sandbox_policy" where
  "with_materialized_project_roots_for_workspace_roots env policy workspace_roots =
     push_missing_entries (policy_entries (materialize_project_roots_with_workspace_roots env policy workspace_roots)) policy"

subsection \<open>The most specific entry\<close>

definition path_covers :: "abs_path \<Rightarrow> resolved_entry \<Rightarrow> bool" where
  "path_covers t e \<longleftrightarrow> starts_with t (resolved_path e)"

text \<open>An entry that decides over a path: no other one that covers the path is stronger.\<close>

definition decides :: "resolved_entry list \<Rightarrow> abs_path \<Rightarrow> resolved_entry \<Rightarrow> bool" where
  "decides es t e \<longleftrightarrow> e \<in> set es \<and> path_covers t e \<and>
     (\<forall>e' \<in> set es. path_covers t e' \<longrightarrow>
        length (resolved_path e') < length (resolved_path e) \<or>
        resolved_path e' = resolved_path e \<and> resolved_access e' \<le> resolved_access e)"

definition access_at :: "resolved_entry list \<Rightarrow> abs_path \<Rightarrow> access_mode" where
  "access_at es t =
     (case max_by_key resolved_entry_precedence (filter (path_covers t) es) of
        None \<Rightarrow> Deny
      | Some e \<Rightarrow> resolved_access e)"

lemma resolve_access_at:
  assumes "policy_kind policy = Restricted" and "resolve_candidate_path env p cwd = Some t"
  shows "resolve_access_with_cwd env policy p cwd = access_at (resolved_entries_with_cwd env policy cwd) t"
  using assms by (simp add: resolve_access_with_cwd_def access_at_def path_covers_def [abs_def])

lemma path_covers_same_length:
  "path_covers t e \<Longrightarrow> path_covers t e' \<Longrightarrow> length (resolved_path e) = length (resolved_path e') \<Longrightarrow> resolved_path e = resolved_path e'"
  by (auto simp: path_covers_def starts_with_iff)

lemma precedence_le:
  "resolved_entry_precedence e' \<le> resolved_entry_precedence e \<longleftrightarrow>
   length (resolved_path e') < length (resolved_path e) \<or>
   length (resolved_path e') = length (resolved_path e) \<and> resolved_access e' \<le> resolved_access e"
  by (auto simp: resolved_entry_precedence_def less_eq_prod_def)

lemma access_at_cases:
  obtains (outside) "\<And>e. e \<in> set es \<Longrightarrow> \<not> path_covers t e" "access_at es t = Deny"
    | (decided) e where "decides es t e" "access_at es t = resolved_access e"
proof (cases "max_by_key resolved_entry_precedence (filter (path_covers t) es)")
  case None
  then have "filter (path_covers t) es = []" by simp
  then have "\<not> path_covers t e" if "e \<in> set es" for e using that by (auto simp: filter_empty_conv)
  with None outside show ?thesis by (simp add: access_at_def)
next
  case (Some e)
  from max_by_key_Some [OF this] have "decides es t e"
    using path_covers_same_length by (fastforce simp: decides_def precedence_le)
  with Some decided show ?thesis by (simp add: access_at_def)
qed

lemma decides_unique: "decides es t e \<Longrightarrow> decides es t e' \<Longrightarrow> resolved_access e = resolved_access e'"
  by (fastforce simp: decides_def)

lemma access_at_decides: "decides es t e \<Longrightarrow> access_at es t = resolved_access e"
proof (cases rule: access_at_cases [of es t])
  case (decided e')
  then show "decides es t e \<Longrightarrow> access_at es t = resolved_access e" using decides_unique by metis
qed (auto simp: decides_def)

lemma access_at_Deny: "(\<And>e. e \<in> set es \<Longrightarrow> \<not> path_covers t e) \<Longrightarrow> access_at es t = Deny"
  by (cases rule: access_at_cases [of es t]) (auto simp: decides_def)

lemma access_at_not_Deny:
  "access_at es t \<noteq> Deny \<Longrightarrow> \<exists>e. decides es t e \<and> access_at es t = resolved_access e"
  by (cases rule: access_at_cases [of es t]) auto

text \<open>The entries that an entry of the policy resolves to.\<close>

lemma resolved_in:
  "e \<in> set (resolved_entries_with_cwd env policy cwd) \<longleftrightarrow>
   (\<exists>entry \<in> set (policy_entries policy). resolve_entry env (from_absolute_path env cwd) entry = Some e)"
  by (simp add: resolved_entries_with_cwd_def set_map_filter_iff)

lemma ancestors_nonempty [simp]: "abs_ancestors p \<noteq> []"
  by (subst abs_ancestors.simps) simp

lemma last_ancestors [simp]: "last (abs_ancestors p) = []"
  by (induction p rule: abs_ancestors.induct) (subst abs_ancestors.simps, simp add: ancestors_nonempty)

lemma resolve_root: "resolve_entry env (Some c) \<lparr>entry_path = Special Root, entry_access = a\<rparr> =
    Some \<lparr>resolved_path = [], resolved_access = a\<rparr>"
  by (simp add: resolve_entry_def resolve_entry_path_def absolute_root_path_for_cwd_def)

lemma path_covers_root [simp]: "resolved_path e = [] \<Longrightarrow> path_covers t e"
  by (simp add: path_covers_def starts_with_iff)

subsection \<open>Full access means every path\<close>

text \<open>Paths that share a target resolve alike, as long as \<open>/tmp\<close> is a directory.\<close>

lemma share_target_resolve:
  assumes "file_system_paths_share_target q p" and "path_is_dir env [''tmp'']" and "resolve_entry_path env p (Some c) = Some t"
  shows "resolve_entry_path env q (Some c) = Some t"
  using assms
  by (induction q p rule: file_system_paths_share_target.induct)
    (auto simp: resolve_entry_path_def resolve_file_system_path_def resolve_file_system_special_path_def
      absolute_root_path_for_cwd_def abs_parent_def
      elim!: special_paths_share_target.elims special_path_matches_absolute_path.elims split: if_splits)

lemma not_narrowing_overridden:
  assumes "\<not> has_write_narrowing_entries policy" "policy_kind policy = Restricted" "entry \<in> set (policy_entries policy)"
    and "\<not> can_write (entry_access entry)" and "resolve_entry env (Some c) entry = Some e" and "path_is_dir env [''tmp'']"
    and root: "has_root_access policy can_write"
  shows "\<exists>entry' \<in> set (policy_entries policy). \<exists>e'. resolve_entry env (Some c) entry' = Some e' \<and>
    resolved_path e' = resolved_path e \<and> resolved_access e' = Write \<and> resolved_access e < Write"
proof -
  from assms(5) obtain t where t: "resolve_entry_path env (entry_path entry) (Some c) = Some t"
    "e = \<lparr>resolved_path = t, resolved_access = entry_access entry\<rparr>"
    by (auto simp: resolve_entry_def)
  have "\<not> narrows_write policy entry"
    using assms(1-3) by (auto simp: has_write_narrowing_entries_def list_ex_iff)
  then consider (same) "has_same_target_write_override policy entry"
    | (root) "entry_path entry = Special Root" "entry_access entry \<noteq> Deny"
    using assms(4) t(1)
    by (auto simp: narrows_write_def resolve_entry_path_def resolve_file_system_path_def
        resolve_file_system_special_path_def split: file_system_path.splits special_path.splits if_splits)
  then show ?thesis
  proof cases
    case same
    then obtain q where q: "q \<in> set (policy_entries policy)" "can_write (entry_access q)" "entry_access entry < entry_access q"
      "file_system_paths_share_target (entry_path q) (entry_path entry)"
      by (auto simp: has_same_target_write_override_def list_ex_iff)
    from share_target_resolve [OF q(4) assms(6) t(1)] q(1-3) t(2) show ?thesis
      by (intro bexI [OF _ q(1)]) (auto simp: resolve_entry_def can_write_def)
  next
    case root
    then have "entry_access entry = Read" using assms(4) by (cases "entry_access entry") (simp_all add: can_write_def)
    moreover from assms(7) obtain q where "q \<in> set (policy_entries policy)" "entry_path q = Special Root" "entry_access q = Write"
      by (auto simp: has_root_access_def list_ex_iff can_write_def)
    ultimately show ?thesis
      using root t by (intro bexI [of _ q]) (auto simp: resolve_entry_def less_access_mode_def)
  qed
qed

lemma full_write_access_at:
  assumes "has_full_disk_write_access policy" "policy_kind policy = Restricted" "from_absolute_path env cwd = Some c"
    and "path_is_dir env [''tmp'']"
  shows "access_at (resolved_entries_with_cwd env policy cwd) t = Write"
proof -
  let ?es = "resolved_entries_with_cwd env policy cwd"
  have full: "has_root_access policy can_write" "\<not> has_write_narrowing_entries policy"
    using assms(1,2) by (auto simp: has_full_disk_write_access_def)
  from full(1) obtain q where q: "q \<in> set (policy_entries policy)" "entry_path q = Special Root" "entry_access q = Write"
    by (auto simp: has_root_access_def list_ex_iff can_write_def)
  then have "resolve_entry env (Some c) q = Some \<lparr>resolved_path = [], resolved_access = Write\<rparr>"
    using resolve_root [of env c Write] by (simp add: resolve_entry_def)
  with q(1) assms(3) have root: "\<lparr>resolved_path = [], resolved_access = Write\<rparr> \<in> set ?es"
    by (auto simp: resolved_in)
  show ?thesis
  proof (cases rule: access_at_cases [of ?es t])
    case outside
    with root show ?thesis by fastforce
  next
    case (decided e)
    then obtain entry where e: "entry \<in> set (policy_entries policy)" "resolve_entry env (Some c) entry = Some e"
      using assms(3) by (auto simp: decides_def resolved_in)
    have "can_write (entry_access entry)"
    proof (rule ccontr)
      assume "\<not> can_write (entry_access entry)"
      from not_narrowing_overridden [OF full(2) assms(2) e(1) this e(2) assms(4) full(1)]
      obtain e' where e': "e' \<in> set ?es" "resolved_path e' = resolved_path e" "resolved_access e' = Write" "resolved_access e < Write"
        using assms(3) by (auto simp: resolved_in)
      then have "path_covers t e'" using decided(1) by (simp add: decides_def path_covers_def)
      with e' decided(1) show False by (fastforce simp: decides_def)
    qed
    with e decided show ?thesis by (auto simp: resolve_entry_def can_write_def)
  qed
qed

subsection \<open>Metadata\<close>

lemma first_of_None [simp]: "first_of xs = None \<longleftrightarrow> xs = []"
  by (cases xs) simp_all

lemma first_of_in: "first_of xs = Some x \<Longrightarrow> x \<in> set xs"
  by (cases xs) auto

lemma metadata_path_name_Some:
  "metadata_path_name n = Some m \<longleftrightarrow> m = n \<and> n \<in> set PROTECTED_METADATA_PATH_NAMES"
  by (auto simp: metadata_path_name_def PROTECTED_METADATA_PATH_NAMES_def)

lemma metadata_join [simp]:
  "n \<in> set PROTECTED_METADATA_PATH_NAMES \<Longrightarrow> abs_join env p n = p @ [n]"
  by (rule abs_join_name) (auto simp: PROTECTED_METADATA_PATH_NAMES_def plain_name_def)

lemma metadata_child_Some:
  "metadata_child env target e = Some (protected, n) \<longleftrightarrow>
   n \<in> set PROTECTED_METADATA_PATH_NAMES \<and> protected = resolved_path e @ [n] \<and> starts_with target protected"
proof (cases "strip_prefix (resolved_path e) target")
  case None
  then have "\<forall>r. target \<noteq> resolved_path e @ r" by (simp add: strip_prefix_None)
  with None show ?thesis by (simp add: metadata_child_def starts_with_iff)
next
  case (Some rest)
  then have "target = resolved_path e @ rest" by (simp add: strip_prefix_Some)
  with Some show ?thesis
    by (cases rest) (auto simp: metadata_child_def starts_with_iff metadata_path_name_Some)
qed

lemma metadata_child_of_writable_root_Some:
  assumes "metadata_child_of_writable_root env policy target cwd = Some (protected, n)"
  obtains e where "e \<in> set (resolved_entries_with_cwd env policy cwd)" "resolved_access e = Write"
    "n \<in> set PROTECTED_METADATA_PATH_NAMES" "protected = resolved_path e @ [n]" "starts_with target protected"
  using first_of_in [OF assms [unfolded metadata_child_of_writable_root_def]]
  by (auto simp: set_map_filter_iff metadata_child_Some can_write_def)

lemma metadata_child_of_writable_root_None:
  "metadata_child_of_writable_root env policy target cwd = None \<longleftrightarrow>
   (\<forall>e \<in> set (resolved_entries_with_cwd env policy cwd). resolved_access e = Write \<longrightarrow>
      (\<forall>n \<in> set PROTECTED_METADATA_PATH_NAMES. \<not> starts_with target (resolved_path e @ [n])))"
proof -
  have none: "List.map_filter f xs = [] \<longleftrightarrow> (\<forall>x \<in> set xs. f x = None)" for f :: "resolved_entry \<Rightarrow> (abs_path \<times> string) option" and xs
    by (induction xs) (auto simp: List.map_filter_simps split: option.splits)
  have "metadata_child env target e = None \<longleftrightarrow>
      (\<forall>n \<in> set PROTECTED_METADATA_PATH_NAMES. \<not> starts_with target (resolved_path e @ [n]))" for e
  proof -
    have "metadata_child env target e = None \<longleftrightarrow> (\<forall>protected n. metadata_child env target e \<noteq> Some (protected, n))"
      by (cases "metadata_child env target e") auto
    then show ?thesis by (auto simp: metadata_child_Some)
  qed
  then show ?thesis by (auto simp: metadata_child_of_writable_root_def none can_write_def)
qed

lemma explicit_write_entry:
  "has_explicit_write_entry_for_metadata_path env policy protected target cwd \<longleftrightarrow>
   (\<exists>g \<in> set (resolved_entries_with_cwd env policy cwd). resolved_access g = Write \<and>
      starts_with target (resolved_path g) \<and> starts_with (resolved_path g) protected)"
  by (auto simp: has_explicit_write_entry_for_metadata_path_def list_ex_iff can_write_def)

subsection \<open>Adding entries\<close>

lemma access_at_append_write:
  assumes "resolved_access w = Write"
  shows "access_at es t = Write \<Longrightarrow> access_at (es @ [w]) t = Write"
    and "access_at es t \<noteq> Deny \<Longrightarrow> access_at (es @ [w]) t \<noteq> Deny"
    and "access_at (es @ [w]) t = Write \<Longrightarrow> access_at es t = Write \<or> path_covers t w"
proof -
  have step: "access_at (es @ [w]) t = access_at es t \<or> access_at (es @ [w]) t = Write" if "access_at es t \<noteq> Deny"
  proof -
    from access_at_not_Deny [OF that] obtain e where e: "decides es t e" "access_at es t = resolved_access e" by blast
    have "decides (es @ [w]) t e \<or> decides (es @ [w]) t w"
    proof (cases "path_covers t w \<and> \<not> (length (resolved_path w) < length (resolved_path e) \<or>
        resolved_path w = resolved_path e \<and> resolved_access w \<le> resolved_access e)")
      case True
      have longer: "length (resolved_path e) < length (resolved_path w) \<or>
          resolved_path e = resolved_path w \<and> resolved_access e \<le> resolved_access w"
        using True e(1) path_covers_same_length [of t e w] by (fastforce simp: decides_def)
      have "decides (es @ [w]) t w"
        unfolding decides_def
      proof (intro conjI ballI impI)
        fix e' assume "e' \<in> set (es @ [w])" "path_covers t e'"
        then show "length (resolved_path e') < length (resolved_path w) \<or>
            resolved_path e' = resolved_path w \<and> resolved_access e' \<le> resolved_access w"
          using e(1) longer by (auto simp: decides_def dest: order_trans)
      qed (use True in auto)
      then show ?thesis ..
    next
      case False
      with e(1) have "decides (es @ [w]) t e" by (auto simp: decides_def)
      then show ?thesis ..
    qed
    then show ?thesis using e(2) assms access_at_decides by metis
  qed
  then show "access_at es t = Write \<Longrightarrow> access_at (es @ [w]) t = Write"
    and "access_at es t \<noteq> Deny \<Longrightarrow> access_at (es @ [w]) t \<noteq> Deny"
    by auto
  assume after: "access_at (es @ [w]) t = Write"
  have "access_at (es @ [w]) t = access_at es t" if "\<not> path_covers t w"
    using that by (simp add: access_at_def)
  with after show "access_at es t = Write \<or> path_covers t w" by auto
qed

lemma resolved_add_entry:
  "resolved_entries_with_cwd env (add_entry policy \<lparr>entry_path = AtPath p, entry_access = a\<rparr>) cwd =
   resolved_entries_with_cwd env policy cwd @ [\<lparr>resolved_path = p, resolved_access = a\<rparr>]"
  by (simp add: resolved_entries_with_cwd_def add_entry_def List.map_filter_def resolve_entry_def
      resolve_entry_path_def resolve_file_system_path_def)

lemma writable_roots_loop_kind [simp]: "policy_kind (writable_roots_loop env cwd roots policy) = policy_kind policy"
  by (induction env cwd roots policy rule: writable_roots_loop.induct) (simp_all add: add_entry_def)

lemma writable_roots_loop_access:
  assumes "policy_kind policy = Restricted"
  shows "(access_at (resolved_entries_with_cwd env policy cwd) t = Write \<longrightarrow>
      access_at (resolved_entries_with_cwd env (writable_roots_loop env cwd roots policy) cwd) t = Write) \<and>
    (access_at (resolved_entries_with_cwd env policy cwd) t \<noteq> Deny \<longrightarrow>
      access_at (resolved_entries_with_cwd env (writable_roots_loop env cwd roots policy) cwd) t \<noteq> Deny) \<and>
    (access_at (resolved_entries_with_cwd env (writable_roots_loop env cwd roots policy) cwd) t = Write \<longrightarrow>
      access_at (resolved_entries_with_cwd env policy cwd) t = Write \<or> (\<exists>r \<in> set roots. starts_with t r))"
  using assms
proof (induction env cwd roots policy rule: writable_roots_loop.induct)
  case (2 env cwd p ps policy)
  let ?w = "\<lparr>resolved_path = p, resolved_access = Write\<rparr>" and ?new = "add_entry policy \<lparr>entry_path = AtPath p, entry_access = Write\<rparr>"
  have "policy_kind ?new = Restricted" using "2.prems" by (simp add: add_entry_def)
  moreover note access_at_append_write [of ?w "resolved_entries_with_cwd env policy cwd" t]
  ultimately show ?case
    using 2 by (cases "can_write_path_with_cwd env policy (path_text p) cwd")
      (auto simp: resolved_add_entry path_covers_def)
qed simp

lemma metadata_needs_own_entry:
  assumes "can_write_path_with_cwd env policy p cwd" and "\<not> has_full_disk_write_access policy"
    and "resolve_candidate_path env p cwd = Some t"
    and "e \<in> set (resolved_entries_with_cwd env policy cwd)" "resolved_access e = Write"
    and "n \<in> set PROTECTED_METADATA_PATH_NAMES" and "starts_with t (resolved_path e @ [n])"
  shows "\<exists>f \<in> set (resolved_entries_with_cwd env policy cwd). \<exists>g \<in> set (resolved_entries_with_cwd env policy cwd).
    \<exists>m \<in> set PROTECTED_METADATA_PATH_NAMES. resolved_access f = Write \<and> resolved_access g = Write \<and>
      starts_with (resolved_path g) (resolved_path f @ [m]) \<and> starts_with t (resolved_path g)"
proof -
  have kind: "policy_kind policy = Restricted" using assms(2) by (cases "policy_kind policy") (simp_all add: has_full_disk_write_access_def)
  have "metadata_child_of_writable_root env policy t cwd \<noteq> None"
    using assms(4-7) by (auto simp: metadata_child_of_writable_root_None)
  then obtain protected m where child: "metadata_child_of_writable_root env policy t cwd = Some (protected, m)" by auto
  then have "has_explicit_write_entry_for_metadata_path env policy protected t cwd"
    using assms(1-3) kind by (auto simp: can_write_path_with_cwd_def is_metadata_write_denied_def split: if_splits)
  with metadata_child_of_writable_root_Some [OF child] show ?thesis
    by (metis explicit_write_entry)
qed

subsection \<open>Properties\<close>

text \<open>
  (C15) The most specific entry decides: the access to a path is that of an entry that covers it, and
  every other entry that does is for a shorter path, or for the same path with a mode that gives way
  (deny before write before read); a path that no entry covers is denied.
\<close>

theorem most_specific_entry_decides:
  assumes "policy_kind policy = Restricted" and "resolve_candidate_path env p cwd = Some t"
  shows "(\<forall>e \<in> set (resolved_entries_with_cwd env policy cwd). \<not> starts_with t (resolved_path e)) \<and>
      resolve_access_with_cwd env policy p cwd = Deny \<or>
    (\<exists>e \<in> set (resolved_entries_with_cwd env policy cwd). starts_with t (resolved_path e) \<and>
      resolve_access_with_cwd env policy p cwd = resolved_access e \<and>
      (\<forall>e' \<in> set (resolved_entries_with_cwd env policy cwd). starts_with t (resolved_path e') \<longrightarrow>
        length (resolved_path e') < length (resolved_path e) \<or>
        resolved_path e' = resolved_path e \<and> resolved_access e' \<le> resolved_access e))"
  using resolve_access_at [OF assms]
  by (cases rule: access_at_cases [of "resolved_entries_with_cwd env policy cwd" t]) (auto simp: decides_def path_covers_def)

text \<open>
  (C16) A policy with full disk access means it: if it reports full write access every path can be
  written, and if it reports full read access every path can be read, provided \<open>/tmp\<close> is a
  directory.
\<close>

theorem full_disk_access_is_for_every_path:
  assumes "from_absolute_path env cwd = Some c" and "resolve_candidate_path env p cwd = Some t" and "path_is_dir env [''tmp'']"
  shows "(has_full_disk_write_access policy \<longrightarrow> can_write_path_with_cwd env policy p cwd) \<and>
    (has_full_disk_read_access policy \<longrightarrow> can_read_path_with_cwd env policy p cwd)"
proof (cases "policy_kind policy = Restricted")
  case True
  let ?es = "resolved_entries_with_cwd env policy cwd"
  note access = resolve_access_at [OF True assms(2)]
  have "can_write_path_with_cwd env policy p cwd" if "has_full_disk_write_access policy"
    using full_write_access_at [OF that True assms(1,3)] that access
    by (simp add: can_write_path_with_cwd_def can_write_def)
  moreover have "can_read_path_with_cwd env policy p cwd" if "has_full_disk_read_access policy"
  proof -
    from that True obtain q where q: "q \<in> set (policy_entries policy)" "entry_path q = Special Root"
      and no_deny: "\<forall>q \<in> set (policy_entries policy). entry_access q \<noteq> Deny"
      by (auto simp: has_full_disk_read_access_def has_root_access_def has_denied_read_restrictions_def list_ex_iff)
    have "\<lparr>resolved_path = [], resolved_access = entry_access q\<rparr> \<in> set ?es"
      using q assms(1) resolve_root [of env c "entry_access q"]
      by (auto simp: resolved_in resolve_entry_def intro!: bexI [OF _ q(1)])
    then have "access_at ?es t \<noteq> Deny"
    proof (cases rule: access_at_cases [of ?es t])
      case (decided e)
      then have "e \<in> set ?es" by (simp add: decides_def)
      with no_deny decided(2) show ?thesis by (auto simp: resolved_in resolve_entry_def)
    qed fastforce
    with access show ?thesis by (simp add: can_read_path_with_cwd_def can_read_def)
  qed
  ultimately show ?thesis by blast
next
  case False
  then have "resolve_access_with_cwd env policy p cwd = Write" "has_full_disk_write_access policy"
    by (auto simp: resolve_access_with_cwd_def has_full_disk_write_access_def split: file_system_sandbox_kind.split)
  then show ?thesis by (simp add: can_write_path_with_cwd_def can_read_path_with_cwd_def can_write_def can_read_def)
qed


text \<open>
  Adding writable roots only widens access, and only below the roots: what could be written or
  read before still can, and what can be written now could be before or lies below an added root.
\<close>

theorem additional_writable_roots_only_widen:
  assumes "policy_kind policy = Restricted" and "resolve_candidate_path env p cwd = Some t"
  shows "let policy' = with_additional_writable_roots env policy cwd roots;
      before = resolve_access_with_cwd env policy p cwd; after = resolve_access_with_cwd env policy' p cwd
    in (before = Write \<longrightarrow> after = Write) \<and> (can_read before \<longrightarrow> can_read after) \<and>
       (after = Write \<longrightarrow> before = Write \<or> (\<exists>r \<in> set roots. starts_with t r))"
  using writable_roots_loop_access [OF assms(1), of env cwd t roots] resolve_access_at [OF assms]
    resolve_access_at [of "writable_roots_loop env cwd roots policy" env p cwd t] assms
  by (simp add: with_additional_writable_roots_def Let_def can_read_def)

subsection \<open>A workspace, and what goes wrong\<close>

text \<open>A disk that consists of directories only, seen from the directory \<open>/w\<close>.\<close>

definition sample_env :: fs_env where
  "sample_env =
     \<lparr>home_dir = None, current_dir = Some [''w''], tmpdir_var = None, path_is_dir = (\<lambda>_. True),
      path_is_file = (\<lambda>_. False), path_exists = (\<lambda>_. True), pointer_text = (\<lambda>_. None),
      symlink_metadata = (\<lambda>_. Some False), canonicalize = Some\<rparr>"

definition sample_sandbox :: file_system_sandbox_policy where
  "sample_sandbox = restricted_policy
     [\<lparr>entry_path = Special Root, entry_access = Read\<rparr>,
      \<lparr>entry_path = Special (ProjectRoots None), entry_access = Write\<rparr>,
      \<lparr>entry_path = AtPath [''w'', ''secret''], entry_access = Deny\<rparr>,
      \<lparr>entry_path = AtPath [''w'', ''.git'', ''hooks''], entry_access = Write\<rparr>]"

lemma sample_cwd [simp]: "from_absolute_path sample_env ''/w'' = Some [''w'']"
  using from_absolute_path_text [of "[''w'']" sample_env] by (simp add: path_text_def plain_name_def)

lemma sample_kind [simp]: "policy_kind sample_sandbox = Restricted"
  by (simp add: sample_sandbox_def restricted_policy_def)

lemma sample_entries: "resolved_entries_with_cwd sample_env sample_sandbox ''/w'' =
    [\<lparr>resolved_path = [], resolved_access = Read\<rparr>, \<lparr>resolved_path = [''w''], resolved_access = Write\<rparr>,
     \<lparr>resolved_path = [''w'', ''secret''], resolved_access = Deny\<rparr>,
     \<lparr>resolved_path = [''w'', ''.git'', ''hooks''], resolved_access = Write\<rparr>]"
  by (simp add: resolved_entries_with_cwd_def sample_sandbox_def restricted_policy_def resolve_entry_def
      resolve_entry_path_def resolve_file_system_path_def resolve_file_system_special_path_def
      absolute_root_path_for_cwd_def List.map_filter_simps)

lemma sample_candidate: "list_all plain_name t \<Longrightarrow> resolve_candidate_path sample_env (path_text t) cwd = Some t"
  by (simp add: resolve_candidate_path_def)

theorem most_specific_entry_decides_witness:
  "resolve_access_with_cwd sample_env sample_sandbox ''/w/secret/x'' ''/w'' = Deny"
proof -
  have "resolve_candidate_path sample_env ''/w/secret/x'' ''/w'' = Some [''w'', ''secret'', ''x'']"
    using sample_candidate [of "[''w'', ''secret'', ''x'']" "''/w''"] by (simp add: path_text_def plain_name_def)
  from most_specific_entry_decides [OF sample_kind this] show ?thesis
    by (auto simp: sample_entries starts_with_def)
qed

theorem full_disk_access_is_for_every_path_witness:
  "can_write_path_with_cwd sample_env (restricted_policy [\<lparr>entry_path = Special Root, entry_access = Write\<rparr>]) ''/etc/x'' ''/w''"
proof -
  have "resolve_candidate_path sample_env ''/etc/x'' ''/w'' = Some [''etc'', ''x'']"
    using sample_candidate [of "[''etc'', ''x'']" "''/w''"] by (simp add: path_text_def plain_name_def)
  moreover have "path_is_dir sample_env [''tmp'']" by (simp add: sample_env_def)
  moreover have "has_full_disk_write_access (restricted_policy [\<lparr>entry_path = Special Root, entry_access = Write\<rparr>])"
    by (simp add: has_full_disk_write_access_def restricted_policy_def has_root_access_def can_write_def
        has_write_narrowing_entries_def narrows_write_def)
  ultimately show ?thesis using full_disk_access_is_for_every_path [OF sample_cwd] by blast
qed

lemma sample_not_full: "\<not> has_full_disk_write_access sample_sandbox"
  by (simp add: has_full_disk_write_access_def sample_sandbox_def restricted_policy_def has_root_access_def can_write_def)


theorem additional_writable_roots_only_widen_witness:
  "resolve_access_with_cwd sample_env (with_additional_writable_roots sample_env sample_sandbox ''/w'' [[''opt'']]) ''/etc/x'' ''/w'' \<noteq> Write"
proof -
  have t: "resolve_candidate_path sample_env ''/etc/x'' ''/w'' = Some [''etc'', ''x'']"
    using sample_candidate [of "[''etc'', ''x'']" "''/w''"] by (simp add: path_text_def plain_name_def)
  have "resolve_access_with_cwd sample_env sample_sandbox ''/etc/x'' ''/w'' = Read"
    using resolve_access_at [OF sample_kind t] access_at_decides [of _ _ "\<lparr>resolved_path = [], resolved_access = Read\<rparr>"]
    by (simp add: sample_entries decides_def path_covers_def starts_with_def)
  with additional_writable_roots_only_widen [OF sample_kind t, of "[[''opt'']]"] show ?thesis
    by (auto simp: Let_def starts_with_def)
qed

text \<open>
  Two findings. When \<open>/tmp\<close> is no directory, an entry for the special path \<open>/tmp\<close> still counts as an
  override, so a policy reports full write access although \<open>/tmp\<close> is read-only. And since only the
  first writable entry with a metadata child is looked at, the order of the entries decides whether
  metadata below a second writable entry is protected.
\<close>

lemma full_write_access_without_tmp:
  defines "env \<equiv> sample_env\<lparr>path_is_dir := (\<lambda>_. False)\<rparr>"
  defines "policy \<equiv> restricted_policy
     [\<lparr>entry_path = Special Root, entry_access = Write\<rparr>, \<lparr>entry_path = Special SlashTmp, entry_access = Write\<rparr>,
      \<lparr>entry_path = AtPath [''tmp''], entry_access = Read\<rparr>]"
  shows "has_full_disk_write_access policy \<and> \<not> can_write_path_with_cwd env policy ''/tmp/x'' ''/w''"
  unfolding assms by code_simp

lemma order_of_entries_matters:
  defines "a \<equiv> \<lparr>entry_path = AtPath [''w''], entry_access = Write\<rparr>"
  defines "b \<equiv> \<lparr>entry_path = AtPath [''w'', ''.git'', ''hooks''], entry_access = Write\<rparr>"
  shows "can_write_path_with_cwd sample_env (restricted_policy [a, b]) ''/w/.git/hooks/.codex/x'' ''/w'' \<and>
    \<not> can_write_path_with_cwd sample_env (restricted_policy [b, a]) ''/w/.git/hooks/.codex/x'' ''/w''"
  unfolding assms by code_simp

end
