(* ===== verification/Writable_Roots.thy ===== *)
theory Writable_Roots
  imports File_Permissions
begin

section \<open>Roots for the sandbox\<close>

text \<open>
  The rest of \<open>codex-rs/protocol/src/permissions.rs\<close>: the policy of a workspace, and the readable,
  writable and unreadable roots that a policy is handed to the platform sandbox as; with
  \<open>WritableRoot\<close> of \<open>protocol/src/protocol.rs\<close> and \<open>canonicalize_preserving_symlinks\<close> of
  \<open>utils/absolute-path/src/lib.rs\<close>.
\<close>

subsection \<open>Symbolic links\<close>

definition should_preserve_logical_path :: "fs_env \<Rightarrow> abs_path \<Rightarrow> bool" where
  "should_preserve_logical_path env logical \<longleftrightarrow>
     list_ex (\<lambda>ancestor. case symlink_metadata env ancestor of
         None \<Rightarrow> False
       | Some symlink \<Rightarrow> symlink \<and> Option.bind (abs_parent ancestor) abs_parent \<noteq> None) (abs_ancestors logical)"

definition canonicalize_preserving_symlinks :: "fs_env \<Rightarrow> abs_path \<Rightarrow> abs_path" where
  "canonicalize_preserving_symlinks env logical =
     (let preserve_logical_path = should_preserve_logical_path env logical in
      case canonicalize env logical of
        Some canonical \<Rightarrow> if preserve_logical_path \<and> canonical \<noteq> logical then logical else canonical
      | None \<Rightarrow> logical)"

text \<open>The first ancestor that is there is normalised, and what lies below it is appended.\<close>

fun normalize_effective_loop :: "fs_env \<Rightarrow> abs_path \<Rightarrow> abs_path list \<Rightarrow> abs_path" where
  "normalize_effective_loop env raw_path [] = raw_path"
| "normalize_effective_loop env raw_path (ancestor # rest) =
     (if symlink_metadata env ancestor = None then normalize_effective_loop env raw_path rest
      else canonicalize_preserving_symlinks env ancestor @ drop (length ancestor) raw_path)"

definition normalize_effective_absolute_path :: "fs_env \<Rightarrow> abs_path \<Rightarrow> abs_path" where
  "normalize_effective_absolute_path env p = normalize_effective_loop env p (abs_ancestors p)"

fun dedup_loop :: "fs_env \<Rightarrow> bool \<Rightarrow> abs_path list \<Rightarrow> abs_path list \<Rightarrow> abs_path list" where
  "dedup_loop env normalize_effective_paths [] seen = []"
| "dedup_loop env normalize_effective_paths (p # ps) seen =
     (let dedup_path = (if normalize_effective_paths then normalize_effective_absolute_path env p else p)
      in if dedup_path \<in> set seen then dedup_loop env normalize_effective_paths ps seen
         else dedup_path # dedup_loop env normalize_effective_paths ps (dedup_path # seen))"

definition dedup_absolute_paths :: "fs_env \<Rightarrow> abs_path list \<Rightarrow> bool \<Rightarrow> abs_path list" where
  "dedup_absolute_paths env paths normalize_effective_paths = dedup_loop env normalize_effective_paths paths []"

subsection \<open>Protected subpaths\<close>

definition is_git_pointer_file :: "fs_env \<Rightarrow> abs_path \<Rightarrow> bool" where
  "is_git_pointer_file env p \<longleftrightarrow> path_is_file env p \<and> p \<noteq> [] \<and> last p = ''.git''"

text \<open>\<open>split_once\<close> at a colon.\<close>

fun split_once_colon :: "string \<Rightarrow> (string \<times> string) option" where
  "split_once_colon [] = None"
| "split_once_colon (c # s) =
     (if c = CHR '':'' then Some ([], s) else map_option (\<lambda>(before, after). (c # before, after)) (split_once_colon s))"

definition resolve_gitdir_from_file :: "fs_env \<Rightarrow> abs_path \<Rightarrow> abs_path option" where
  "resolve_gitdir_from_file env dot_git =
     (case pointer_text env dot_git of
        None \<Rightarrow> None
      | Some contents \<Rightarrow>
          (case split_once_colon (trim contents) of
             None \<Rightarrow> None
           | Some (prefix, gitdir_raw) \<Rightarrow>
               if trim prefix \<noteq> ''gitdir'' then None
               else if trim gitdir_raw = [] then None
               else (case abs_parent dot_git of
                       None \<Rightarrow> None
                     | Some base \<Rightarrow>
                         (let gitdir_path = abs_resolve_path_against_base env (trim gitdir_raw) base
                          in if path_exists env gitdir_path then Some gitdir_path else None))))"

definition default_read_only_subpaths_for_writable_root :: "fs_env \<Rightarrow> abs_path \<Rightarrow> bool \<Rightarrow> abs_path list" where
  "default_read_only_subpaths_for_writable_root env writable_root protect_missing_dot_codex =
     (let top_level_git = abs_join env writable_root ''.git'';
          top_level_git_is_file = path_is_file env top_level_git;
          top_level_git_is_dir = path_is_dir env top_level_git;
          gitdirs = (if top_level_git_is_file \<and> is_git_pointer_file env top_level_git
                     then (case resolve_gitdir_from_file env top_level_git of Some gitdir \<Rightarrow> [gitdir] | None \<Rightarrow> [])
                     else []);
          git = (if top_level_git_is_dir \<or> top_level_git_is_file then gitdirs @ [top_level_git] else []);
          top_level_agents = abs_join env writable_root ''.agents'';
          agents = (if path_is_dir env top_level_agents then [top_level_agents] else []);
          top_level_codex = abs_join env writable_root ''.codex'';
          codex = (if protect_missing_dot_codex \<or> path_is_dir env top_level_codex then [top_level_codex] else [])
      in dedup_absolute_paths env (git @ agents @ codex) False)"

definition append_default_read_only_entry_if_no_explicit_rule ::
    "sandbox_entry list \<Rightarrow> file_system_path \<Rightarrow> sandbox_entry list" where
  "append_default_read_only_entry_if_no_explicit_rule entries p =
     (if list_ex (\<lambda>entry. file_system_paths_share_target (entry_path entry) p) entries then entries
      else entries @ [\<lparr>entry_path = p, entry_access = Read\<rparr>])"

definition append_default_read_only_project_root_subpath_if_no_explicit_rule ::
    "sandbox_entry list \<Rightarrow> string \<Rightarrow> sandbox_entry list" where
  "append_default_read_only_project_root_subpath_if_no_explicit_rule entries subpath =
     append_default_read_only_entry_if_no_explicit_rule entries (Special (ProjectRoots (Some subpath)))"

definition append_default_read_only_path_if_no_explicit_rule ::
    "sandbox_entry list \<Rightarrow> abs_path \<Rightarrow> sandbox_entry list" where
  "append_default_read_only_path_if_no_explicit_rule entries p =
     append_default_read_only_entry_if_no_explicit_rule entries (AtPath p)"

definition protect_subpaths :: "fs_env \<Rightarrow> abs_path list \<Rightarrow> sandbox_entry list \<Rightarrow> sandbox_entry list" where
  "protect_subpaths env writable_roots entries =
     fold (\<lambda>writable_root entries.
         fold (\<lambda>protected_path entries. append_default_read_only_path_if_no_explicit_rule entries protected_path)
           (default_read_only_subpaths_for_writable_root env writable_root False) entries)
       writable_roots entries"

definition workspace_write :: "fs_env \<Rightarrow> abs_path list \<Rightarrow> bool \<Rightarrow> bool \<Rightarrow> file_system_sandbox_policy" where
  "workspace_write env writable_roots exclude_tmpdir_env_var exclude_slash_tmp =
     (let entries =
            [\<lparr>entry_path = Special Root, entry_access = Read\<rparr>,
             \<lparr>entry_path = Special (ProjectRoots None), entry_access = Write\<rparr>] @
            (if \<not> exclude_slash_tmp then [\<lparr>entry_path = Special SlashTmp, entry_access = Write\<rparr>] else []) @
            (if \<not> exclude_tmpdir_env_var then [\<lparr>entry_path = Special Tmpdir, entry_access = Write\<rparr>] else []) @
            map (\<lambda>p. \<lparr>entry_path = AtPath p, entry_access = Write\<rparr>) writable_roots;
          entries = append_default_read_only_project_root_subpath_if_no_explicit_rule entries ''.git'';
          entries = append_default_read_only_project_root_subpath_if_no_explicit_rule entries ''.agents'';
          entries = append_default_read_only_project_root_subpath_if_no_explicit_rule entries ''.codex''
      in restricted_policy (protect_subpaths env writable_roots entries))"

definition with_additional_legacy_workspace_writable_roots ::
    "fs_env \<Rightarrow> file_system_sandbox_policy \<Rightarrow> abs_path list \<Rightarrow> file_system_sandbox_policy" where
  "with_additional_legacy_workspace_writable_roots env policy additional_writable_roots =
     (if policy_kind policy \<noteq> Restricted then policy
      else policy\<lparr>policy_entries :=
        fold (\<lambda>p entries.
            protect_subpaths env [p]
              (if list_ex (\<lambda>entry. can_write (entry_access entry) \<and> entry_path entry = AtPath p) entries then entries
               else entries @ [\<lparr>entry_path = AtPath p, entry_access = Write\<rparr>]))
          additional_writable_roots (policy_entries policy)\<rparr>)"

subsection \<open>Roots\<close>

record writable_root =
  wr_root :: abs_path
  read_only_subpaths :: "abs_path list"
  protected_metadata_names :: "string list"

definition path_contains_protected_metadata_name :: "writable_root \<Rightarrow> abs_path \<Rightarrow> bool" where
  "path_contains_protected_metadata_name wr p =
     (case strip_prefix (wr_root wr) p of
        None \<Rightarrow> False
      | Some [] \<Rightarrow> False
      | Some (first_component # _) \<Rightarrow> list_ex (\<lambda>name. first_component = name) (protected_metadata_names wr))"

definition is_path_writable :: "writable_root \<Rightarrow> abs_path \<Rightarrow> bool" where
  "is_path_writable wr p =
     (if \<not> starts_with p (wr_root wr) then False
      else if list_ex (\<lambda>subpath. starts_with p subpath) (read_only_subpaths wr) then False
      else if path_contains_protected_metadata_name wr p then False
      else True)"

definition get_readable_roots_with_cwd :: "fs_env \<Rightarrow> file_system_sandbox_policy \<Rightarrow> string \<Rightarrow> abs_path list" where
  "get_readable_roots_with_cwd env policy cwd =
     (if has_full_disk_read_access policy then []
      else dedup_absolute_paths env
             (map resolved_path
               (filter (\<lambda>entry. can_read_path_with_cwd env policy (path_text (resolved_path entry)) cwd)
                 (filter (\<lambda>entry. can_read (resolved_access entry)) (resolved_entries_with_cwd env policy cwd)))) True)"

definition get_unreadable_roots_with_cwd :: "fs_env \<Rightarrow> file_system_sandbox_policy \<Rightarrow> string \<Rightarrow> abs_path list" where
  "get_unreadable_roots_with_cwd env policy cwd =
     (if policy_kind policy \<noteq> Restricted then []
      else (let root = map_option absolute_root_path_for_cwd (from_absolute_path env cwd)
            in dedup_absolute_paths env
                 (map resolved_path
                   (filter (\<lambda>entry. root \<noteq> Some (resolved_path entry))
                     (filter (\<lambda>entry. \<not> can_read_path_with_cwd env policy (path_text (resolved_path entry)) cwd)
                       (filter (\<lambda>entry. resolved_access entry = Deny) (resolved_entries_with_cwd env policy cwd))))) True))"

definition protected_metadata_names_for_writable_root ::
    "fs_env \<Rightarrow> file_system_sandbox_policy \<Rightarrow> abs_path \<Rightarrow> abs_path list \<Rightarrow> string \<Rightarrow> string list" where
  "protected_metadata_names_for_writable_root env policy root raw_writable_roots cwd =
     filter (\<lambda>metadata_name.
         list_all (\<lambda>metadata_path. \<not> can_write_path_with_cwd env policy (path_text metadata_path) cwd)
           (abs_join env root metadata_name # map (\<lambda>raw_root. abs_join env raw_root metadata_name) raw_writable_roots))
       PROTECTED_METADATA_PATH_NAMES"

definition has_explicit_resolved_path_entry :: "resolved_entry list \<Rightarrow> abs_path \<Rightarrow> bool" where
  "has_explicit_resolved_path_entry entries p \<longleftrightarrow> list_ex (\<lambda>entry. resolved_path entry = p) entries"

text \<open>Where a path below one of the raw forms of a root lies in terms of the root.\<close>

fun rebase_carveout :: "fs_env \<Rightarrow> abs_path \<Rightarrow> abs_path \<Rightarrow> abs_path list \<Rightarrow> abs_path option" where
  "rebase_carveout env root p [] = None"
| "rebase_carveout env root p (raw_root # raw_roots) =
     (case strip_prefix raw_root p of
        None \<Rightarrow> rebase_carveout env root p raw_roots
      | Some suffix \<Rightarrow>
          if suffix = [] then rebase_carveout env root p raw_roots else Some (abs_join env root (join ''/'' suffix)))"

definition carveout :: "fs_env \<Rightarrow> abs_path \<Rightarrow> abs_path list \<Rightarrow> resolved_entry \<Rightarrow> abs_path option" where
  "carveout env root raw_writable_roots entry =
     (let effective_path = normalize_effective_absolute_path env (resolved_path entry);
          preserve_raw_carveout_paths = abs_parent root \<noteq> None;
          raw_carveout_path =
            (if preserve_raw_carveout_paths
             then if resolved_path entry = root then None
                  else if starts_with (resolved_path entry) root then Some (resolved_path entry)
                  else rebase_carveout env root (resolved_path entry) raw_writable_roots
             else None)
      in case raw_carveout_path of
           Some raw_carveout_path \<Rightarrow> Some raw_carveout_path
         | None \<Rightarrow> if effective_path = root \<or> \<not> starts_with effective_path root then None else Some effective_path)"

definition writable_root_of ::
    "fs_env \<Rightarrow> file_system_sandbox_policy \<Rightarrow> string \<Rightarrow> abs_path list \<Rightarrow> abs_path \<Rightarrow> writable_root" where
  "writable_root_of env policy cwd writable_entries root =
     (let resolved_entries = resolved_entries_with_cwd env policy cwd;
          raw_writable_roots = filter (\<lambda>p. normalize_effective_absolute_path env p = root) writable_entries;
          protect_missing_dot_codex =
            (case from_absolute_path env cwd of
               None \<Rightarrow> False
             | Some cwd \<Rightarrow> normalize_effective_absolute_path env cwd = root);
          defaults = filter (\<lambda>p. \<not> has_explicit_resolved_path_entry resolved_entries p)
            (default_read_only_subpaths_for_writable_root env root protect_missing_dot_codex);
          carveouts = List.map_filter (carveout env root raw_writable_roots)
            (filter (\<lambda>entry. \<not> can_write_path_with_cwd env policy (path_text (resolved_path entry)) cwd)
              (filter (\<lambda>entry. \<not> can_write (resolved_access entry)) resolved_entries))
      in \<lparr>wr_root = root, read_only_subpaths = dedup_absolute_paths env (defaults @ carveouts) False,
          protected_metadata_names = protected_metadata_names_for_writable_root env policy root raw_writable_roots cwd\<rparr>)"

definition writable_entries :: "fs_env \<Rightarrow> file_system_sandbox_policy \<Rightarrow> string \<Rightarrow> abs_path list" where
  "writable_entries env policy cwd =
     map resolved_path
       (filter (\<lambda>entry. can_write_path_with_cwd env policy (path_text (resolved_path entry)) cwd)
         (filter (\<lambda>entry. can_write (resolved_access entry)) (resolved_entries_with_cwd env policy cwd)))"

definition get_writable_roots_with_cwd :: "fs_env \<Rightarrow> file_system_sandbox_policy \<Rightarrow> string \<Rightarrow> writable_root list" where
  "get_writable_roots_with_cwd env policy cwd =
     (if has_full_disk_write_access policy then []
      else map (writable_root_of env policy cwd (writable_entries env policy cwd))
             (dedup_absolute_paths env (writable_entries env policy cwd) True))"

lemma starts_with_shorter:
  assumes "starts_with t a" "starts_with t b" "length a \<le> length b"
  shows "starts_with b a"
proof -
  from assms(1) obtain r where "t = a @ r" by (auto simp: starts_with_iff)
  moreover from assms(2) obtain ra where "t = b @ ra" by (auto simp: starts_with_iff)
  ultimately have "a @ r = b @ ra" by simp
  then have "a = take (length a) (b @ ra)" by (metis append_eq_conv_conj)
  then have "a = take (length a) b" using assms(3) by simp
  then show ?thesis by (metis append_take_drop_id starts_with_append)
qed

subsection \<open>The policy of a workspace\<close>

lemma append_default_mono: "x \<in> set entries \<Longrightarrow> x \<in> set (append_default_read_only_entry_if_no_explicit_rule entries p)"
  by (simp add: append_default_read_only_entry_if_no_explicit_rule_def)

lemma append_default_new:
  "x \<in> set (append_default_read_only_entry_if_no_explicit_rule entries p) \<Longrightarrow> x \<in> set entries \<or> entry_access x = Read"
  by (auto simp: append_default_read_only_entry_if_no_explicit_rule_def split: if_splits)

lemma append_project_root_subpath:
  assumes "\<forall>x \<in> set entries. \<not> file_system_paths_share_target (entry_path x) (Special (ProjectRoots (Some n)))"
  shows "append_default_read_only_project_root_subpath_if_no_explicit_rule entries n =
    entries @ [\<lparr>entry_path = Special (ProjectRoots (Some n)), entry_access = Read\<rparr>]"
  using assms by (auto simp: append_default_read_only_project_root_subpath_if_no_explicit_rule_def
      append_default_read_only_entry_if_no_explicit_rule_def list_ex_iff)

lemma protect_subpaths_mono: "x \<in> set entries \<Longrightarrow> x \<in> set (protect_subpaths env roots entries)"
proof -
  have inner: "x \<in> set entries \<Longrightarrow>
      x \<in> set (fold (\<lambda>p entries. append_default_read_only_path_if_no_explicit_rule entries p) ps entries)" for ps entries
    by (induction ps arbitrary: entries) (simp_all add: append_default_read_only_path_if_no_explicit_rule_def append_default_mono)
  show "x \<in> set entries \<Longrightarrow> x \<in> set (protect_subpaths env roots entries)"
    unfolding protect_subpaths_def by (induction roots arbitrary: entries) (simp_all add: inner)
qed

lemma protect_subpaths_new:
  "x \<in> set (protect_subpaths env roots entries) \<Longrightarrow> x \<in> set entries \<or> entry_access x = Read"
proof -
  have inner: "x \<in> set (fold (\<lambda>p entries. append_default_read_only_path_if_no_explicit_rule entries p) ps entries) \<Longrightarrow>
      x \<in> set entries \<or> entry_access x = Read" for ps entries
    by (induction ps arbitrary: entries)
      (auto simp: append_default_read_only_path_if_no_explicit_rule_def dest: append_default_new)
  show "x \<in> set (protect_subpaths env roots entries) \<Longrightarrow> x \<in> set entries \<or> entry_access x = Read"
    unfolding protect_subpaths_def by (induction roots arbitrary: entries) (auto dest: inner)
qed

definition workspace_entries :: "abs_path list \<Rightarrow> bool \<Rightarrow> bool \<Rightarrow> sandbox_entry list" where
  "workspace_entries roots exclude_tmpdir exclude_slash_tmp =
     [\<lparr>entry_path = Special Root, entry_access = Read\<rparr>, \<lparr>entry_path = Special (ProjectRoots None), entry_access = Write\<rparr>] @
     (if \<not> exclude_slash_tmp then [\<lparr>entry_path = Special SlashTmp, entry_access = Write\<rparr>] else []) @
     (if \<not> exclude_tmpdir then [\<lparr>entry_path = Special Tmpdir, entry_access = Write\<rparr>] else []) @
     map (\<lambda>p. \<lparr>entry_path = AtPath p, entry_access = Write\<rparr>) roots @
     map (\<lambda>n. \<lparr>entry_path = Special (ProjectRoots (Some n)), entry_access = Read\<rparr>) PROTECTED_METADATA_PATH_NAMES"

lemma workspace_write_entries:
  "workspace_write env roots exclude_tmpdir exclude_slash_tmp =
   restricted_policy (protect_subpaths env roots (workspace_entries roots exclude_tmpdir exclude_slash_tmp))"
  by (simp add: workspace_write_def Let_def append_project_root_subpath workspace_entries_def
      PROTECTED_METADATA_PATH_NAMES_def)

lemma workspace_write_writes:
  "x \<in> set (policy_entries (workspace_write env roots exclude_tmpdir exclude_slash_tmp)) \<Longrightarrow> entry_access x \<noteq> Read \<Longrightarrow>
   entry_access x = Write \<and>
   (entry_path x = Special (ProjectRoots None) \<or> \<not> exclude_slash_tmp \<and> entry_path x = Special SlashTmp \<or>
    \<not> exclude_tmpdir \<and> entry_path x = Special Tmpdir \<or> (\<exists>p \<in> set roots. entry_path x = AtPath p))"
  using protect_subpaths_new [of x env roots "workspace_entries roots exclude_tmpdir exclude_slash_tmp"]
  by (auto simp: workspace_write_entries restricted_policy_def workspace_entries_def split: if_splits)

text \<open>What can be written besides the workspace.\<close>

definition extra_roots :: "fs_env \<Rightarrow> abs_path list \<Rightarrow> bool \<Rightarrow> bool \<Rightarrow> abs_path list" where
  "extra_roots env roots exclude_tmpdir exclude_slash_tmp =
     roots @ (if exclude_slash_tmp then [] else [[''tmp'']]) @
     (if exclude_tmpdir then [] else
        (case tmpdir_var env of None \<Rightarrow> [] | Some d \<Rightarrow> (case from_absolute_path env d of None \<Rightarrow> [] | Some d \<Rightarrow> [d])))"

lemma workspace_write_resolved:
  assumes "from_absolute_path env cwd = Some c"
    and "e \<in> set (resolved_entries_with_cwd env (workspace_write env roots exclude_tmpdir exclude_slash_tmp) cwd)"
    and "resolved_access e \<noteq> Read"
  shows "resolved_access e = Write \<and> (resolved_path e = c \<or> resolved_path e \<in> set (extra_roots env roots exclude_tmpdir exclude_slash_tmp))"
proof -
  from assms(1,2) obtain x where x: "x \<in> set (policy_entries (workspace_write env roots exclude_tmpdir exclude_slash_tmp))"
    "resolve_entry env (Some c) x = Some e"
    by (auto simp: resolved_in)
  then have "entry_access x \<noteq> Read" using assms(3) by (auto simp: resolve_entry_def)
  from workspace_write_writes [OF x(1) this] x(2) show ?thesis
    by (auto simp: resolve_entry_def resolve_entry_path_def resolve_file_system_path_def resolve_file_system_special_path_def
        extra_roots_def split: option.splits if_splits)
qed

lemma workspace_write_not_full: "\<not> has_full_disk_write_access (workspace_write env roots exclude_tmpdir exclude_slash_tmp)"
  using workspace_write_writes [of _ env roots exclude_tmpdir exclude_slash_tmp]
  by (fastforce simp: has_full_disk_write_access_def has_root_access_def list_ex_iff can_write_def workspace_write_entries
      restricted_policy_def)

lemma workspace_write_has:
  assumes "from_absolute_path env cwd = Some c" and "x \<in> set (workspace_entries roots exclude_tmpdir exclude_slash_tmp)"
    and "resolve_entry env (Some c) x = Some e"
  shows "e \<in> set (resolved_entries_with_cwd env (workspace_write env roots exclude_tmpdir exclude_slash_tmp) cwd)"
  using assms protect_subpaths_mono [OF assms(2)]
  by (auto simp: resolved_in workspace_write_entries restricted_policy_def)

lemma resolve_subpath:
  "n \<in> set PROTECTED_METADATA_PATH_NAMES \<Longrightarrow>
   resolve_entry env (Some c) \<lparr>entry_path = Special (ProjectRoots (Some n)), entry_access = a\<rparr> =
   Some \<lparr>resolved_path = c @ [n], resolved_access = a\<rparr>"
  using metadata_join [of n env c]
  by (simp add: resolve_entry_def resolve_entry_path_def resolve_file_system_path_def resolve_file_system_special_path_def
      abs_join_def)

subsection \<open>Properties of a workspace\<close>

text \<open>
  (C18) The policy of a workspace confines writing: what can be written lies in the workspace or in
  one of the extra roots (those given, and the temporary directories unless they are excluded), and
  below the \<open>.git\<close>, \<open>.agents\<close> and \<open>.codex\<close> of the workspace only in an extra root that points there.
  Every path can be read, and without extra roots all the rest of the workspace can be written.
\<close>

theorem workspace_write_confines:
  fixes env roots exclude_tmpdir exclude_slash_tmp
  defines "policy \<equiv> workspace_write env roots exclude_tmpdir exclude_slash_tmp"
    and "extra \<equiv> extra_roots env roots exclude_tmpdir exclude_slash_tmp"
  assumes c: "from_absolute_path env cwd = Some c" and t: "resolve_candidate_path env p cwd = Some t"
  shows "(can_write_path_with_cwd env policy p cwd \<longrightarrow> starts_with t c \<or> (\<exists>r \<in> set extra. starts_with t r)) \<and>
    (\<forall>n \<in> set PROTECTED_METADATA_PATH_NAMES. can_write_path_with_cwd env policy p cwd \<and> starts_with t (c @ [n]) \<longrightarrow>
       (\<exists>r \<in> set extra. starts_with r (c @ [n]) \<and> starts_with t r)) \<and>
    can_read_path_with_cwd env policy p cwd \<and>
    (roots = [] \<and> exclude_tmpdir \<and> exclude_slash_tmp \<and> starts_with t c \<and>
       (\<forall>n \<in> set PROTECTED_METADATA_PATH_NAMES. \<not> starts_with t (c @ [n])) \<longrightarrow> can_write_path_with_cwd env policy p cwd)"
proof -
  let ?es = "resolved_entries_with_cwd env policy cwd"
  have kind: "policy_kind policy = Restricted" by (simp add: policy_def workspace_write_entries restricted_policy_def)
  note access = resolve_access_at [OF kind t]
  note written = workspace_write_resolved [OF c, of _ roots exclude_tmpdir exclude_slash_tmp, folded policy_def extra_def]
  note has = workspace_write_has [OF c, of _ roots exclude_tmpdir exclude_slash_tmp, folded policy_def]
  have decided: "\<exists>e. decides ?es t e \<and> (resolved_path e = c \<or> resolved_path e \<in> set extra)"
    if "can_write_path_with_cwd env policy p cwd"
  proof -
    from that access have w: "access_at ?es t = Write" by (auto simp: can_write_path_with_cwd_def can_write_def split: if_splits)
    then obtain e where "decides ?es t e" "resolved_access e = Write" using access_at_not_Deny [of ?es t] by auto
    moreover from this have "e \<in> set ?es" by (simp add: decides_def)
    ultimately show ?thesis using written [of e] by (intro exI [of _ e]) simp
  qed
  have inside: "starts_with t c \<or> (\<exists>r \<in> set extra. starts_with t r)" if "can_write_path_with_cwd env policy p cwd"
    using decided [OF that] by (auto simp: decides_def path_covers_def)
  have metadata: "\<exists>r \<in> set extra. starts_with r (c @ [n]) \<and> starts_with t r"
    if n: "n \<in> set PROTECTED_METADATA_PATH_NAMES" and w: "can_write_path_with_cwd env policy p cwd" and below: "starts_with t (c @ [n])" for n
  proof -
    let ?m = "\<lparr>resolved_path = c @ [n], resolved_access = Read\<rparr>"
    have "?m \<in> set ?es" using n resolve_subpath [OF n, of env c Read] by (intro has) (auto simp: workspace_entries_def)
    moreover have "path_covers t ?m" using below by (simp add: path_covers_def)
    moreover obtain e where e: "decides ?es t e" "resolved_path e = c \<or> resolved_path e \<in> set extra" using decided [OF w] by blast
    ultimately have "length (resolved_path ?m) < length (resolved_path e) \<or> resolved_path ?m = resolved_path e"
      unfolding decides_def by blast
    then have "length (c @ [n]) \<le> length (resolved_path e)"
      by (metis less_imp_le order_refl resolved_entry.select_convs(1))
    moreover have "starts_with t (resolved_path e)" using e(1) by (simp add: decides_def path_covers_def)
    ultimately have "starts_with (resolved_path e) (c @ [n])" "resolved_path e \<noteq> c"
      using starts_with_shorter [OF below] by auto
    with e \<open>starts_with t (resolved_path e)\<close> show ?thesis by blast
  qed
  have root: "\<lparr>resolved_path = [], resolved_access = Read\<rparr> \<in> set ?es"
    using resolve_root [of env c Read] by (intro has) (auto simp: workspace_entries_def)
  have "access_at ?es t \<noteq> Deny"
    using root written by (cases rule: access_at_cases [of ?es t]) (fastforce simp: decides_def)+
  then have readable: "can_read_path_with_cwd env policy p cwd" using access by (simp add: can_read_path_with_cwd_def can_read_def)
  have writable: "can_write_path_with_cwd env policy p cwd"
    if only: "roots = []" "exclude_tmpdir" "exclude_slash_tmp" and below: "starts_with t c"
      and no: "\<forall>n \<in> set PROTECTED_METADATA_PATH_NAMES. \<not> starts_with t (c @ [n])"
  proof -
    let ?c = "\<lparr>resolved_path = c, resolved_access = Write\<rparr>"
    have es: "?es = [\<lparr>resolved_path = [], resolved_access = Read\<rparr>, ?c] @
        map (\<lambda>n. \<lparr>resolved_path = c @ [n], resolved_access = Read\<rparr>) PROTECTED_METADATA_PATH_NAMES"
      using resolve_root [of env c Read] resolve_subpath [of _ env c Read] c only
      by (simp add: policy_def workspace_write_entries protect_subpaths_def restricted_policy_def workspace_entries_def
          resolved_entries_with_cwd_def List.map_filter_simps PROTECTED_METADATA_PATH_NAMES_def)
         (simp add: resolve_entry_def resolve_entry_path_def resolve_file_system_path_def resolve_file_system_special_path_def)
    have "decides ?es t ?c"
      unfolding es decides_def path_covers_def using below no by (auto simp: less_eq_access_mode_def)
    then have "resolve_access_with_cwd env policy p cwd = Write" using access access_at_decides by fastforce
    moreover have "metadata_child_of_writable_root env policy t cwd = None"
      unfolding metadata_child_of_writable_root_None es using no by auto
    ultimately show ?thesis using t by (simp add: can_write_path_with_cwd_def can_write_def is_metadata_write_denied_def)
  qed
  show ?thesis using inside metadata readable writable by blast
qed

theorem workspace_write_confines_witness:
  "can_write_path_with_cwd sample_env (workspace_write sample_env [] True True) ''/w/a'' ''/w'' \<and>
   \<not> can_write_path_with_cwd sample_env (workspace_write sample_env [] True True) ''/w/.git/config'' ''/w'' \<and>
   \<not> can_write_path_with_cwd sample_env (workspace_write sample_env [] True True) ''/etc/x'' ''/w''"
proof -
  have extra: "extra_roots sample_env [] True True = []" by (simp add: extra_roots_def)
  have t: "resolve_candidate_path sample_env ''/w/a'' ''/w'' = Some [''w'', ''a'']"
    "resolve_candidate_path sample_env ''/w/.git/config'' ''/w'' = Some [''w'', ''.git'', ''config'']"
    "resolve_candidate_path sample_env ''/etc/x'' ''/w'' = Some [''etc'', ''x'']"
    using sample_candidate [of "[''w'', ''a'']" "''/w''"] sample_candidate [of "[''w'', ''.git'', ''config'']" "''/w''"]
      sample_candidate [of "[''etc'', ''x'']" "''/w''"]
    by (simp_all add: path_text_def plain_name_def)
  note confined = workspace_write_confines [OF sample_cwd, of _ _ "[]" True True, unfolded extra]
  show ?thesis
    using confined [OF t(1)] confined [OF t(2)] confined [OF t(3)]
    by (auto simp: PROTECTED_METADATA_PATH_NAMES_def starts_with_def)
qed

subsection \<open>Roots and direct checks agree\<close>

text \<open>A disk without links in the way: what is there is its own canonical form.\<close>

definition no_links :: "fs_env \<Rightarrow> bool" where
  "no_links env \<longleftrightarrow> (\<forall>p c. canonicalize env p = Some c \<longrightarrow> c = p)"

lemma normalize_effective_id:
  assumes "no_links env"
  shows "normalize_effective_absolute_path env p = p"
proof -
  have "canonicalize_preserving_symlinks env a = a" for a
    using assms by (auto simp: canonicalize_preserving_symlinks_def no_links_def Let_def split: option.splits)
  moreover have "\<forall>a \<in> set (abs_ancestors q). \<exists>n. a = take n q" for q
  proof (induction q rule: abs_ancestors.induct)
    case (1 q)
    have self: "\<exists>n. q = take n q" by (rule exI [of _ "length q"]) simp
    have "\<exists>n. a = take n q" if "q \<noteq> []" "a \<in> set (abs_ancestors (butlast q))" for a
    proof -
      from 1 that obtain n where "a = take n (butlast q)" by blast
      then show ?thesis by (auto simp: butlast_conv_take take_take)
    qed
    with self show ?case by (subst abs_ancestors.simps) auto
  qed
  moreover have "normalize_effective_loop env p as = p" if "\<forall>a \<in> set as. \<exists>n. a = take n p" for as
    using that
  proof (induction as)
    case (Cons a as)
    then obtain n where "a = take n p" by auto
    with Cons calculation(1) show ?case by (cases "n \<le> length p") simp_all
  qed simp
  ultimately show ?thesis by (simp add: normalize_effective_absolute_path_def)
qed

lemma set_dedup_loop:
  defines "f \<equiv> (\<lambda>env norm p. if norm then normalize_effective_absolute_path env p else p)"
  shows "set (dedup_loop env norm ps seen) \<union> set seen = set (map (f env norm) ps) \<union> set seen"
proof (induction ps arbitrary: seen)
  case (Cons p ps)
  have step: "dedup_loop env norm (p # ps) seen =
      (if f env norm p \<in> set seen then dedup_loop env norm ps seen
       else f env norm p # dedup_loop env norm ps (f env norm p # seen))"
    by (simp only: dedup_loop.simps Let_def f_def)
  have "set (map (f env norm) (p # ps)) = insert (f env norm p) (set (map (f env norm) ps))" by simp
  with Cons.IH [of seen] Cons.IH [of "f env norm p # seen"] show ?case
    unfolding step set_simps by (cases "f env norm p \<in> set seen") (simp_all only: if_True if_False set_simps, blast+)
qed simp

lemma set_dedup [simp]:
  "set (dedup_absolute_paths env ps norm) = set (map (\<lambda>p. if norm then normalize_effective_absolute_path env p else p) ps)"
  using set_dedup_loop [of env norm ps "[]"] by (simp add: dedup_absolute_paths_def)

text \<open>Entries resolve to paths with plain names, and no writable entry lies below another.\<close>

definition plain_entries :: "resolved_entry list \<Rightarrow> bool" where
  "plain_entries es \<longleftrightarrow> list_all (\<lambda>e. list_all plain_name (resolved_path e)) es"

definition no_nested_writes :: "resolved_entry list \<Rightarrow> bool" where
  "no_nested_writes es \<longleftrightarrow>
     list_all (\<lambda>e. list_all (\<lambda>e'. resolved_access e = Write \<and> resolved_access e' = Write \<and>
       starts_with (resolved_path e') (resolved_path e) \<longrightarrow> resolved_path e' = resolved_path e) es) es"

lemma no_nested_writesD:
  "no_nested_writes es \<Longrightarrow> e \<in> set es \<Longrightarrow> e' \<in> set es \<Longrightarrow> resolved_access e = Write \<Longrightarrow> resolved_access e' = Write \<Longrightarrow>
   starts_with (resolved_path e') (resolved_path e) \<Longrightarrow> resolved_path e' = resolved_path e"
  by (auto simp: no_nested_writes_def list_all_iff)

text \<open>Two writable entries that cover a path are for the same path.\<close>

lemma no_nested_same:
  assumes "no_nested_writes es" "e \<in> set es" "e' \<in> set es" "resolved_access e = Write" "resolved_access e' = Write"
    and "starts_with t (resolved_path e)" "starts_with t (resolved_path e')"
  shows "resolved_path e' = resolved_path e"
proof (cases "length (resolved_path e) \<le> length (resolved_path e')")
  case True
  with starts_with_shorter [OF assms(6,7)] no_nested_writesD [OF assms(1-3)] assms(4,5) show ?thesis by blast
next
  case False
  then have "starts_with (resolved_path e) (resolved_path e')" using starts_with_shorter [OF assms(7,6)] by simp
  with no_nested_writesD [OF assms(1,3,2)] assms(4,5) show ?thesis by metis
qed

lemma decides_own_path:
  assumes "decides es t b"
  shows "decides es (resolved_path b) b"
proof -
  have "starts_with t x" if "starts_with (resolved_path b) x" for x
    using assms that by (auto simp: decides_def path_covers_def starts_with_iff)
  then show ?thesis using assms by (auto simp: decides_def path_covers_def) (auto simp: starts_with_iff)
qed

lemma candidate_text: "list_all plain_name t \<Longrightarrow> resolve_candidate_path env (path_text t) cwd = Some t"
  by (simp add: resolve_candidate_path_def)

text \<open>Below a root that is handed out, an entry that does not allow writing is carved out.\<close>

lemma carved_out:
  assumes "no_links env" and "policy_kind policy = Restricted" and plain: "plain_entries (resolved_entries_with_cwd env policy cwd)"
    and "decides (resolved_entries_with_cwd env policy cwd) t b" "resolved_access b \<noteq> Write"
    and "starts_with (resolved_path b) root" "resolved_path b \<noteq> root"
  shows "resolved_path b \<in> set (read_only_subpaths (writable_root_of env policy cwd roots root))"
proof -
  let ?es = "resolved_entries_with_cwd env policy cwd"
  have b: "b \<in> set ?es" using assms(4) by (simp add: decides_def)
  with plain have "list_all plain_name (resolved_path b)" by (auto simp: plain_entries_def list_all_iff)
  note t = candidate_text [OF this, of env cwd]
  have "access_at ?es (resolved_path b) = resolved_access b"
    using access_at_decides [OF decides_own_path [OF assms(4)]] .
  with resolve_access_at [OF assms(2) t] assms(5)
  have "\<not> can_write_path_with_cwd env policy (path_text (resolved_path b)) cwd"
    by (simp add: can_write_path_with_cwd_def can_write_def)
  moreover have "carveout env root rs b = Some (resolved_path b)" for rs
    using assms(6,7) normalize_effective_id [OF assms(1)]
    by (auto simp: carveout_def Let_def abs_parent_def)
  ultimately show ?thesis
    using b assms(5) by (auto simp: writable_root_of_def Let_def set_map_filter_iff can_write_def intro!: bexI [of _ b])
qed

lemma root_metadata_protected:
  assumes "no_links env" "policy_kind policy = Restricted" "\<not> has_full_disk_write_access policy"
    and nested: "no_nested_writes (resolved_entries_with_cwd env policy cwd)"
    and e: "e \<in> set (resolved_entries_with_cwd env policy cwd)" "resolved_access e = Write" "list_all plain_name (resolved_path e)"
    and n: "n \<in> set PROTECTED_METADATA_PATH_NAMES"
  shows "n \<in> set (protected_metadata_names (writable_root_of env policy cwd roots (resolved_path e)))"
proof -
  let ?es = "resolved_entries_with_cwd env policy cwd" and ?t = "resolved_path e @ [n]"
  have "list_all plain_name ?t" using e(3) n by (auto simp: PROTECTED_METADATA_PATH_NAMES_def plain_name_def)
  note t = candidate_text [OF this, of env cwd]
  have "\<not> can_write_path_with_cwd env policy (path_text ?t) cwd"
  proof
    assume "can_write_path_with_cwd env policy (path_text ?t) cwd"
    moreover have "starts_with ?t (resolved_path e @ [n])" by (simp add: starts_with_iff)
    ultimately obtain f g m where f: "f \<in> set ?es" "resolved_access f = Write" and g: "g \<in> set ?es" "resolved_access g = Write"
      and below: "starts_with (resolved_path g) (resolved_path f @ [m])" "starts_with ?t (resolved_path g)"
      using metadata_needs_own_entry [OF _ assms(3) t e(1,2) n] by blast
    from below have "starts_with (resolved_path g) (resolved_path f)" "resolved_path g \<noteq> resolved_path f"
      by (auto simp: starts_with_iff)
    with no_nested_writesD [OF nested f(1) g(1) f(2) g(2)] show False by simp
  qed
  then show ?thesis
    using n normalize_effective_id [OF assms(1)]
    by (auto simp: writable_root_of_def Let_def protected_metadata_names_for_writable_root_def list_all_iff)
qed

subsection \<open>The property\<close>

text \<open>
  (C19) What the platform sandbox is told agrees with the direct checks: on a disk without links in
  the way, and when no writable entry lies below another, a path that one of the writable roots
  allows is a path that \<open>can_write_path_with_cwd\<close> allows.
\<close>

theorem writable_roots_are_sound:
  assumes "no_links env" and "policy_kind policy = Restricted"
    and "plain_entries (resolved_entries_with_cwd env policy cwd)" and "no_nested_writes (resolved_entries_with_cwd env policy cwd)"
    and "wr \<in> set (get_writable_roots_with_cwd env policy cwd)" and "is_path_writable wr t" and "list_all plain_name t"
  shows "can_write_path_with_cwd env policy (path_text t) cwd"
proof -
  let ?es = "resolved_entries_with_cwd env policy cwd" and ?roots = "writable_entries env policy cwd"
  from assms(5) have full: "\<not> has_full_disk_write_access policy" by (auto simp: get_writable_roots_with_cwd_def split: if_splits)
  with assms(5) obtain root where wr: "wr = writable_root_of env policy cwd ?roots root" "root \<in> set ?roots"
    by (auto simp: get_writable_roots_with_cwd_def normalize_effective_id [OF assms(1)])
  then obtain e where e: "e \<in> set ?es" "resolved_access e = Write" "resolved_path e = root"
    and root_ok: "can_write_path_with_cwd env policy (path_text root) cwd"
    by (auto simp: writable_entries_def can_write_def)
  have wr_root: "wr_root wr = root" by (simp add: wr writable_root_of_def Let_def)
  have allowed: "starts_with t root" "\<And>s. s \<in> set (read_only_subpaths wr) \<Longrightarrow> \<not> starts_with t s"
    "\<not> path_contains_protected_metadata_name wr t"
    using assms(6) wr_root by (auto simp: is_path_writable_def list_ex_iff split: if_splits)
  have plain_root: "list_all plain_name root" using assms(3) e(1,3) by (auto simp: plain_entries_def list_all_iff)
  note t = candidate_text [OF assms(7), of env cwd] and root = candidate_text [OF plain_root, of env cwd]
  note access = resolve_access_at [OF assms(2) t] and root_access = resolve_access_at [OF assms(2) root]
  have "path_covers t e" using allowed(1) e(3) by (simp add: path_covers_def)
  then obtain b where b: "decides ?es t b" "access_at ?es t = resolved_access b"
    using e(1) by (cases rule: access_at_cases [of ?es t]) auto
  have deep: "length root \<le> length (resolved_path b)" "resolved_path b = root \<Longrightarrow> resolved_access e \<le> resolved_access b"
    using b(1) e(1,3) \<open>path_covers t e\<close> by (auto simp: decides_def)
  have below: "starts_with (resolved_path b) root"
    using starts_with_shorter [OF allowed(1) _ deep(1)] b(1) by (simp add: decides_def path_covers_def)
  have "resolved_access b = Write"
  proof (rule ccontr)
    assume no: "resolved_access b \<noteq> Write"
    show False
    proof (cases "resolved_path b = root")
      case True
      with decides_own_path [OF b(1)] have "access_at ?es root = resolved_access b" using access_at_decides by metis
      with root_ok root_access no show False by (auto simp: can_write_path_with_cwd_def can_write_def split: if_splits)
    next
      case False
      from carved_out [OF assms(1-3) b(1) no below False, of ?roots] allowed(2) b(1) show False
        by (auto simp: wr(1) decides_def path_covers_def)
    qed
  qed
  then have write_access: "can_write (resolve_access_with_cwd env policy (path_text t) cwd)"
    using access b(2) by (simp add: can_write_def)
  have "\<not> is_metadata_write_denied env policy (path_text t) cwd"
  proof
    assume "is_metadata_write_denied env policy (path_text t) cwd"
    then obtain protected n where "metadata_child_of_writable_root env policy t cwd = Some (protected, n)"
      using assms(2) t by (auto simp: is_metadata_write_denied_def split: option.splits)
    from metadata_child_of_writable_root_Some [OF this] obtain f where f: "f \<in> set ?es" "resolved_access f = Write"
      "n \<in> set PROTECTED_METADATA_PATH_NAMES" "starts_with t (resolved_path f @ [n])" by metis
    then have "starts_with t (resolved_path f)" by (auto simp: starts_with_iff)
    with no_nested_same [OF assms(4) e(1) f(1) e(2) f(2)] allowed(1) e(3) have "resolved_path f = root" by simp
    moreover have "n \<in> set (protected_metadata_names wr)"
      using root_metadata_protected [OF assms(1,2) full assms(4) e(1,2) _ f(3)] plain_root e(3) wr(1) by simp
    ultimately show False
      using allowed(3) f(4) wr_root by (auto simp: path_contains_protected_metadata_name_def starts_with_iff list_ex_iff)
  qed
  with write_access full show ?thesis by (simp add: can_write_path_with_cwd_def)
qed

theorem writable_roots_are_sound_witness:
  "is_path_writable (hd (get_writable_roots_with_cwd sample_env (workspace_write sample_env [] True True) ''/w'')) [''w'', ''a''] \<and>
   can_write_path_with_cwd sample_env (workspace_write sample_env [] True True) (path_text [''w'', ''a'']) ''/w''"
proof -
  let ?p = "workspace_write sample_env [] True True"
  have "no_links sample_env" by (simp add: no_links_def sample_env_def)
  moreover have "policy_kind ?p = Restricted" by (simp add: workspace_write_entries restricted_policy_def)
  moreover have "plain_entries (resolved_entries_with_cwd sample_env ?p ''/w'')" by code_simp
  moreover have "no_nested_writes (resolved_entries_with_cwd sample_env ?p ''/w'')" by code_simp
  moreover have "get_writable_roots_with_cwd sample_env ?p ''/w'' \<noteq> []" by code_simp
  then have "hd (get_writable_roots_with_cwd sample_env ?p ''/w'') \<in> set (get_writable_roots_with_cwd sample_env ?p ''/w'')"
    by (rule hd_in_set)
  moreover have writable: "is_path_writable (hd (get_writable_roots_with_cwd sample_env ?p ''/w'')) [''w'', ''a'']" by code_simp
  moreover have "list_all plain_name [''w'', ''a'']" by (simp add: plain_name_def)
  ultimately have "can_write_path_with_cwd sample_env ?p (path_text [''w'', ''a'']) ''/w''"
    by (rule writable_roots_are_sound)
  with writable show ?thesis by blast
qed

text \<open>
  With one writable root below another the agreement fails: the outer root does not know the
  metadata of the inner one. And contrary to the comment on \<open>WritableRoot\<close>, a read-only subpath need
  not lie under its root: a \<open>.git\<close> file can point anywhere.
\<close>

lemma nested_root_opens_metadata:
  defines "policy \<equiv> restricted_policy
     [\<lparr>entry_path = Special Root, entry_access = Read\<rparr>, \<lparr>entry_path = AtPath [''w''], entry_access = Write\<rparr>,
      \<lparr>entry_path = AtPath [''w'', ''sub''], entry_access = Write\<rparr>]"
  shows "list_ex (\<lambda>wr. is_path_writable wr [''w'', ''sub'', ''.git'', ''config'']) (get_writable_roots_with_cwd sample_env policy ''/w'') \<and>
    \<not> can_write_path_with_cwd sample_env policy ''/w/sub/.git/config'' ''/w''"
  unfolding assms by code_simp

lemma read_only_subpath_outside_root:
  defines "env \<equiv> sample_env\<lparr>path_is_file := (\<lambda>p. p = [''w'', ''.git'']), pointer_text := (\<lambda>_. Some ''gitdir: /repo/.git/worktrees/w'')\<rparr>"
  shows "list_ex (\<lambda>wr. list_ex (\<lambda>s. \<not> starts_with s (wr_root wr)) (read_only_subpaths wr))
    (get_writable_roots_with_cwd env (workspace_write env [] True True) ''/w'')"
  unfolding assms by code_simp

end
