(* ===== verification/Patch_Invocation.thy ===== *)
theory Patch_Invocation
  imports Direct_Fs Command_Safety "HOL-Library.AList"
begin

section \<open>From a command to a patch\<close>

text \<open>
  \<open>codex-rs/apply-patch/src/invocation.rs\<close>: whether a command calls \<open>apply_patch\<close>, and what the
  patch would change, which is what the user is shown and what is assessed before it runs. The
  types come from \<open>apply-patch/src/lib.rs\<close>. The tree-sitter query over a bash script and the
  unified diff are parameters.
\<close>

subsection \<open>Which shell\<close>

datatype apply_patch_shell = UnixShell | PowerShellHost | CmdShell

datatype extract_heredoc_error =
    CommandDidNotStartWithApplyPatch
  | FailedToLoadBashGrammar string
  | HeredocNotUtf8
  | FailedToParsePatchIntoAst
  | FailedToFindHeredocBody

datatype maybe_apply_patch =
    Body apply_patch_args
  | ShellParseError extract_heredoc_error
  | PatchParseError parse_error
  | NotApplyPatch

definition APPLY_PATCH_COMMANDS :: "string list" where
  "APPLY_PATCH_COMMANDS = [''apply_patch'', ''applypatch'']"

definition classify_shell_name :: "string \<Rightarrow> string option" where
  "classify_shell_name shell = map_option str_lower (file_stem shell)"

definition classify_shell :: "string \<Rightarrow> string \<Rightarrow> apply_patch_shell option" where
  "classify_shell shell flag =
     (case classify_shell_name shell of
        None \<Rightarrow> None
      | Some name \<Rightarrow>
          if name \<in> {''bash'', ''zsh'', ''sh''} \<and> flag \<in> {''-lc'', ''-c''} then Some UnixShell
          else if name \<in> {''pwsh'', ''powershell''} \<and> eq_ignore_ascii_case flag ''-command'' then Some PowerShellHost
          else if name = ''cmd'' \<and> eq_ignore_ascii_case flag ''/c'' then Some CmdShell
          else None)"

definition can_skip_flag :: "string \<Rightarrow> string \<Rightarrow> bool" where
  "can_skip_flag shell flag =
     (case classify_shell_name shell of
        None \<Rightarrow> False
      | Some name \<Rightarrow> name \<in> {''pwsh'', ''powershell''} \<and> eq_ignore_ascii_case flag ''-noprofile'')"

definition parse_shell_script :: "string list \<Rightarrow> (apply_patch_shell \<times> string) option" where
  "parse_shell_script argv =
     (case argv of
        [shell, flag, script] \<Rightarrow> map_option (\<lambda>shell_type. (shell_type, script)) (classify_shell shell flag)
      | [shell, skip_flag, flag, script] \<Rightarrow>
          if can_skip_flag shell skip_flag
          then map_option (\<lambda>shell_type. (shell_type, script)) (classify_shell shell flag) else None
      | _ \<Rightarrow> None)"

subsection \<open>The here document\<close>

text \<open>
  What the query library answers: the grammar may not load, the parser may give up, and a match
  is a list of captures, each with its name and its text (\<open>None\<close> when that is not UTF-8).
\<close>

type_synonym capture = "string \<times> string option"

record bash_query =
  set_language :: "string + unit"
  query_matches :: "string \<Rightarrow> capture list list option"

definition trim_end_newlines :: "string \<Rightarrow> string" where
  "trim_end_newlines s = rev (dropWhile (\<lambda>c. c = CHR 0x0A) (rev s))"

text \<open>The captures of one match: the here document and the directory.\<close>

fun read_captures ::
    "capture list \<Rightarrow> string option \<Rightarrow> string option \<Rightarrow> extract_heredoc_error + (string option \<times> string option)" where
  "read_captures [] heredoc_text cd_path = Inr (heredoc_text, cd_path)"
| "read_captures ((name, t) # captures) heredoc_text cd_path =
     (if name = ''heredoc'' then
        (case t of None \<Rightarrow> Inl HeredocNotUtf8
         | Some t \<Rightarrow> read_captures captures (Some (trim_end_newlines t)) cd_path)
      else if name = ''cd_path'' then
        (case t of None \<Rightarrow> Inl HeredocNotUtf8 | Some t \<Rightarrow> read_captures captures heredoc_text (Some t))
      else if name = ''cd_raw_string'' then
        (case t of None \<Rightarrow> Inl HeredocNotUtf8
         | Some raw \<Rightarrow>
             read_captures captures heredoc_text
               (Some (case Option.bind (strip_prefix quote raw) (strip_suffix quote) of None \<Rightarrow> raw | Some s \<Rightarrow> s)))
      else read_captures captures heredoc_text cd_path)"

fun first_match :: "capture list list \<Rightarrow> extract_heredoc_error + (string \<times> string option)" where
  "first_match [] = Inl CommandDidNotStartWithApplyPatch"
| "first_match (captures # ms) =
     (case read_captures captures None None of
        Inl e \<Rightarrow> Inl e
      | Inr (Some heredoc, cd_path) \<Rightarrow> Inr (heredoc, cd_path)
      | Inr (None, _) \<Rightarrow> first_match ms)"

definition extract_apply_patch_from_bash ::
    "bash_query \<Rightarrow> string \<Rightarrow> extract_heredoc_error + (string \<times> string option)" where
  "extract_apply_patch_from_bash bash src =
     (case set_language bash of
        Inl e \<Rightarrow> Inl (FailedToLoadBashGrammar e)
      | Inr _ \<Rightarrow>
          (case query_matches bash src of
             None \<Rightarrow> Inl FailedToParsePatchIntoAst
           | Some ms \<Rightarrow> first_match ms))"

definition extract_apply_patch_from_shell ::
    "bash_query \<Rightarrow> apply_patch_shell \<Rightarrow> string \<Rightarrow> extract_heredoc_error + (string \<times> string option)" where
  "extract_apply_patch_from_shell bash shell script =
     (case shell of
        UnixShell \<Rightarrow> extract_apply_patch_from_bash bash script
      | PowerShellHost \<Rightarrow> extract_apply_patch_from_bash bash script
      | CmdShell \<Rightarrow> extract_apply_patch_from_bash bash script)"

subsection \<open>Reading the command\<close>

definition maybe_parse_shell :: "bash_query \<Rightarrow> string list \<Rightarrow> maybe_apply_patch" where
  "maybe_parse_shell bash argv =
     (case parse_shell_script argv of
        None \<Rightarrow> NotApplyPatch
      | Some (shell, script) \<Rightarrow>
          (case extract_apply_patch_from_shell bash shell script of
             Inr (body, wd) \<Rightarrow>
               (case parse_patch body of
                  Inr source \<Rightarrow> Body (source\<lparr>workdir := wd\<rparr>)
                | Inl e \<Rightarrow> PatchParseError e)
           | Inl e \<Rightarrow> if e = CommandDidNotStartWithApplyPatch then NotApplyPatch else ShellParseError e))"

definition maybe_parse_apply_patch :: "bash_query \<Rightarrow> string list \<Rightarrow> maybe_apply_patch" where
  "maybe_parse_apply_patch bash argv =
     (case argv of
        [cmd, body] \<Rightarrow>
          if cmd \<in> set APPLY_PATCH_COMMANDS
          then (case parse_patch body of Inr source \<Rightarrow> Body source | Inl e \<Rightarrow> PatchParseError e)
          else maybe_parse_shell bash argv
      | _ \<Rightarrow> maybe_parse_shell bash argv)"

subsection \<open>What the patch changes\<close>

datatype file_change =
    FileAdd string  \<comment> \<open>content\<close>
  | FileDelete string  \<comment> \<open>content\<close>
  | FileUpdate string "string option" string  \<comment> \<open>unified\_diff, move\_path, new\_content\<close>

text \<open>The hash map of changes is a list of pairs with each path once.\<close>

record apply_patch_action =
  action_changes :: "(string \<times> file_change) list"
  action_patch :: string
  action_cwd :: string

datatype maybe_apply_patch_verified =
    VerifiedBody apply_patch_action
  | VerifiedShellParseError extract_heredoc_error
  | CorrectnessError apply_patch_error
  | VerifiedNotApplyPatch
  | VerifiedPanic  \<comment> \<open>a panic while the new contents are derived\<close>

definition hunk_source :: "path_ops \<Rightarrow> string \<Rightarrow> hunk \<Rightarrow> string" where
  "hunk_source paths cwd h = resolve_path (resolve_path_against_base paths) h cwd"

text \<open>\<open>unified_diff_from_chunks\<close>: the diff as text, by the library, and the new contents.\<close>

definition unified_diff_from_chunks ::
    "(string \<Rightarrow> string \<Rightarrow> string) \<Rightarrow> 's executor_fs \<Rightarrow> 's \<Rightarrow> string \<Rightarrow> update_file_chunk list
     \<Rightarrow> apply_failure + (string \<times> string)" where
  "unified_diff_from_chunks text_diff fs s path_abs chunks =
     (case derive_new_contents_from_chunks fs s path_abs chunks of
        Inl e \<Rightarrow> Inl e
      | Inr (original_contents, new_contents) \<Rightarrow> Inr (text_diff original_contents new_contents, new_contents))"

text \<open>The change of one hunk; an error ends the loop.\<close>

definition change_of_hunk ::
    "(string \<Rightarrow> string \<Rightarrow> string) \<Rightarrow> 's executor_fs \<Rightarrow> path_ops \<Rightarrow> string \<Rightarrow> 's \<Rightarrow> hunk
     \<Rightarrow> maybe_apply_patch_verified + file_change" where
  "change_of_hunk text_diff fs paths cwd s h =
     (let p = hunk_source paths cwd h in
      case h of
        AddFile _ contents \<Rightarrow> Inr (FileAdd contents)
      | DeleteFile _ \<Rightarrow>
          (case read_file_text fs s p of
             Inr content \<Rightarrow> Inr (FileDelete content)
           | Inl e \<Rightarrow> Inl (CorrectnessError (IoFailure (''Failed to read '' @ p) e)))
      | UpdateFile _ move_path chunks \<Rightarrow>
          (case unified_diff_from_chunks text_diff fs s p chunks of
             Inr (diff, contents) \<Rightarrow>
               Inr (FileUpdate diff (map_option (\<lambda>m. resolve_path_against_base paths m cwd) move_path) contents)
           | Inl (DeriveFailure e) \<Rightarrow> Inl (CorrectnessError e)
           | Inl _ \<Rightarrow> Inl VerifiedPanic))"

fun verify_hunks ::
    "(string \<Rightarrow> string \<Rightarrow> string) \<Rightarrow> 's executor_fs \<Rightarrow> path_ops \<Rightarrow> string \<Rightarrow> 's \<Rightarrow> hunk list \<Rightarrow> (string \<times> file_change) list
     \<Rightarrow> maybe_apply_patch_verified + (string \<times> file_change) list" where
  "verify_hunks text_diff fs paths cwd s [] acc = Inr acc"
| "verify_hunks text_diff fs paths cwd s (h # hs) acc =
     (case change_of_hunk text_diff fs paths cwd s h of
        Inl e \<Rightarrow> Inl e
      | Inr change \<Rightarrow> verify_hunks text_diff fs paths cwd s hs (AList.update (hunk_source paths cwd h) change acc))"

definition verify_apply_patch_args ::
    "(string \<Rightarrow> string \<Rightarrow> string) \<Rightarrow> 's executor_fs \<Rightarrow> path_ops \<Rightarrow> apply_patch_args \<Rightarrow> string \<Rightarrow> 's
     \<Rightarrow> maybe_apply_patch_verified" where
  "verify_apply_patch_args text_diff fs paths args cwd s =
     (let effective_cwd =
            (case workdir args of Some dir \<Rightarrow> resolve_path_against_base paths dir cwd | None \<Rightarrow> cwd)
      in case verify_hunks text_diff fs paths effective_cwd s (hunks args) [] of
           Inl e \<Rightarrow> e
         | Inr chs \<Rightarrow>
             VerifiedBody \<lparr>action_changes = chs, action_patch = patch args, action_cwd = effective_cwd\<rparr>)"

definition maybe_parse_apply_patch_verified ::
    "bash_query \<Rightarrow> (string \<Rightarrow> string \<Rightarrow> string) \<Rightarrow> 's executor_fs \<Rightarrow> path_ops \<Rightarrow> string list \<Rightarrow> string \<Rightarrow> 's
     \<Rightarrow> maybe_apply_patch_verified" where
  "maybe_parse_apply_patch_verified bash text_diff fs paths argv cwd s =
     (if (case argv of [body] \<Rightarrow> \<not> isl (parse_patch body) | _ \<Rightarrow> False)
      then CorrectnessError ImplicitInvocation
      else if (case parse_shell_script argv of Some (_, script) \<Rightarrow> \<not> isl (parse_patch script) | None \<Rightarrow> False)
      then CorrectnessError ImplicitInvocation
      else (case maybe_parse_apply_patch bash argv of
              Body args \<Rightarrow> verify_apply_patch_args text_diff fs paths args cwd s
            | ShellParseError e \<Rightarrow> VerifiedShellParseError e
            | PatchParseError e \<Rightarrow> CorrectnessError (ParseError e)
            | NotApplyPatch \<Rightarrow> VerifiedNotApplyPatch))"

subsection \<open>What is shown is what happens\<close>

text \<open>The paths a hunk writes or removes, and hunks none of whose paths meet.\<close>

definition hunk_paths :: "path_ops \<Rightarrow> string \<Rightarrow> hunk \<Rightarrow> string list" where
  "hunk_paths paths cwd h =
     hunk_source paths cwd h #
     (case h of UpdateFile _ (Some m) _ \<Rightarrow> [resolve_path_against_base paths m cwd] | _ \<Rightarrow> [])"

fun apart :: "path_ops \<Rightarrow> string \<Rightarrow> hunk list \<Rightarrow> bool" where
  "apart paths cwd [] \<longleftrightarrow> True"
| "apart paths cwd (h # hs) \<longleftrightarrow>
     list_all (\<lambda>h'. list_all (\<lambda>p. p \<notin> set (hunk_paths paths cwd h')) (hunk_paths paths cwd h)) hs \<and> apart paths cwd hs"

text \<open>A change carried out on the files.\<close>

fun carry_out :: "string \<times> file_change \<Rightarrow> files \<Rightarrow> files" where
  "carry_out (p, FileAdd c) m = m(p \<mapsto> c)"
| "carry_out (p, FileDelete _) m = m(p := None)"
| "carry_out (p, FileUpdate _ None c) m = m(p \<mapsto> c)"
| "carry_out (p, FileUpdate _ (Some d) c) m = m(d \<mapsto> c, p := None)"

lemma update_fresh: "k \<notin> fst ` set xs \<Longrightarrow> AList.update k v xs = xs @ [(k, v)]"
  by (induction xs) auto

lemma verify_hunks_distinct:
  assumes "verify_hunks td fs paths cwd s hs acc = Inr chs" and "distinct (map (hunk_source paths cwd) hs)"
    and "\<forall>h \<in> set hs. hunk_source paths cwd h \<notin> fst ` set acc"
  shows "\<exists>cs. chs = acc @ zip (map (hunk_source paths cwd) hs) cs \<and>
    list_all2 (\<lambda>h c. change_of_hunk td fs paths cwd s h = Inr c) hs cs"
  using assms
proof (induction hs arbitrary: acc)
  case (Cons h hs)
  then obtain c where c: "change_of_hunk td fs paths cwd s h = Inr c"
    and v: "verify_hunks td fs paths cwd s hs (acc @ [(hunk_source paths cwd h, c)]) = Inr chs"
    by (auto simp: update_fresh split: sum.splits)
  have "\<forall>h' \<in> set hs. hunk_source paths cwd h' \<notin> fst ` set (acc @ [(hunk_source paths cwd h, c)])"
    using Cons.prems(2,3) by (auto simp: image_iff)
  with Cons.IH [OF v] Cons.prems(2) obtain cs where
    "chs = (acc @ [(hunk_source paths cwd h, c)]) @ zip (map (hunk_source paths cwd) hs) cs"
    "list_all2 (\<lambda>h c. change_of_hunk td fs paths cwd s h = Inr c) hs cs" by auto
  with c show ?case by (intro exI [of _ "c # cs"]) simp
qed simp

lemma change_of_hunk_not_body: "change_of_hunk td fs paths cwd s h \<noteq> Inl (VerifiedBody action)"
  by (cases h) (auto simp: change_of_hunk_def Let_def split: sum.splits apply_failure.splits)

lemma verify_hunks_not_body: "verify_hunks td fs paths cwd s hs acc \<noteq> Inl (VerifiedBody action)"
  by (induction hs arbitrary: acc) (auto simp: change_of_hunk_not_body split: sum.splits)

text \<open>The changes of a verified action, one for each hunk.\<close>

lemma verified_changes:
  assumes "verify_apply_patch_args td fs paths args cwd s = VerifiedBody action"
    and "distinct (map (hunk_source paths (action_cwd action)) (hunks args))"
  obtains cs where "action_changes action = zip (map (hunk_source paths (action_cwd action)) (hunks args)) cs"
    "list_all2 (\<lambda>h c. change_of_hunk td fs paths (action_cwd action) s h = Inr c) (hunks args) cs"
proof -
  have "verify_hunks td fs paths (action_cwd action) s (hunks args) [] = Inr (action_changes action)"
    using assms(1) by (auto simp: verify_apply_patch_args_def Let_def verify_hunks_not_body split: sum.splits)
  from verify_hunks_distinct [OF this assms(2)] that show thesis by auto
qed

lemma apart_distinct: "apart paths cwd hs \<Longrightarrow> distinct (map (hunk_source paths cwd) hs)"
  by (induction hs) (auto simp: list_all_iff hunk_paths_def)

lemma hunk_change:
  assumes "apply_hunk fs paths cwd h r = (r', Inr u)" and "exact (delta r')"
  shows "\<exists>ch. changes (delta r') = changes (delta r) @ [(hunk_source paths cwd h, ch)] \<and>
    (case h of
       AddFile _ c \<Rightarrow> \<exists>ow. ch = ChangeAdd c ow
     | DeleteFile _ \<Rightarrow> \<exists>c. ch = ChangeDelete c
     | UpdateFile _ mv chunks \<Rightarrow>
         \<exists>orig ow new. derive_new_contents_from_chunks fs (fs_state r) (hunk_source paths cwd h) chunks = Inr (orig, new) \<and>
           ch = ChangeUpdate (map_option (\<lambda>m. resolve_path_against_base paths m cwd) mv) orig ow new)"
proof (cases h)
  case (AddFile p c)
  with assms(1) show ?thesis
    by (auto simp: apply_hunk_def apply_add_file_def hunk_source_def push_change_def Let_def split: prod.splits sum.splits)
next
  case (DeleteFile p)
  with assms show ?thesis
    by (auto simp: apply_hunk_def apply_delete_file_def hunk_source_def push_change_def Let_def
        split: prod.splits sum.splits option.splits if_splits)
next
  case (UpdateFile p mv chunks)
  with assms show ?thesis
    by (cases mv) (auto simp: apply_hunk_def apply_update_file_def remove_original_def hunk_source_def push_change_def Let_def
        split: prod.splits sum.splits)
qed

context text_fs
begin

lemma hunk_carried_out:
  assumes run: "apply_hunk fs paths cwd h r = (r', Inr u)" and ex: "exact (delta r')"
    and shown: "change_of_hunk td fs paths cwd s h = Inr c"
    and same: "view (fs_state r) (hunk_source paths cwd h) = view s (hunk_source paths cwd h)"
    and plain: "plain_path fs s (hunk_source paths cwd h)"
  shows "view (fs_state r') = carry_out (hunk_source paths cwd h, c) (view (fs_state r))"
proof -
  let ?p = "hunk_source paths cwd h"
  from hunk_change [OF run ex] obtain ch where ch: "changes (delta r') = changes (delta r) @ [(?p, ch)]"
    "case h of AddFile _ c \<Rightarrow> \<exists>ow. ch = ChangeAdd c ow | DeleteFile _ \<Rightarrow> \<exists>c. ch = ChangeDelete c
     | UpdateFile _ mv chunks \<Rightarrow> \<exists>orig ow new. derive_new_contents_from_chunks fs (fs_state r) ?p chunks = Inr (orig, new) \<and>
           ch = ChangeUpdate (map_option (\<lambda>m. resolve_path_against_base paths m cwd) mv) orig ow new" by blast
  from hunk_explained [OF run] ex ch(1) have e: "replay_change (?p, ch) (view (fs_state r)) = view (fs_state r')"
      "undo_change (?p, ch) (view (fs_state r')) = view (fs_state r)"
    by (auto simp: step_explained_def explains_one)
  show ?thesis
  proof (cases h)
    case (AddFile p contents)
    with ch(2) e shown show ?thesis by (auto simp: change_of_hunk_def Let_def)
  next
    case (DeleteFile p)
    with ch(2) e shown show ?thesis by (auto simp: change_of_hunk_def Let_def split: sum.splits)
  next
    case (UpdateFile p mv chunks)
    with ch(2) obtain orig ow new where new: "derive_new_contents_from_chunks fs (fs_state r) ?p chunks = Inr (orig, new)"
      and chu: "ch = ChangeUpdate (map_option (\<lambda>m. resolve_path_against_base paths m cwd) mv) orig ow new" by auto
    from UpdateFile shown obtain orig0 new0 where new0: "derive_new_contents_from_chunks fs s ?p chunks = Inr (orig0, new0)"
      and c: "c = FileUpdate (td orig0 new0) (map_option (\<lambda>m. resolve_path_against_base paths m cwd) mv) new0"
      by (auto simp: change_of_hunk_def Let_def unified_diff_from_chunks_def split: sum.splits apply_failure.splits)
    from new0 have "read_file_text fs s ?p = Inr orig0"
      by (auto simp: derive_new_contents_from_chunks_def split: sum.splits option.splits)
    with read_view [OF plain] have "view s ?p = Some orig0" by blast
    moreover have "view (fs_state r) ?p = Some orig"
    proof -
      have "undo_change (?p, ch) (view (fs_state r')) ?p = Some orig" using chu by (cases mv) simp_all
      with e(2) show ?thesis by simp
    qed
    ultimately have "orig = orig0" using same by simp
    with new new0 have "new = new0"
      by (auto simp: derive_new_contents_from_chunks_def split: sum.splits option.splits)
    with e(1) chu c show ?thesis by (cases mv) simp_all
  qed
qed

lemma carry_out_elsewhere:
  "change_of_hunk td fs paths cwd s h = Inr c \<Longrightarrow> q \<notin> set (hunk_paths paths cwd h) \<Longrightarrow>
   carry_out (hunk_source paths cwd h, c) m q = m q"
proof (cases h)
  case (UpdateFile p mv chunks)
  then show "change_of_hunk td fs paths cwd s h = Inr c \<Longrightarrow> q \<notin> set (hunk_paths paths cwd h) \<Longrightarrow> ?thesis"
    by (cases mv) (auto simp: change_of_hunk_def hunk_paths_def Let_def split: sum.splits apply_failure.splits)
qed (auto simp: change_of_hunk_def hunk_paths_def Let_def split: sum.splits)

lemma hunks_carried_out:
  assumes "apply_hunk_list fs paths cwd hs r = (r', Inr u)" and "exact (delta r')"
    and "list_all2 (\<lambda>h c. change_of_hunk td fs paths cwd s h = Inr c) hs cs" and "apart paths cwd hs"
    and "\<forall>h \<in> set hs. view (fs_state r) (hunk_source paths cwd h) = view s (hunk_source paths cwd h)"
    and "\<forall>h \<in> set hs. plain_path fs s (hunk_source paths cwd h)"
  shows "view (fs_state r') = fold carry_out (zip (map (hunk_source paths cwd) hs) cs) (view (fs_state r))"
  using assms
proof (induction hs arbitrary: r cs)
  case (Cons h hs)
  from Cons.prems(3) obtain c cs' where cs: "cs = c # cs'" "change_of_hunk td fs paths cwd s h = Inr c"
    "list_all2 (\<lambda>h c. change_of_hunk td fs paths cwd s h = Inr c) hs cs'" by (auto simp: list_all2_Cons1)
  from Cons.prems(1) obtain r1 v where h: "apply_hunk fs paths cwd h r = (r1, Inr v)"
    and rest: "apply_hunk_list fs paths cwd hs r1 = (r', Inr u)" by (auto split: prod.splits sum.splits)
  from hunks_explained [OF rest] Cons.prems(2) have ex: "exact (delta r1)" by (simp add: step_explained_def)
  have one: "view (fs_state r1) = carry_out (hunk_source paths cwd h, c) (view (fs_state r))"
    using hunk_carried_out [OF h ex cs(2)] Cons.prems(5,6) by simp
  have "\<forall>h' \<in> set hs. view (fs_state r1) (hunk_source paths cwd h') = view s (hunk_source paths cwd h')"
  proof
    fix h' assume h': "h' \<in> set hs"
    have "hunk_source paths cwd h' \<notin> set (hunk_paths paths cwd h)"
      using Cons.prems(4) h' by (auto simp: list_all_iff hunk_paths_def)
    with one carry_out_elsewhere [OF cs(2)] Cons.prems(5) h'
    show "view (fs_state r1) (hunk_source paths cwd h') = view s (hunk_source paths cwd h')" by simp
  qed
  with Cons.IH [OF rest Cons.prems(2) cs(3)] Cons.prems(4,6) one cs(1) show ?case by simp
qed simp

end

subsection \<open>Properties\<close>


definition renaming_args :: apply_patch_args where
  "renaming_args =
     \<lparr>patch = [],
      hunks = [AddFile ''new.txt'' ''fresh'',
        UpdateFile ''a.txt'' (Some ''b.txt'')
          [\<lparr>change_context = None, old_lines = [''two''], new_lines = [''2''], is_end_of_file = False\<rparr>]],
      workdir = None, environment_id = None\<rparr>"


subsection \<open>Where a patch comes from\<close>

lemma read_captures_heredoc:
  "read_captures captures h0 cd0 = Inr (Some h, cd) \<Longrightarrow>
   h0 = Some h \<or> (\<exists>t. (''heredoc'', Some t) \<in> set captures \<and> h = trim_end_newlines t)"
proof (induction captures h0 cd0 rule: read_captures.induct)
  case (2 name t captures h0 cd0)
  show ?case
  proof (cases t)
    case None
    with 2 show ?thesis by (auto split: if_splits)
  next
    case (Some t')
    with 2 show ?thesis by (auto split: if_splits)
  qed
qed simp

lemma first_match_heredoc:
  "first_match ms = Inr (h, cd) \<Longrightarrow> \<exists>captures \<in> set ms. \<exists>t. (''heredoc'', Some t) \<in> set captures \<and> h = trim_end_newlines t"
proof (induction ms)
  case (Cons captures ms)
  then show ?case
    using read_captures_heredoc [of captures None None] by (auto split: sum.splits option.splits)
qed simp

text \<open>The here document of a shell script.\<close>

definition heredoc_of :: "bash_query \<Rightarrow> string \<Rightarrow> string \<Rightarrow> bool" where
  "heredoc_of bash script body \<longleftrightarrow>
     (\<exists>ms. query_matches bash script = Some ms \<and>
        (\<exists>captures \<in> set ms. \<exists>t. (''heredoc'', Some t) \<in> set captures \<and> body = trim_end_newlines t))"

lemma extract_heredoc:
  "extract_apply_patch_from_shell bash shell script = Inr (body, wd) \<Longrightarrow> heredoc_of bash script body"
  by (cases shell)
     (auto simp: extract_apply_patch_from_shell_def extract_apply_patch_from_bash_def heredoc_of_def
       split: sum.splits option.splits dest!: first_match_heredoc)

lemma maybe_parse_shell_body:
  assumes "maybe_parse_shell bash argv = Body args"
  obtains shell script body wd source where "parse_shell_script argv = Some (shell, script)" "heredoc_of bash script body"
    "parse_patch body = Inr source" "args = source\<lparr>workdir := wd\<rparr>"
  using assms extract_heredoc
  by (fastforce simp: maybe_parse_shell_def split: option.splits prod.splits sum.splits if_splits)

text \<open>
  (C22) A patch is applied only when it is called by name: a verified action stems from a command
  of two words, \<open>apply_patch\<close> (or \<open>applypatch\<close>) and the patch, or from the here document of a
  script handed to a known shell with a known flag, where the script is not itself a patch. A
  patch on its own, or as the script, is refused.
\<close>

theorem patches_come_from_explicit_calls:
  assumes "maybe_parse_apply_patch_verified bash td fs paths argv cwd s = VerifiedBody action"
  shows "\<exists>body source. parse_patch body = Inr source \<and> action_patch action = patch source \<and>
    ((\<exists>cmd \<in> set APPLY_PATCH_COMMANDS. argv = [cmd, body]) \<or>
     (\<exists>shell script. parse_shell_script argv = Some (shell, script) \<and> heredoc_of bash script body \<and> isl (parse_patch script)))"
proof -
  from assms obtain args where args: "maybe_parse_apply_patch bash argv = Body args"
    and verified: "verify_apply_patch_args td fs paths args cwd s = VerifiedBody action"
    by (auto simp: maybe_parse_apply_patch_verified_def split: if_splits maybe_apply_patch.splits)
  have script: "isl (parse_patch script)" if "parse_shell_script argv = Some (shell, script)" for shell script
    using assms that by (auto simp: maybe_parse_apply_patch_verified_def split: if_splits)
  from verified have patch: "action_patch action = patch args"
    by (auto simp: verify_apply_patch_args_def Let_def verify_hunks_not_body split: sum.splits)
  show ?thesis
  proof (cases "maybe_parse_shell bash argv = Body args")
    case True
    then obtain shell sc body wd source where s: "parse_shell_script argv = Some (shell, sc)" "heredoc_of bash sc body"
      "parse_patch body = Inr source" "args = source\<lparr>workdir := wd\<rparr>" by (rule maybe_parse_shell_body)
    have "action_patch action = patch source" using patch s(4) by simp
    with s(1-3) script [OF s(1)] show ?thesis by blast
  next
    case False
    with args obtain cmd body where "argv = [cmd, body]" "cmd \<in> set APPLY_PATCH_COMMANDS" "parse_patch body = Inr args"
      by (auto simp: maybe_parse_apply_patch_def split: list.splits if_splits sum.splits)
    with patch show ?thesis by blast
  qed
qed

definition sample_query :: bash_query where
  "sample_query = \<lparr>set_language = Inr (), query_matches = (\<lambda>_. Some [[(''apply_name'', Some ''apply_patch''),
     (''heredoc'', Some (join [CHR 0x0A] [''*** Begin Patch'', ''*** Add File: f'', ''+x'', ''*** End Patch'', []]))]])\<rparr>"

theorem patches_come_from_explicit_calls_witness:
  "heredoc_of sample_query ''apply_patch <<EOF''
     (join [CHR 0x0A] [''*** Begin Patch'', ''*** Add File: f'', ''+x'', ''*** End Patch'']) \<and>
   isl (parse_patch ''apply_patch <<EOF'')"
proof -
  let ?argv = "[''/bin/bash'', ''-lc'', ''apply_patch <<EOF'']"
  let ?body = "join [CHR 0x0A] [''*** Begin Patch'', ''*** Add File: f'', ''+x'', ''*** End Patch'']"
  have v: "maybe_parse_apply_patch_verified sample_query (\<lambda>_ _. []) (direct_fs disk_os) disk_paths ?argv ''/w'' sample_disk =
      VerifiedBody \<lparr>action_changes = [(''/w/f'', FileAdd (''x'' @ [CHR 0x0A]))], action_patch = ?body, action_cwd = ''/w''\<rparr>"
    by code_simp
  have shell: "parse_shell_script ?argv = Some (UnixShell, ''apply_patch <<EOF'')" by code_simp
  from patches_come_from_explicit_calls [OF v] shell obtain body source where
    "heredoc_of sample_query ''apply_patch <<EOF'' body" "isl (parse_patch ''apply_patch <<EOF'')" by auto
  moreover from this(1) have "body = ?body"
    by (simp add: heredoc_of_def sample_query_def trim_end_newlines_def)
  ultimately show ?thesis by simp
qed

subsection \<open>Hunks that meet\<close>

text \<open>
  Where hunks meet the promise fails. The changes are a map from paths, so a later hunk for the same
  path replaces the entry of an earlier one: the file an earlier hunk moves to is not among the
  changes that are shown and assessed, and the new contents shown are those the last hunk alone
  gives from the original file.
\<close>

definition sample_chunk :: "string \<Rightarrow> string \<Rightarrow> update_file_chunk" where
  "sample_chunk old new = \<lparr>change_context = None, old_lines = [old], new_lines = [new], is_end_of_file = False\<rparr>"

lemma move_target_is_not_shown:
  defines "args \<equiv> \<lparr>patch = [], hunks = [UpdateFile ''a.txt'' (Some ''hidden'') [sample_chunk ''two'' ''2''], AddFile ''a.txt'' ''new''],
    workdir = None, environment_id = None\<rparr>"
  shows "verify_apply_patch_args (\<lambda>_ _. []) (direct_fs disk_os) disk_paths args ''/w'' sample_disk =
      VerifiedBody \<lparr>action_changes = [(''/w/a.txt'', FileAdd ''new'')], action_patch = [], action_cwd = ''/w''\<rparr>"
    and "disk_files (fst (apply_hunks_to_files (direct_fs disk_os) disk_paths ''/w'' (hunks args) sample_disk empty_delta)) ''/w/hidden'' =
      Some (file_text [''one'', ''2''])"
  unfolding assms by code_simp+

lemma earlier_update_is_not_shown:
  defines "args \<equiv> \<lparr>patch = [], hunks = [UpdateFile ''a.txt'' None [sample_chunk ''two'' ''2''],
      UpdateFile ''a.txt'' None [sample_chunk ''one'' ''1'']], workdir = None, environment_id = None\<rparr>"
  shows "verify_apply_patch_args (\<lambda>_ _. []) (direct_fs disk_os) disk_paths args ''/w'' sample_disk =
      VerifiedBody \<lparr>action_changes = [(''/w/a.txt'', FileUpdate [] None (file_text [''1'', ''two'']))],
        action_patch = [], action_cwd = ''/w''\<rparr>"
    and "disk_files (fst (apply_hunks_to_files (direct_fs disk_os) disk_paths ''/w'' (hunks args) sample_disk empty_delta)) ''/w/a.txt'' =
      Some (file_text [''1'', ''2''])"
  unfolding assms by code_simp+

text \<open>
  The action keeps the text of the patch, which is parsed again when it is applied. The text has
  lost a carriage return before each line feed, so the second reading can differ from the first.
\<close>

lemma second_reading_differs:
  defines "t \<equiv> join [CHR 0x0A] [''*** Begin Patch'', ''*** Add File: f'', ''+x'' @ [CHR 0x0D, CHR 0x0D], ''*** End Patch'']"
  shows "map_sum id hunks (parse_patch t) = Inr [AddFile ''f'' (''x'' @ [CHR 0x0D, CHR 0x0A])]"
    and "map_sum id (\<lambda>a. map_sum id hunks (parse_patch (patch a))) (parse_patch t) = Inr (Inr [AddFile ''f'' (''x'' @ [CHR 0x0A])])"
  unfolding assms by code_simp+

end
