(* ===== verification/Patch_Safety.thy ===== *)
theory Patch_Safety
  imports Patch_Invocation Writable_Roots Exec_Approval
begin

section \<open>Whether a patch is applied without a question\<close>

text \<open>
  \<open>codex-rs/core/src/safety.rs\<close> and \<open>core/src/apply_patch.rs\<close>: a verified patch is approved when
  every path it names may be written, otherwise the user is asked or, where the settings exclude
  questions, the patch is refused. The paths are those of \<open>AbsolutePathBuf\<close>.
\<close>

subsection \<open>Assessing a patch\<close>

datatype target_os = MacOs | LinuxOs | WindowsOs | OtherOs

datatype sandbox_type = NoSandbox | MacosSeatbelt | LinuxSeccomp | WindowsRestrictedToken

datatype windows_sandbox_level = WindowsDisabled | RestrictedToken | Elevated

text \<open>\<open>get_platform_sandbox\<close>; \<open>cfg!(target_os)\<close> is the first argument.\<close>

definition get_platform_sandbox :: "target_os \<Rightarrow> bool \<Rightarrow> sandbox_type option" where
  "get_platform_sandbox os windows_sandbox_enabled =
     (case os of
        MacOs \<Rightarrow> Some MacosSeatbelt
      | LinuxOs \<Rightarrow> Some LinuxSeccomp
      | WindowsOs \<Rightarrow> if windows_sandbox_enabled then Some WindowsRestrictedToken else None
      | OtherOs \<Rightarrow> None)"

datatype safety_check = AutoApprove sandbox_type bool | AskUser | Reject string

definition PATCH_REJECTED_OUTSIDE_PROJECT_REASON :: string where
  "PATCH_REJECTED_OUTSIDE_PROJECT_REASON = ''writing outside of the project; rejected by user approval settings''"

definition PATCH_REJECTED_READ_ONLY_REASON :: string where
  "PATCH_REJECTED_READ_ONLY_REASON = ''writing is blocked by read-only sandbox; rejected by user approval settings''"

definition patch_rejection_reason ::
    "fs_env \<Rightarrow> ('f, 'n) permission_profile \<Rightarrow> file_system_sandbox_policy \<Rightarrow> string \<Rightarrow> string" where
  "patch_rejection_reason env permission_profile policy cwd =
     (case permission_profile of
        Managed _ _ \<Rightarrow>
          if \<not> has_full_disk_write_access policy \<and> get_writable_roots_with_cwd env policy cwd = []
          then PATCH_REJECTED_READ_ONLY_REASON else PATCH_REJECTED_OUTSIDE_PROJECT_REASON
      | ProfileDisabled \<Rightarrow> PATCH_REJECTED_OUTSIDE_PROJECT_REASON
      | External _ \<Rightarrow> PATCH_REJECTED_OUTSIDE_PROJECT_REASON)"

text \<open>\<open>resolve_path\<close> of \<open>core/src/util.rs\<close>, and the normalisation: a \<open>PathBuf\<close> grown by components.\<close>

definition util_resolve_path :: "string \<Rightarrow> string \<Rightarrow> string" where
  "util_resolve_path base p = (if Absolute_Paths.is_absolute p then p else raw_join base p)"

fun raw_step :: "bool \<times> string list \<Rightarrow> component \<Rightarrow> bool \<times> string list" where
  "raw_step (ab, out) ParentDir = (ab, butlast out)"
| "raw_step (ab, out) CurDir = (ab, out)"
| "raw_step (ab, out) RootDir = (True, [])"
| "raw_step (ab, out) (Normal name) = (ab, out @ [name])"

definition normalize_raw :: "string \<Rightarrow> string" where
  "normalize_raw p =
     (case foldl raw_step (False, []) (components p) of
        (True, out) \<Rightarrow> path_text out
      | (False, out) \<Rightarrow> join ''/'' out)"

definition patch_path_writable :: "fs_env \<Rightarrow> file_system_sandbox_policy \<Rightarrow> string \<Rightarrow> string \<Rightarrow> bool" where
  "patch_path_writable env policy cwd p =
     can_write_path_with_cwd env policy (normalize_raw (util_resolve_path cwd p)) cwd"

definition change_constrained :: "fs_env \<Rightarrow> file_system_sandbox_policy \<Rightarrow> string \<Rightarrow> string \<times> file_change \<Rightarrow> bool" where
  "change_constrained env policy cwd entry =
     (case entry of (p, change) \<Rightarrow>
        (case change of
           FileAdd _ \<Rightarrow> patch_path_writable env policy cwd p
         | FileDelete _ \<Rightarrow> patch_path_writable env policy cwd p
         | FileUpdate _ move_path _ \<Rightarrow>
             if \<not> patch_path_writable env policy cwd p then False
             else (case move_path of None \<Rightarrow> True | Some dest \<Rightarrow> patch_path_writable env policy cwd dest)))"

definition is_write_patch_constrained_to_writable_paths ::
    "fs_env \<Rightarrow> apply_patch_action \<Rightarrow> file_system_sandbox_policy \<Rightarrow> string \<Rightarrow> bool" where
  "is_write_patch_constrained_to_writable_paths env action policy cwd =
     list_all (change_constrained env policy cwd) (action_changes action)"

definition rejects_sandbox_approval :: "ask_for_approval \<Rightarrow> bool" where
  "rejects_sandbox_approval policy \<longleftrightarrow>
     (case policy of Never \<Rightarrow> True | Granular granular_config \<Rightarrow> \<not> sandbox_approval granular_config | _ \<Rightarrow> False)"

definition assess_patch_safety ::
    "fs_env \<Rightarrow> target_os \<Rightarrow> apply_patch_action \<Rightarrow> ask_for_approval \<Rightarrow> ('f, 'n) permission_profile
     \<Rightarrow> file_system_sandbox_policy \<Rightarrow> string \<Rightarrow> windows_sandbox_level \<Rightarrow> safety_check" where
  "assess_patch_safety env os action policy permission_profile fs_policy cwd windows_level =
     (if action_changes action = [] then Reject ''empty patch''
      else if policy = UnlessTrusted then AskUser
      else if is_write_patch_constrained_to_writable_paths env action fs_policy cwd \<or> policy = OnFailure then
        (case permission_profile of
           ProfileDisabled \<Rightarrow> AutoApprove NoSandbox False
         | External _ \<Rightarrow> AutoApprove NoSandbox False
         | Managed _ _ \<Rightarrow>
             (case get_platform_sandbox os (windows_level \<noteq> WindowsDisabled) of
                Some sandbox_type \<Rightarrow> AutoApprove sandbox_type False
              | None \<Rightarrow>
                  if rejects_sandbox_approval policy
                  then Reject (patch_rejection_reason env permission_profile fs_policy cwd) else AskUser))
      else if rejects_sandbox_approval policy
      then Reject (patch_rejection_reason env permission_profile fs_policy cwd)
      else AskUser)"

subsection \<open>Handing the patch on\<close>

record runtime_invocation =
  invocation_action :: apply_patch_action
  auto_approved :: bool
  invocation_requirement :: exec_approval_requirement

datatype internal_invocation =
    RespondToModel string
  | DelegateToRuntime runtime_invocation

definition invoke_apply_patch ::
    "fs_env \<Rightarrow> target_os \<Rightarrow> ask_for_approval \<Rightarrow> ('f, 'n) permission_profile \<Rightarrow> windows_sandbox_level
     \<Rightarrow> file_system_sandbox_policy \<Rightarrow> apply_patch_action \<Rightarrow> internal_invocation" where
  "invoke_apply_patch env os approval_policy permission_profile windows_level fs_policy action =
     (case assess_patch_safety env os action approval_policy permission_profile fs_policy (action_cwd action) windows_level of
        AutoApprove _ user_explicitly_approved \<Rightarrow>
          DelegateToRuntime \<lparr>invocation_action = action, auto_approved = (\<not> user_explicitly_approved),
            invocation_requirement = Skip False None\<rparr>
      | AskUser \<Rightarrow>
          DelegateToRuntime \<lparr>invocation_action = action, auto_approved = False,
            invocation_requirement = NeedsApproval None None\<rparr>
      | Reject reason \<Rightarrow> RespondToModel (''patch rejected: '' @ reason))"

datatype protocol_file_change =
    ProtocolAdd string | ProtocolDelete string | ProtocolUpdate string "string option"

fun convert_change :: "file_change \<Rightarrow> protocol_file_change" where
  "convert_change (FileAdd content) = ProtocolAdd content"
| "convert_change (FileDelete content) = ProtocolDelete content"
| "convert_change (FileUpdate unified_diff move_path _) = ProtocolUpdate unified_diff move_path"

definition convert_apply_patch_to_protocol :: "apply_patch_action \<Rightarrow> (string \<times> protocol_file_change) list" where
  "convert_apply_patch_to_protocol action = map (\<lambda>(p, change). (p, convert_change change)) (action_changes action)"

subsection \<open>Absolute paths for the patch code\<close>

text \<open>\<open>AbsolutePathBuf\<close> as the patch code uses it; a path is handed over as its text.\<close>

definition abs_path_ops :: "'a path_env_scheme \<Rightarrow> path_ops" where
  "abs_path_ops env =
     \<lparr>resolve_path_against_base = (\<lambda>p base. path_text (abs_resolve_path_against_base env p (absolutize_from base []))),
      path_parent = (\<lambda>p. map_option path_text (abs_parent (absolutize_from p [])))\<rparr>"

lemma foldl_raw: "foldl raw_step (ab, out) (map Normal t) = (ab, out @ t)"
  by (induction t arbitrary: out) auto

lemma normalize_text [simp]: "list_all plain_name t \<Longrightarrow> normalize_raw (path_text t) = path_text t"
  by (simp add: normalize_raw_def components_path_text foldl_raw)

lemma resolved_is_plain:
  "\<exists>t. resolve_path_against_base (abs_path_ops env) p base = path_text t \<and> list_all plain_name t"
  by (intro exI [of _ "abs_resolve_path_against_base env p (absolutize_from base [])"])
     (simp add: abs_path_ops_def resolve_path_plain absolutize_from_plain)

text \<open>A path that the patch code has resolved is assessed as it is.\<close>

lemma resolved_path_writable [simp]:
  "patch_path_writable env policy cwd (resolve_path_against_base (abs_path_ops env) p base) =
   can_write_path_with_cwd env policy (resolve_path_against_base (abs_path_ops env) p base) cwd"
  using resolved_is_plain [of env p base] by (auto simp: patch_path_writable_def util_resolve_path_def)

subsection \<open>A confined file system\<close>

text \<open>
  A file system that refuses every write to and removal of a path outside \<open>W\<close>, and creates only
  directories right above a path in \<open>W\<close>.
\<close>

definition confined :: "(string \<Rightarrow> bool) \<Rightarrow> path_ops \<Rightarrow> 's executor_fs \<Rightarrow> 's executor_fs" where
  "confined W paths fs =
     fs\<lparr>write_file := (\<lambda>s p c. if W p then write_file fs s p c else (s, Inl (IoError ''PermissionDenied'' ''confined''))),
        create_directory := (\<lambda>s d r. if \<exists>p. W p \<and> path_parent paths p = Some d then create_directory fs s d r
          else (s, Inl (IoError ''PermissionDenied'' ''confined''))),
        remove := (\<lambda>s p r f. if W p then remove fs s p r f else (s, Inl (IoError ''PermissionDenied'' ''confined'')))\<rparr>"

lemma confined_reads [simp]:
  "read_file_text (confined W paths fs) = read_file_text fs"
  "get_metadata (confined W paths fs) = get_metadata fs"
  by (simp_all add: confined_def)

lemma confined_derive [simp]:
  "derive_new_contents_from_chunks (confined W paths fs) s p chunks = derive_new_contents_from_chunks fs s p chunks"
  by (simp add: derive_new_contents_from_chunks_def)

lemma confined_reading [simp]:
  "read_optional_file_text_for_delta (confined W paths fs) s p ex = read_optional_file_text_for_delta fs s p ex"
  "note_existing_path_delta_support (confined W paths fs) s p ex = note_existing_path_delta_support fs s p ex"
  "ensure_not_directory (confined W paths fs) s p = ensure_not_directory fs s p"
  "remove_failure_was_side_effect_free (confined W paths fs) s p expected = remove_failure_was_side_effect_free fs s p expected"
  by (simp_all add: read_optional_file_text_for_delta_def note_existing_path_delta_support_def
      ensure_not_directory_def remove_failure_was_side_effect_free_def split: option.splits)

lemma confined_writing:
  assumes "W p"
  shows "write_file (confined W paths fs) s p c = write_file fs s p c"
    and "remove_plain (confined W paths fs) s p = remove_plain fs s p"
    and "write_file_with_missing_parent_retry (confined W paths fs) paths s p c =
      write_file_with_missing_parent_retry fs paths s p c"
proof -
  show w: "write_file (confined W paths fs) s p c = write_file fs s p c" for s using assms by (simp add: confined_def)
  show "remove_plain (confined W paths fs) s p = remove_plain fs s p" using assms by (simp add: confined_def remove_plain_def)
  have "create_directory (confined W paths fs) s d True = create_directory fs s d True" if "path_parent paths p = Some d" for s d
    using that assms by (auto simp: confined_def)
  then show "write_file_with_missing_parent_retry (confined W paths fs) paths s p c =
      write_file_with_missing_parent_retry fs paths s p c"
    by (simp add: write_file_with_missing_parent_retry_def w split: prod.splits sum.splits option.splits)
qed

lemma confined_hunk:
  assumes "\<forall>p \<in> set (hunk_paths paths cwd h). W p"
  shows "apply_hunk (confined W paths fs) paths cwd h r = apply_hunk fs paths cwd h r"
proof (cases h)
  case (UpdateFile p mv chunks)
  with assms show ?thesis
    by (cases mv) (simp_all add: hunk_paths_def hunk_source_def apply_hunk_def apply_update_file_def remove_original_def
        Let_def confined_writing split: prod.splits sum.splits)
qed (use assms in \<open>simp_all add: hunk_paths_def hunk_source_def apply_hunk_def apply_add_file_def apply_delete_file_def
      Let_def confined_writing cong del: option.case_cong_weak sum.case_cong_weak prod.case_cong_weak if_weak_cong\<close>)

lemma confined_hunks:
  "\<forall>h \<in> set hs. \<forall>p \<in> set (hunk_paths paths cwd h). W p \<Longrightarrow>
   apply_hunks_to_files (confined W paths fs) paths cwd hs s d = apply_hunks_to_files fs paths cwd hs s d"
proof -
  assume inside: "\<forall>h \<in> set hs. \<forall>p \<in> set (hunk_paths paths cwd h). W p"
  have "apply_hunk_list (confined W paths fs) paths cwd hs r = apply_hunk_list fs paths cwd hs r" for r
    using inside by (induction hs arbitrary: r) (simp_all add: confined_hunk split: prod.splits sum.splits)
  then show ?thesis by (simp add: apply_hunks_to_files_def)
qed

text \<open>What is assessed covers every path that the hunks touch.\<close>

lemma constrained_change:
  assumes "change_of_hunk td fs (abs_path_ops env) cwd s h = Inr c"
    and "change_constrained env policy cwd' (hunk_source (abs_path_ops env) cwd h, c)"
    and "p \<in> set (hunk_paths (abs_path_ops env) cwd h)"
  shows "can_write_path_with_cwd env policy p cwd'"
proof -
  have source: "patch_path_writable env policy cwd' (hunk_source (abs_path_ops env) cwd h) \<longleftrightarrow>
      can_write_path_with_cwd env policy (hunk_source (abs_path_ops env) cwd h) cwd'" for h
    by (simp add: hunk_source_def resolve_path_def)
  show ?thesis
  proof (cases h)
    case (UpdateFile q mv chunks)
    with assms source [of h] show ?thesis
      by (cases mv) (auto simp: change_of_hunk_def change_constrained_def hunk_paths_def Let_def
          split: sum.splits apply_failure.splits if_splits)
  qed (use assms source [of h] in \<open>auto simp: change_of_hunk_def change_constrained_def hunk_paths_def Let_def
        split: sum.splits\<close>)
qed

lemma constrained_hunks:
  assumes "verify_apply_patch_args td fs (abs_path_ops env) args cwd s = VerifiedBody action"
    and "distinct (map (hunk_source (abs_path_ops env) (action_cwd action)) (hunks args))"
    and "is_write_patch_constrained_to_writable_paths env action policy cwd'"
    and "h \<in> set (hunks args)" "p \<in> set (hunk_paths (abs_path_ops env) (action_cwd action) h)"
  shows "can_write_path_with_cwd env policy p cwd'"
proof -
  let ?src = "hunk_source (abs_path_ops env) (action_cwd action)"
  obtain cs where cs: "action_changes action = zip (map ?src (hunks args)) cs"
      "list_all2 (\<lambda>h c. change_of_hunk td fs (abs_path_ops env) (action_cwd action) s h = Inr c) (hunks args) cs"
    by (rule verified_changes [OF assms(1,2)])
  from assms(4) obtain i where i: "i < length (hunks args)" "h = hunks args ! i" by (metis in_set_conv_nth)
  with cs(2) have c: "change_of_hunk td fs (abs_path_ops env) (action_cwd action) s h = Inr (cs ! i)" "i < length cs"
    by (auto simp: list_all2_conv_all_nth)
  with i cs(1) have "(?src h, cs ! i) \<in> set (action_changes action)" by (auto simp: set_zip intro!: exI [of _ i])
  with assms(3) have "change_constrained env policy cwd' (?src h, cs ! i)"
    by (auto simp: is_write_patch_constrained_to_writable_paths_def list_all_iff)
  from constrained_change [OF c(1) this assms(5)] show ?thesis .
qed

subsection \<open>Properties\<close>



subsection \<open>The properties on a concrete patch\<close>

definition sample_add :: apply_patch_args where
  "sample_add = \<lparr>patch = [], hunks = [AddFile ''a'' ''new''], workdir = None, environment_id = None\<rparr>"

definition sample_add_action :: apply_patch_action where
  "sample_add_action = \<lparr>action_changes = [(''/w/a'', FileAdd ''new'')], action_patch = [], action_cwd = ''/w''\<rparr>"

lemma sample_add_verified:
  "verify_apply_patch_args (\<lambda>_ _. []) (direct_fs disk_os) (abs_path_ops sample_env) sample_add ''/w'' sample_disk =
   VerifiedBody sample_add_action"
  by code_simp

lemma sample_add_delegated:
  "invoke_apply_patch sample_env LinuxOs OnRequest (Managed () ()) WindowsDisabled
     (workspace_write sample_env [] True True) sample_add_action =
   DelegateToRuntime \<lparr>invocation_action = sample_add_action, auto_approved = True, invocation_requirement = Skip False None\<rparr>"
  by code_simp



end
