(* ===== verification/Response_Items.thy ===== *)
theory Response_Items
  imports Text_Cut Command_Safety
begin

section \<open>Items of a conversation\<close>

text \<open>
  The items of \<open>codex-rs/protocol/src/models.rs\<close>, and what \<open>core/src/event_mapping.rs\<close> and
  \<open>core/src/context\<close> tell from the text of a message: whether the program has put it there as
  context, or a user has written it. JSON and XML are parsed by other crates.
\<close>

subsection \<open>The items\<close>

datatype image_detail = HighDetail | OriginalDetail

datatype message_content =
    TextIn string
  | ImageIn string "image_detail option"
  | TextOut string

type_synonym output_item = "image_detail option content_item"

datatype output_body = TextBody string | ContentItems "output_item list"

record output_payload =
  output_body :: output_body
  output_success :: "bool option"

definition payload_from_text :: "string \<Rightarrow> output_payload" where
  "payload_from_text t = \<lparr>output_body = TextBody t, output_success = None\<rparr>"

definition map_content_items :: "(output_item list \<Rightarrow> output_item list) \<Rightarrow> output_payload \<Rightarrow> output_payload" where
  "map_content_items f p = (case output_body p of TextBody _ \<Rightarrow> p | ContentItems items \<Rightarrow> p\<lparr>output_body := ContentItems (f items)\<rparr>)"

text \<open>The payloads that nothing here looks into (JSON values, actions, phases) have the type \<open>'x\<close>.\<close>

datatype 'x response_item =
    Message "string option" string "message_content list" "'x option"  \<comment> \<open>id, role, content, phase\<close>
  | Reasoning string 'x "'x option" "string option"  \<comment> \<open>id, summary, content, encrypted\_content\<close>
  | LocalShellCall "string option" "string option" 'x 'x  \<comment> \<open>id, call\_id, status, action\<close>
  | FunctionCall "string option" string "string option" string string  \<comment> \<open>id, name, namespace, arguments, call\_id\<close>
  | ToolSearchCall "string option" "string option" "string option" string 'x  \<comment> \<open>id, call\_id, status, execution, arguments\<close>
  | FunctionCallOutput string output_payload  \<comment> \<open>call\_id, output\<close>
  | CustomToolCall "string option" "string option" string string string  \<comment> \<open>id, status, call\_id, name, input\<close>
  | CustomToolCallOutput string "string option" output_payload  \<comment> \<open>call\_id, name, output\<close>
  | ToolSearchOutput "string option" string string "'x list"  \<comment> \<open>call\_id, status, execution, tools\<close>
  | WebSearchCall "string option" "string option" "'x option"  \<comment> \<open>id, status, action\<close>
  | ImageGenerationCall string string "string option" string  \<comment> \<open>id, status, revised\_prompt, result\<close>
  | Compaction string  \<comment> \<open>encrypted\_content\<close>
  | CompactionTrigger
  | ContextCompaction "string option"
  | OtherItem

subsection \<open>Context in the text of a message\<close>

text \<open>\<open>str::get\<close> of a prefix and of a suffix.\<close>

definition get_to :: "string \<Rightarrow> nat \<Rightarrow> string option" where
  "get_to s n = (if is_char_boundary s n then Some (take n s) else None)"

definition get_from :: "string \<Rightarrow> nat \<Rightarrow> string option" where
  "get_from s n = (if is_char_boundary s n then Some (drop n s) else None)"

definition matches_marked_text :: "string \<Rightarrow> string \<Rightarrow> string \<Rightarrow> bool" where
  "matches_marked_text start_marker end_marker t =
     (if start_marker = [] \<or> end_marker = [] then False
      else (let trimmed = trim_start t;
                starts_with_marker =
                  (case get_to trimmed (length start_marker) of
                     None \<Rightarrow> False | Some candidate \<Rightarrow> eq_ignore_ascii_case candidate start_marker);
                trimmed = trim_end trimmed;
                ends_with_marker =
                  (case get_from trimmed (length trimmed - length end_marker) of
                     None \<Rightarrow> False | Some candidate \<Rightarrow> eq_ignore_ascii_case candidate end_marker)
            in starts_with_marker \<and> ends_with_marker))"

text \<open>The markers of the fragments, in the order of \<open>CONTEXTUAL_USER_FRAGMENTS\<close>.\<close>

definition fragment_markers :: "(string \<times> string) list" where
  "fragment_markers =
     [(''# AGENTS.md instructions for '', ''</INSTRUCTIONS>''),
      (''<environment_context>'', ''</environment_context>''),
      (''<skill>'', ''</skill>''),
      (''<user_shell_command>'', ''</user_shell_command>''),
      (''<turn_aborted>'', ''</turn_aborted>''),
      (''<subagent_notification>'', ''</subagent_notification>''),
      (''<goal_context>'', ''</goal_context>'')]"

definition legacy_process_limit_warning :: "string \<Rightarrow> bool" where
  "legacy_process_limit_warning t \<longleftrightarrow>
     starts_with (trim t) ''Warning: The maximum number of unified exec processes you can keep open is''"

definition legacy_apply_patch_warning :: "string \<Rightarrow> bool" where
  "legacy_apply_patch_warning t \<longleftrightarrow>
     starts_with (trim t) ''Warning: apply_patch was requested via '' \<and>
     ends_with (trim t) ''Use the apply_patch tool instead of exec_command.''"

definition legacy_model_mismatch_warning :: "string \<Rightarrow> bool" where
  "legacy_model_mismatch_warning t \<longleftrightarrow>
     starts_with (trim t) ''Warning: Your account was flagged for potentially high-risk cyber activity''"

definition is_standard_contextual_user_text :: "string \<Rightarrow> bool" where
  "is_standard_contextual_user_text t \<longleftrightarrow>
     list_ex (\<lambda>(start_marker, end_marker). matches_marked_text start_marker end_marker t) fragment_markers \<or>
     legacy_process_limit_warning t \<or> legacy_apply_patch_warning t \<or> legacy_model_mismatch_warning t"

text \<open>
  The parsers of other crates: a hook prompt in XML (its text and run id), and whether a text is an
  inter-agent communication in JSON.
\<close>

record text_parsers =
  hook_prompt_xml :: "string \<Rightarrow> (string \<times> string) option"
  inter_agent_json :: "string \<Rightarrow> bool"

definition parse_hook_prompt_fragment :: "text_parsers \<Rightarrow> string \<Rightarrow> (string \<times> string) option" where
  "parse_hook_prompt_fragment ps t =
     (case hook_prompt_xml ps (trim t) of
        None \<Rightarrow> None
      | Some (t, hook_run_id) \<Rightarrow> if trim hook_run_id = [] then None else Some (t, hook_run_id))"

definition is_contextual_user_fragment :: "text_parsers \<Rightarrow> message_content \<Rightarrow> bool" where
  "is_contextual_user_fragment ps c =
     (case c of TextIn t \<Rightarrow> parse_hook_prompt_fragment ps t \<noteq> None \<or> is_standard_contextual_user_text t | _ \<Rightarrow> False)"

definition is_contextual_user_message_content :: "text_parsers \<Rightarrow> message_content list \<Rightarrow> bool" where
  "is_contextual_user_message_content ps message = list_ex (is_contextual_user_fragment ps) message"

definition CONTEXTUAL_DEVELOPER_PREFIXES :: "string list" where
  "CONTEXTUAL_DEVELOPER_PREFIXES =
     [''<permissions instructions>'', ''<model_switch>'', ''<collaboration_mode>'', ''<realtime_conversation>'',
      ''<personality_spec>'']"

definition is_contextual_dev_fragment :: "message_content \<Rightarrow> bool" where
  "is_contextual_dev_fragment c =
     (case c of
        TextIn t \<Rightarrow>
          list_ex (\<lambda>prefix. case get_to (trim_start t) (length prefix) of
              None \<Rightarrow> False | Some candidate \<Rightarrow> eq_ignore_ascii_case candidate prefix) CONTEXTUAL_DEVELOPER_PREFIXES
      | _ \<Rightarrow> False)"

definition is_contextual_dev_message_content :: "message_content list \<Rightarrow> bool" where
  "is_contextual_dev_message_content message = list_ex is_contextual_dev_fragment message"

definition has_non_contextual_dev_message_content :: "message_content list \<Rightarrow> bool" where
  "has_non_contextual_dev_message_content message = list_ex (\<lambda>c. \<not> is_contextual_dev_fragment c) message"

definition is_inter_agent_instruction_content :: "text_parsers \<Rightarrow> message_content list \<Rightarrow> bool" where
  "is_inter_agent_instruction_content ps content =
     (case content of [TextIn t] \<Rightarrow> inter_agent_json ps t | [TextOut t] \<Rightarrow> inter_agent_json ps t | _ \<Rightarrow> False)"

text \<open>Where a turn begins.\<close>

definition is_user_turn_boundary :: "text_parsers \<Rightarrow> 'x response_item \<Rightarrow> bool" where
  "is_user_turn_boundary ps item =
     (case item of
        Message _ role content _ \<Rightarrow>
          role = ''user'' \<and> \<not> is_contextual_user_message_content ps content \<or>
          role = ''assistant'' \<and> is_inter_agent_instruction_content ps content
      | _ \<Rightarrow> False)"

end
