(* ===== verification/History_Normalize.thy ===== *)
theory History_Normalize
  imports Response_Items
begin

section \<open>Calls and their outputs\<close>

text \<open>
  \<open>codex-rs/core/src/context_manager/normalize.rs\<close>: before a conversation goes to the model every call
  gets an output and outputs without a call are dropped; images are replaced for models that cannot
  see them. \<open>error_or_panic\<close> (\<open>core/src/util.rs\<close>) panics in a debug build and logs otherwise: the first
  argument says which build it is, and \<open>None\<close> is the panic.
\<close>

definition IMAGE_CONTENT_OMITTED_PLACEHOLDER :: string where
  "IMAGE_CONTENT_OMITTED_PLACEHOLDER = ''image content omitted because you do not support image input''"

definition error_or_panic :: "bool \<Rightarrow> unit option" where
  "error_or_panic debug = (if debug then None else Some ())"

subsection \<open>Missing outputs\<close>

definition has_function_output :: "'x response_item list \<Rightarrow> string \<Rightarrow> bool" where
  "has_function_output items call_id \<longleftrightarrow>
     list_ex (\<lambda>i. case i of FunctionCallOutput existing _ \<Rightarrow> existing = call_id | _ \<Rightarrow> False) items"

definition has_tool_search_output :: "'x response_item list \<Rightarrow> string \<Rightarrow> bool" where
  "has_tool_search_output items call_id \<longleftrightarrow>
     list_ex (\<lambda>i. case i of ToolSearchOutput (Some existing) _ _ _ \<Rightarrow> existing = call_id | _ \<Rightarrow> False) items"

definition has_custom_output :: "'x response_item list \<Rightarrow> string \<Rightarrow> bool" where
  "has_custom_output items call_id \<longleftrightarrow>
     list_ex (\<lambda>i. case i of CustomToolCallOutput existing _ _ \<Rightarrow> existing = call_id | _ \<Rightarrow> False) items"

text \<open>The output that a call lacks, and whether the lack is reported by \<open>error_or_panic\<close>.\<close>

fun missing_output :: "'x response_item list \<Rightarrow> 'x response_item \<Rightarrow> ('x response_item \<times> bool) option" where
  "missing_output items (FunctionCall _ _ _ _ call_id) =
     (if has_function_output items call_id then None
      else Some (FunctionCallOutput call_id (payload_from_text ''aborted''), False))"
| "missing_output items (ToolSearchCall _ (Some call_id) _ _ _) =
     (if has_tool_search_output items call_id then None
      else Some (ToolSearchOutput (Some call_id) ''completed'' ''client'' [], False))"
| "missing_output items (CustomToolCall _ _ call_id _ _) =
     (if has_custom_output items call_id then None
      else Some (CustomToolCallOutput call_id None (payload_from_text ''aborted''), True))"
| "missing_output items (LocalShellCall _ (Some call_id) _ _) =
     (if has_function_output items call_id then None
      else Some (FunctionCallOutput call_id (payload_from_text ''aborted''), True))"
| "missing_output items _ = None"

fun missing_outputs :: "bool \<Rightarrow> 'x response_item list \<Rightarrow> nat \<Rightarrow> 'x response_item list \<Rightarrow> (nat \<times> 'x response_item) list option" where
  "missing_outputs debug items idx [] = Some []"
| "missing_outputs debug items idx (item # rest) =
     (case missing_output items item of
        None \<Rightarrow> missing_outputs debug items (Suc idx) rest
      | Some (output_item, reported) \<Rightarrow>
          if reported \<and> error_or_panic debug = None then None
          else map_option (\<lambda>ms. (idx, output_item) # ms) (missing_outputs debug items (Suc idx) rest))"

definition insert_output :: "nat \<times> 'x response_item \<Rightarrow> 'x response_item list \<Rightarrow> 'x response_item list" where
  "insert_output m items = (case m of (idx, output_item) \<Rightarrow> take (idx + 1) items @ output_item # drop (idx + 1) items)"

definition ensure_call_outputs_present :: "bool \<Rightarrow> 'x response_item list \<Rightarrow> 'x response_item list option" where
  "ensure_call_outputs_present debug items =
     map_option (\<lambda>ms. fold insert_output (rev ms) items) (missing_outputs debug items 0 items)"

subsection \<open>Outputs without a call\<close>

definition function_call_ids :: "'x response_item list \<Rightarrow> string list" where
  "function_call_ids items = List.map_filter (\<lambda>i. case i of FunctionCall _ _ _ _ call_id \<Rightarrow> Some call_id | _ \<Rightarrow> None) items"

definition tool_search_call_ids :: "'x response_item list \<Rightarrow> string list" where
  "tool_search_call_ids items = List.map_filter (\<lambda>i. case i of ToolSearchCall _ call_id _ _ _ \<Rightarrow> call_id | _ \<Rightarrow> None) items"

definition local_shell_call_ids :: "'x response_item list \<Rightarrow> string list" where
  "local_shell_call_ids items = List.map_filter (\<lambda>i. case i of LocalShellCall _ call_id _ _ \<Rightarrow> call_id | _ \<Rightarrow> None) items"

definition custom_tool_call_ids :: "'x response_item list \<Rightarrow> string list" where
  "custom_tool_call_ids items = List.map_filter (\<lambda>i. case i of CustomToolCall _ _ call_id _ _ \<Rightarrow> Some call_id | _ \<Rightarrow> None) items"

fun retained :: "'x response_item list \<Rightarrow> 'x response_item \<Rightarrow> bool" where
  "retained items (FunctionCallOutput call_id _) =
     (call_id \<in> set (function_call_ids items) \<or> call_id \<in> set (local_shell_call_ids items))"
| "retained items (CustomToolCallOutput call_id _ _) = (call_id \<in> set (custom_tool_call_ids items))"
| "retained items (ToolSearchOutput call_id _ execution _) =
     (if execution = ''server'' then True
      else (case call_id of Some call_id \<Rightarrow> call_id \<in> set (tool_search_call_ids items) | None \<Rightarrow> True))"
| "retained items _ = True"

definition remove_orphan_outputs :: "bool \<Rightarrow> 'x response_item list \<Rightarrow> 'x response_item list option" where
  "remove_orphan_outputs debug items =
     (if list_ex (\<lambda>i. \<not> retained items i) items \<and> error_or_panic debug = None then None
      else Some (filter (retained items) items))"

subsection \<open>The counterpart of an item\<close>

fun remove_first_matching :: "('a \<Rightarrow> bool) \<Rightarrow> 'a list \<Rightarrow> 'a list" where
  "remove_first_matching p [] = []"
| "remove_first_matching p (x # xs) = (if p x then xs else x # remove_first_matching p xs)"

fun remove_corresponding_for :: "'x response_item list \<Rightarrow> 'x response_item \<Rightarrow> 'x response_item list" where
  "remove_corresponding_for items (FunctionCall _ _ _ _ call_id) =
     remove_first_matching (\<lambda>i. case i of FunctionCallOutput existing _ \<Rightarrow> existing = call_id | _ \<Rightarrow> False) items"
| "remove_corresponding_for items (FunctionCallOutput call_id _) =
     (if list_ex (\<lambda>i. case i of FunctionCall _ _ _ _ existing \<Rightarrow> existing = call_id | _ \<Rightarrow> False) items
      then remove_first_matching (\<lambda>i. case i of FunctionCall _ _ _ _ existing \<Rightarrow> existing = call_id | _ \<Rightarrow> False) items
      else remove_first_matching (\<lambda>i. case i of LocalShellCall _ existing _ _ \<Rightarrow> existing = Some call_id | _ \<Rightarrow> False) items)"
| "remove_corresponding_for items (ToolSearchCall _ (Some call_id) _ _ _) =
     remove_first_matching (\<lambda>i. case i of ToolSearchOutput existing _ _ _ \<Rightarrow> existing = Some call_id | _ \<Rightarrow> False) items"
| "remove_corresponding_for items (ToolSearchOutput (Some call_id) _ _ _) =
     remove_first_matching (\<lambda>i. case i of ToolSearchCall _ existing _ _ _ \<Rightarrow> existing = Some call_id | _ \<Rightarrow> False) items"
| "remove_corresponding_for items (CustomToolCall _ _ call_id _ _) =
     remove_first_matching (\<lambda>i. case i of CustomToolCallOutput existing _ _ \<Rightarrow> existing = call_id | _ \<Rightarrow> False) items"
| "remove_corresponding_for items (CustomToolCallOutput call_id _ _) =
     remove_first_matching (\<lambda>i. case i of CustomToolCall _ _ existing _ _ \<Rightarrow> existing = call_id | _ \<Rightarrow> False) items"
| "remove_corresponding_for items (LocalShellCall _ (Some call_id) _ _) =
     remove_first_matching (\<lambda>i. case i of FunctionCallOutput existing _ \<Rightarrow> existing = call_id | _ \<Rightarrow> False) items"
| "remove_corresponding_for items _ = items"

subsection \<open>Images\<close>

datatype input_modality = TextModality | ImageModality

definition strip_message_content :: "message_content \<Rightarrow> message_content" where
  "strip_message_content c = (case c of ImageIn _ _ \<Rightarrow> TextIn IMAGE_CONTENT_OMITTED_PLACEHOLDER | _ \<Rightarrow> c)"

definition strip_output_item :: "output_item \<Rightarrow> output_item" where
  "strip_output_item c = (case c of InputImage _ _ \<Rightarrow> InputText IMAGE_CONTENT_OMITTED_PLACEHOLDER | _ \<Rightarrow> c)"

fun strip_item :: "'x response_item \<Rightarrow> 'x response_item" where
  "strip_item (Message i role content phase) = Message i role (map strip_message_content content) phase"
| "strip_item (FunctionCallOutput call_id output) = FunctionCallOutput call_id (map_content_items (map strip_output_item) output)"
| "strip_item (CustomToolCallOutput call_id name output) =
     CustomToolCallOutput call_id name (map_content_items (map strip_output_item) output)"
| "strip_item (ImageGenerationCall i status revised_prompt _) = ImageGenerationCall i status revised_prompt []"
| "strip_item item = item"

definition strip_images_when_unsupported :: "input_modality list \<Rightarrow> 'x response_item list \<Rightarrow> 'x response_item list" where
  "strip_images_when_unsupported input_modalities items =
     (if ImageModality \<in> set input_modalities then items else map strip_item items)"

subsection \<open>All three\<close>

definition normalize_history :: "bool \<Rightarrow> input_modality list \<Rightarrow> 'x response_item list \<Rightarrow> 'x response_item list option" where
  "normalize_history debug input_modalities items =
     map_option (strip_images_when_unsupported input_modalities)
       (Option.bind (ensure_call_outputs_present debug items) (remove_orphan_outputs debug))"

subsection \<open>Calls and outputs by key\<close>

text \<open>
  What a call or an output belongs to: the kind and the id. Shell calls are answered by function
  outputs. A tool search that ran on the server needs no call.
\<close>

datatype call_kind = FunctionKind | CustomKind | SearchKind

type_synonym call_key = "call_kind \<times> string"

fun call_key :: "'x response_item \<Rightarrow> call_key option" where
  "call_key (FunctionCall _ _ _ _ call_id) = Some (FunctionKind, call_id)"
| "call_key (LocalShellCall _ call_id _ _) = map_option (Pair FunctionKind) call_id"
| "call_key (CustomToolCall _ _ call_id _ _) = Some (CustomKind, call_id)"
| "call_key (ToolSearchCall _ call_id _ _ _) = map_option (Pair SearchKind) call_id"
| "call_key _ = None"

fun output_key :: "'x response_item \<Rightarrow> call_key option" where
  "output_key (FunctionCallOutput call_id _) = Some (FunctionKind, call_id)"
| "output_key (CustomToolCallOutput call_id _ _) = Some (CustomKind, call_id)"
| "output_key (ToolSearchOutput call_id _ _ _) = map_option (Pair SearchKind) call_id"
| "output_key _ = None"

fun from_server :: "'x response_item \<Rightarrow> bool" where
  "from_server (ToolSearchOutput _ _ execution _) = (execution = ''server'')"
| "from_server _ = False"

definition call_keys :: "'x response_item list \<Rightarrow> call_key list" where
  "call_keys items = List.map_filter call_key items"

definition output_keys :: "'x response_item list \<Rightarrow> call_key list" where
  "output_keys items = List.map_filter output_key items"

text \<open>Every call is answered, and every output, but those of the server, belongs to a call.\<close>

definition paired :: "'x response_item list \<Rightarrow> bool" where
  "paired items \<longleftrightarrow>
     set (call_keys items) \<subseteq> set (output_keys items) \<and>
     set (output_keys (filter (\<lambda>i. \<not> from_server i) items)) \<subseteq> set (call_keys items)"

lemma call_keys_in: "k \<in> set (call_keys items) \<longleftrightarrow> (\<exists>i \<in> set items. call_key i = Some k)"
  by (simp add: call_keys_def set_map_filter_iff)

lemma output_keys_in: "k \<in> set (output_keys items) \<longleftrightarrow> (\<exists>i \<in> set items. output_key i = Some k)"
  by (simp add: output_keys_def set_map_filter_iff)

lemma call_or_output: "call_key i = None \<or> output_key i = None"
  by (cases i) auto

lemma has_outputs:
  "has_function_output items c \<longleftrightarrow> (FunctionKind, c) \<in> set (output_keys items)"
  "has_custom_output items c \<longleftrightarrow> (CustomKind, c) \<in> set (output_keys items)"
  "has_tool_search_output items c \<longleftrightarrow> (SearchKind, c) \<in> set (output_keys items)"
proof -
  have "(case i of FunctionCallOutput existing _ \<Rightarrow> existing = c | _ \<Rightarrow> False) \<longleftrightarrow> output_key i = Some (FunctionKind, c)"
    "(case i of CustomToolCallOutput existing _ _ \<Rightarrow> existing = c | _ \<Rightarrow> False) \<longleftrightarrow> output_key i = Some (CustomKind, c)"
    "(case i of ToolSearchOutput (Some existing) _ _ _ \<Rightarrow> existing = c | _ \<Rightarrow> False) \<longleftrightarrow> output_key i = Some (SearchKind, c)"
    for i :: "'a response_item"
    by (cases i; auto split: option.splits)+
  then show "has_function_output items c \<longleftrightarrow> (FunctionKind, c) \<in> set (output_keys items)"
    "has_custom_output items c \<longleftrightarrow> (CustomKind, c) \<in> set (output_keys items)"
    "has_tool_search_output items c \<longleftrightarrow> (SearchKind, c) \<in> set (output_keys items)"
    by (simp_all add: has_function_output_def has_custom_output_def has_tool_search_output_def output_keys_in list_ex_iff)
qed

lemma call_ids:
  "c \<in> set (function_call_ids items) \<or> c \<in> set (local_shell_call_ids items) \<longleftrightarrow> (FunctionKind, c) \<in> set (call_keys items)"
  "c \<in> set (custom_tool_call_ids items) \<longleftrightarrow> (CustomKind, c) \<in> set (call_keys items)"
  "c \<in> set (tool_search_call_ids items) \<longleftrightarrow> (SearchKind, c) \<in> set (call_keys items)"
proof -
  have "(case i of FunctionCall _ _ _ _ call_id \<Rightarrow> Some call_id | _ \<Rightarrow> None) = Some c \<or>
      (case i of LocalShellCall _ call_id _ _ \<Rightarrow> call_id | _ \<Rightarrow> None) = Some c \<longleftrightarrow> call_key i = Some (FunctionKind, c)"
    "(case i of CustomToolCall _ _ call_id _ _ \<Rightarrow> Some call_id | _ \<Rightarrow> None) = Some c \<longleftrightarrow> call_key i = Some (CustomKind, c)"
    "(case i of ToolSearchCall _ call_id _ _ _ \<Rightarrow> call_id | _ \<Rightarrow> None) = Some c \<longleftrightarrow> call_key i = Some (SearchKind, c)"
    for i :: "'a response_item"
    by (cases i; auto)+
  note this [symmetric]
  then show "c \<in> set (function_call_ids items) \<or> c \<in> set (local_shell_call_ids items) \<longleftrightarrow> (FunctionKind, c) \<in> set (call_keys items)"
    "c \<in> set (custom_tool_call_ids items) \<longleftrightarrow> (CustomKind, c) \<in> set (call_keys items)"
    "c \<in> set (tool_search_call_ids items) \<longleftrightarrow> (SearchKind, c) \<in> set (call_keys items)"
    unfolding call_keys_in function_call_ids_def local_shell_call_ids_def custom_tool_call_ids_def tool_search_call_ids_def
      set_map_filter_iff by (simp_all only: bex_disj_distrib)
qed

text \<open>The tests of the code in terms of keys.\<close>

lemma missing_output_cases:
  "case missing_output items i of
     None \<Rightarrow> (\<forall>k. call_key i = Some k \<longrightarrow> k \<in> set (output_keys items))
   | Some (out, _) \<Rightarrow> \<exists>k. call_key i = Some k \<and> k \<notin> set (output_keys items) \<and> output_key out = Some k \<and>
       call_key out = None \<and> \<not> from_server out"
  by (cases "(items, i)" rule: missing_output.cases) (auto simp: has_outputs)

lemma retained_iff:
  "retained items i \<longleftrightarrow> (\<forall>k. output_key i = Some k \<longrightarrow> \<not> from_server i \<longrightarrow> k \<in> set (call_keys items))"
  by (cases "(items, i)" rule: retained.cases) (auto simp: call_ids split: option.splits)

lemma paired_iff:
  "paired items \<longleftrightarrow> (\<forall>i \<in> set items. missing_output items i = None) \<and> (\<forall>i \<in> set items. retained items i)"
proof -
  have "missing_output items i = None \<longleftrightarrow> (\<forall>k. call_key i = Some k \<longrightarrow> k \<in> set (output_keys items))" for i
    using missing_output_cases [where items = items and i = i] by (cases "missing_output items i") auto
  then have "set (call_keys items) \<subseteq> set (output_keys items) \<longleftrightarrow> (\<forall>i \<in> set items. missing_output items i = None)"
    unfolding subset_iff call_keys_in by blast
  moreover have "set (output_keys (filter (\<lambda>i. \<not> from_server i) items)) \<subseteq> set (call_keys items) \<longleftrightarrow>
      (\<forall>i \<in> set items. retained items i)"
    unfolding subset_iff retained_iff output_keys_in by auto
  ultimately show ?thesis by (simp add: paired_def)
qed

subsection \<open>What normalising does\<close>

text \<open>A call with the output it lacks.\<close>

definition completed :: "'x response_item list \<Rightarrow> 'x response_item \<Rightarrow> 'x response_item list" where
  "completed items i = i # (case missing_output items i of None \<Rightarrow> [] | Some (out, _) \<Rightarrow> [out])"

lemma missing_outputs_release: "missing_outputs False items idx rest \<noteq> None"
  by (induction rest arbitrary: idx) (auto simp: error_or_panic_def split: option.splits)

lemma missing_outputs_index: "missing_outputs debug items idx rest = Some ms \<Longrightarrow> m \<in> set ms \<Longrightarrow> idx \<le> fst m"
  by (induction rest arbitrary: idx ms) (fastforce split: option.splits if_splits)+

lemma insert_outputs:
  "missing_outputs debug items (length done) rest = Some ms \<Longrightarrow>
   foldr insert_output ms (done @ rest) = done @ concat (map (completed items) rest)"
proof (induction rest arbitrary: "done" ms)
  case (Cons item rest)
  show ?case
  proof (cases "missing_output items item")
    case None
    with Cons.prems Cons.IH [of "done @ [item]" ms] show ?thesis by (simp add: completed_def)
  next
    case (Some m)
    obtain out reported where m: "m = (out, reported)" by (cases m)
    with Some Cons.prems obtain ms' where ms: "ms = (length done, out) # ms'"
      and rest: "missing_outputs debug items (length (done @ [item])) rest = Some ms'"
      by (auto split: if_splits)
    from Cons.IH [OF rest] have "foldr insert_output ms' (done @ item # rest) = done @ item # concat (map (completed items) rest)"
      by simp
    with ms have "foldr insert_output ms (done @ item # rest) =
        insert_output (length done, out) (done @ item # concat (map (completed items) rest))" by simp
    also have "\<dots> = done @ concat (map (completed items) (item # rest))"
      using Some m by (simp add: insert_output_def) (simp add: completed_def)
    finally show ?thesis .
  qed
qed simp

lemma ensure_completed:
  "ensure_call_outputs_present debug items = Some items' \<Longrightarrow> items' = concat (map (completed items) items)"
  using insert_outputs [of debug items "[]" items] by (auto simp: ensure_call_outputs_present_def foldr_conv_fold)

lemma ensure_release: "ensure_call_outputs_present False items = Some (concat (map (completed items) items))"
  using missing_outputs_release [of items 0 items] ensure_completed [of False items]
  by (auto simp: ensure_call_outputs_present_def)

lemma call_keys_completed: "call_keys (concat (map (completed all) items)) = call_keys items"
proof (induction items)
  case (Cons i items)
  have "call_keys (completed all i) = call_keys [i]"
    using missing_output_cases [where items = all and i = i]
    by (auto simp: completed_def call_keys_def List.map_filter_simps split: option.splits)
  with Cons show ?case by (simp add: call_keys_def List.map_filter_def)
qed (simp add: call_keys_def)

lemma retained_completed: "retained (concat (map (completed all) items)) = retained items"
  by (rule ext) (simp add: retained_iff call_keys_completed)

lemma synthetic_retained:
  assumes "missing_output all i = Some (out, reported)" and "i \<in> set items"
  shows "retained items out"
  using missing_output_cases [where items = all and i = i] assms
  by (auto simp: retained_iff call_keys_in)

lemma call_retained: "missing_output all i \<noteq> None \<Longrightarrow> retained items i"
  by (cases "(all, i)" rule: missing_output.cases) auto

text \<open>In a release build: outputs without a call fall out, calls without an output get one, images go.\<close>

lemma filter_completed:
  "set items \<subseteq> set all \<Longrightarrow>
   filter (retained all) (concat (map (completed all) items)) = concat (map (completed all) (filter (retained all) items))"
proof (induction items)
  case (Cons i items)
  have "filter (retained all) (completed all i) = (if retained all i then completed all i else [])"
  proof (cases "missing_output all i")
    case (Some m)
    obtain out reported where m: "m = (out, reported)" by (cases m)
    have "retained all i" using call_retained Some by blast
    moreover have "retained all out" using synthetic_retained Some m Cons.prems by fastforce
    ultimately show ?thesis using Some m by (simp add: completed_def)
  qed (simp add: completed_def)
  with Cons show ?case by simp
qed simp

lemma normalize_release:
  "normalize_history False ms items =
   Some (strip_images_when_unsupported ms (concat (map (completed items) (filter (retained items) items))))"
  by (simp add: normalize_history_def ensure_release remove_orphan_outputs_def error_or_panic_def retained_completed
      filter_completed)

lemma strip_keys [simp]:
  "call_key (strip_item i) = call_key i" "output_key (strip_item i) = output_key i" "from_server (strip_item i) = from_server i"
  by (cases i; simp)+

lemma keys_strip [simp]: "call_keys (map strip_item items) = call_keys items" "output_keys (map strip_item items) = output_keys items"
  by (simp_all add: call_keys_def output_keys_def List.map_filter_def filter_map o_def)

lemma paired_strip [simp]: "paired (strip_images_when_unsupported ms items) \<longleftrightarrow> paired items"
proof -
  have "output_keys (filter (\<lambda>i. \<not> from_server i) (map strip_item items)) = output_keys (filter (\<lambda>i. \<not> from_server i) items)"
    by (simp add: filter_map o_def)
  then show ?thesis by (simp add: strip_images_when_unsupported_def paired_def)
qed

text \<open>An image that a model would have to see.\<close>

fun has_image :: "'x response_item \<Rightarrow> bool" where
  "has_image (Message _ _ content _) = list_ex (\<lambda>c. case c of ImageIn _ _ \<Rightarrow> True | _ \<Rightarrow> False) content"
| "has_image (FunctionCallOutput _ output) =
     (case output_body output of ContentItems items \<Rightarrow> list_ex (\<lambda>c. case c of InputImage _ _ \<Rightarrow> True | _ \<Rightarrow> False) items | _ \<Rightarrow> False)"
| "has_image (CustomToolCallOutput _ _ output) =
     (case output_body output of ContentItems items \<Rightarrow> list_ex (\<lambda>c. case c of InputImage _ _ \<Rightarrow> True | _ \<Rightarrow> False) items | _ \<Rightarrow> False)"
| "has_image (ImageGenerationCall _ _ _ result) = (result \<noteq> [])"
| "has_image _ = False"

lemma strip_no_image: "\<not> has_image (strip_item i)"
  by (cases i)
     (auto simp: map_content_items_def strip_message_content_def strip_output_item_def list_ex_iff
       split: output_body.splits message_content.splits content_item.splits)

text \<open>An output that belongs to no call.\<close>

definition orphan :: "'x response_item list \<Rightarrow> 'x response_item \<Rightarrow> bool" where
  "orphan items i \<longleftrightarrow> \<not> from_server i \<and> (case output_key i of None \<Rightarrow> False | Some k \<Rightarrow> k \<notin> set (call_keys items))"

lemma retained_orphan: "retained items i \<longleftrightarrow> \<not> orphan items i"
  by (auto simp: orphan_def retained_iff split: option.splits)

lemma completed_paired: "paired (concat (map (completed items) (filter (retained items) items)))" (is "paired ?new")
proof -
  have "call_keys (filter (retained items) items) = call_keys items"
  proof -
    have "call_keys (filter (retained items) xs) = call_keys xs" for xs
    proof (induction xs)
      case (Cons i xs)
      then show ?case
        using call_or_output [of i] by (auto simp: call_keys_def List.map_filter_simps retained_iff split: option.splits)
    qed (simp add: call_keys_def)
    then show ?thesis .
  qed
  then have calls: "call_keys ?new = call_keys items" by (simp add: call_keys_completed)
  have "k \<in> set (output_keys ?new)" if "k \<in> set (call_keys items)" for k
  proof -
    from that obtain i where i: "i \<in> set items" "call_key i = Some k" by (auto simp: call_keys_in)
    have r: "retained items i" using call_or_output [of i] i(2) by (auto simp: retained_iff)
    show ?thesis
    proof (cases "missing_output items i")
      case None
      with missing_output_cases [where items = items and i = i] i(2) have "k \<in> set (output_keys items)" by simp
      then obtain j where j: "j \<in> set items" "output_key j = Some k" by (auto simp: output_keys_in)
      with that have "retained items j" by (auto simp: retained_iff)
      with j show ?thesis by (auto simp: output_keys_in completed_def intro!: bexI [of _ j])
    next
      case (Some m)
      obtain out reported where m: "m = (out, reported)" by (cases m)
      with Some missing_output_cases [where items = items and i = i] i(2) have "output_key out = Some k" by simp
      with Some m i(1) r show ?thesis by (auto simp: output_keys_in completed_def intro!: bexI [of _ out] bexI [of _ i])
    qed
  qed
  moreover have "k \<in> set (call_keys items)" if "j \<in> set ?new" "\<not> from_server j" "output_key j = Some k" for j k
  proof -
    from that(1) obtain i where i: "i \<in> set items" "retained items i" "j \<in> set (completed items i)" by auto
    show ?thesis
    proof (cases "j = i")
      case True
      with i(2) that(2,3) show ?thesis by (cases k) (simp add: retained_iff)
    next
      case False
      with i(3) obtain reported where m: "missing_output items i = Some (j, reported)"
        by (cases "missing_output items i") (auto simp: completed_def)
      from synthetic_retained [OF m i(1)] that(2,3) show ?thesis by (cases k) (simp add: retained_iff)
    qed
  qed
  ultimately show ?thesis unfolding paired_def calls subset_iff output_keys_in [of _ "filter _ _"] set_filter by blast
qed

subsection \<open>Properties\<close>


text \<open>
  A well-formed history is sent as it is, in a debug build too: then normalising does not panic and
  changes nothing but the images that are not supported. So normalising twice is normalising once.
\<close>

theorem well_formed_history_is_sent_unchanged:
  assumes "paired items"
  shows "normalize_history debug modalities items = Some (strip_images_when_unsupported modalities items)"
proof -
  have missing: "\<forall>i \<in> set items. missing_output items i = None" and retained: "\<forall>i \<in> set items. retained items i"
    using assms by (auto simp: paired_iff)
  have "missing_outputs debug items idx rest = Some []" if "set rest \<subseteq> set items" for idx rest
    using that missing by (induction rest arbitrary: idx) auto
  then have "ensure_call_outputs_present debug items = Some items" by (simp add: ensure_call_outputs_present_def)
  moreover have "remove_orphan_outputs debug items = Some items"
    using retained by (auto simp: remove_orphan_outputs_def list_ex_iff filter_id_conv)
  ultimately show ?thesis by (simp add: normalize_history_def)
qed

theorem well_formed_history_is_sent_unchanged_witness:
  "normalize_history True [] [FunctionCall None ''shell'' None ''{}'' ''c1'', FunctionCallOutput ''c1'' (payload_from_text ''ok'')] =
   Some [FunctionCall None ''shell'' None ''{}'' ''c1'', FunctionCallOutput ''c1'' (payload_from_text ''ok'') :: unit response_item]"
  using well_formed_history_is_sent_unchanged [of "[FunctionCall None ''shell'' None ''{}'' ''c1'',
      FunctionCallOutput ''c1'' (payload_from_text ''ok'') :: unit response_item]" True "[]"]
  by (simp add: paired_def call_keys_def output_keys_def List.map_filter_simps strip_images_when_unsupported_def
      map_content_items_def payload_from_text_def)

subsection \<open>Removing an item with its counterpart\<close>

text \<open>Each call and each output stands once.\<close>

definition unique_keys :: "'x response_item list \<Rightarrow> bool" where
  "unique_keys items \<longleftrightarrow> distinct (call_keys items) \<and> distinct (output_keys items)"

lemma remove_first_subset: "set (remove_first_matching p xs) \<subseteq> set xs"
  by (induction xs) auto

lemma remove_first_other:
  "(\<And>i. p i \<Longrightarrow> f i = None) \<Longrightarrow> List.map_filter f (remove_first_matching p xs) = List.map_filter f xs"
  by (induction xs) (auto simp: List.map_filter_simps split: option.splits)

lemma remove_first_none: "\<not> list_ex p xs \<Longrightarrow> remove_first_matching p xs = xs"
  by (induction xs) auto

lemma remove_first_key:
  assumes "distinct (List.map_filter f xs)" and "\<And>i. p i \<Longrightarrow> f i = Some k" and "list_ex p xs"
  shows "List.map_filter f (remove_first_matching p xs) = remove1 k (List.map_filter f xs)"
  using assms(1,3)
proof (induction xs)
  case (Cons x xs)
  show ?case
  proof (cases "p x")
    case True
    with assms(2) [of x] show ?thesis by (simp add: List.map_filter_simps)
  next
    case False
    with Cons.prems have "list_ex p xs" by simp
    then obtain y where "y \<in> set xs" "f y = Some k" using assms(2) by (auto simp: list_ex_iff)
    then have "k \<in> set (List.map_filter f xs)" by (auto simp: set_map_filter_iff)
    with Cons \<open>list_ex p xs\<close> False show ?thesis by (auto simp: List.map_filter_simps split: option.splits)
  qed
qed simp

lemma remove_call:
  assumes "unique_keys items" and "\<And>i. p i \<Longrightarrow> call_key i = Some k" and "list_ex p items"
  shows "call_keys (remove_first_matching p items) = remove1 k (call_keys items) \<and>
    output_keys (remove_first_matching p items) = output_keys items"
proof -
  have "output_key i = None" if "p i" for i using assms(2) [OF that] call_or_output [of i] by simp
  with remove_first_key [of call_key items p k] remove_first_other [of p output_key items] assms
  show ?thesis by (simp add: unique_keys_def call_keys_def output_keys_def)
qed

lemma remove_output:
  assumes "unique_keys items" and "\<And>i. p i \<longleftrightarrow> output_key i = Some k"
  shows "output_keys (remove_first_matching p items) = remove1 k (output_keys items) \<and>
    call_keys (remove_first_matching p items) = call_keys items"
proof (cases "list_ex p items")
  case True
  have "call_key i = None" if "p i" for i using assms(2) [of i] that call_or_output [of i] by simp
  with remove_first_key [of output_key items p k] remove_first_other [of p call_key items] assms True
  show ?thesis by (simp add: unique_keys_def call_keys_def output_keys_def)
next
  case False
  then have "k \<notin> set (output_keys items)" using assms(2) by (auto simp: output_keys_in list_ex_iff)
  with remove_first_none [OF False] show ?thesis by (simp add: remove1_idem)
qed

lemma corresponding_subset: "set (remove_corresponding_for items x) \<subseteq> set items"
  using remove_first_subset by (cases "(items, x)" rule: remove_corresponding_for.cases) (fastforce split: if_splits)+

lemma corresponding_call:
  assumes "call_key x = Some k" and "unique_keys items"
  shows "output_keys (remove_corresponding_for items x) = remove1 k (output_keys items) \<and>
    call_keys (remove_corresponding_for items x) = call_keys items"
  using assms(1)
proof (cases "(items, x)" rule: remove_corresponding_for.cases)
qed (auto intro!: remove_output [OF assms(2)] simp: fun_eq_iff split: response_item.splits)

lemma remove_call_or_none:
  assumes "unique_keys items" and "\<And>i. p i \<longleftrightarrow> call_key i = Some k"
  shows "call_keys (remove_first_matching p items) = remove1 k (call_keys items) \<and>
    output_keys (remove_first_matching p items) = output_keys items"
proof (cases "list_ex p items")
  case True
  with remove_call [OF assms(1)] assms(2) show ?thesis by blast
next
  case False
  then have "k \<notin> set (call_keys items)" using assms(2) by (auto simp: call_keys_in list_ex_iff)
  with remove_first_none [OF False] show ?thesis by (simp add: remove1_idem)
qed

lemma corresponding_output:
  assumes "output_key x = Some k" and "unique_keys items"
  shows "call_keys (remove_corresponding_for items x) = remove1 k (call_keys items) \<and>
    output_keys (remove_corresponding_for items x) = output_keys items"
proof (cases "\<exists>c payload. x = FunctionCallOutput c payload")
  case True
  then obtain c payload where x: "x = FunctionCallOutput c payload" by blast
  with assms(1) have k: "k = (FunctionKind, c)" by simp
  let ?f = "\<lambda>i. case i of FunctionCall _ _ _ _ existing \<Rightarrow> existing = c | _ \<Rightarrow> False"
  let ?l = "\<lambda>i. case i of LocalShellCall _ existing _ _ \<Rightarrow> existing = Some c | _ \<Rightarrow> False"
  show ?thesis
  proof (cases "list_ex ?f items")
    case True
    have "call_key i = Some k" if "?f i" for i using that k by (cases i) auto
    from remove_call [OF assms(2) this True] True x show ?thesis by simp
  next
    case False
    show ?thesis
    proof (cases "list_ex ?l items")
      case True
      have "call_key i = Some k" if "?l i" for i using that k by (cases i) auto
      from remove_call [OF assms(2) this True] False x show ?thesis by simp
    next
      case no: False
      have "k \<notin> set (call_keys items)"
      proof
        assume "k \<in> set (call_keys items)"
        then obtain i where "i \<in> set items" "call_key i = Some k" by (auto simp: call_keys_in)
        with k False no show False by (cases i) (auto simp: list_ex_iff)
      qed
      with False no x show ?thesis by (simp add: remove_first_none remove1_idem)
    qed
  qed
next
  case False
  then show ?thesis using assms(1)
  proof (cases "(items, x)" rule: remove_corresponding_for.cases)
  qed (auto intro!: remove_call_or_none [OF assms(2)] split: response_item.splits)
qed

lemma corresponding_other:
  "call_key x = None \<Longrightarrow> output_key x = None \<Longrightarrow> remove_corresponding_for items x = items"
  by (cases "(items, x)" rule: remove_corresponding_for.cases) auto

lemma keys_Cons:
  "call_keys (x # items) = (case call_key x of None \<Rightarrow> call_keys items | Some k \<Rightarrow> k # call_keys items)"
  "output_keys (x # items) = (case output_key x of None \<Rightarrow> output_keys items | Some k \<Rightarrow> k # output_keys items)"
  by (simp_all add: call_keys_def output_keys_def List.map_filter_simps split: option.splits)

lemma keys_snoc:
  "paired (items @ [x]) \<longleftrightarrow> paired (x # items)" "unique_keys (items @ [x]) \<longleftrightarrow> unique_keys (x # items)"
proof -
  have "set (call_keys (items @ [x])) = set (call_keys (x # items))" "set (output_keys (items @ [x])) = set (output_keys (x # items))"
    "set (output_keys (filter (\<lambda>i. \<not> from_server i) (items @ [x]))) = set (output_keys (filter (\<lambda>i. \<not> from_server i) (x # items)))"
    by (auto simp: call_keys_in output_keys_in)
  then show "paired (items @ [x]) \<longleftrightarrow> paired (x # items)" by (simp add: paired_def)
  have "call_keys (items @ [x]) = call_keys items @ call_keys [x]" "output_keys (items @ [x]) = output_keys items @ output_keys [x]"
    by (simp_all add: call_keys_def output_keys_def List.map_filter_def)
  then show "unique_keys (items @ [x]) \<longleftrightarrow> unique_keys (x # items)"
    by (auto simp: unique_keys_def keys_Cons call_keys_def [of "[]"] output_keys_def [of "[]"] split: option.splits)
qed

lemma server_outputs_in: "k \<in> set (output_keys (filter (\<lambda>i. \<not> from_server i) items)) \<Longrightarrow> k \<in> set (output_keys items)"
  by (auto simp: output_keys_in)

lemma removal_keeps_pairs:
  assumes unique: "unique_keys (x # items)" and paired: "paired (x # items)"
  shows "paired (remove_corresponding_for items x) \<and> unique_keys (remove_corresponding_for items x)"
proof -
  let ?new = "remove_corresponding_for items x"
  let ?client = "\<lambda>items. set (output_keys (filter (\<lambda>i. \<not> from_server i) items))"
  have u: "unique_keys items" using unique by (auto simp: unique_keys_def keys_Cons split: option.splits)
  have client: "?client ?new \<subseteq> ?client items" "?client ?new \<subseteq> set (output_keys ?new)" "?client items \<subseteq> ?client (x # items)"
    using corresponding_subset [of items x] unfolding subset_iff output_keys_in set_filter by auto
  consider (call) k where "call_key x = Some k" "output_key x = None" | (answer) k where "output_key x = Some k" "call_key x = None"
    | (other) "call_key x = None" "output_key x = None"
    using call_or_output [of x] by (cases "call_key x"; cases "output_key x") auto
  then show ?thesis
  proof cases
    case call
    note keys = corresponding_call [OF call(1) u]
    from unique call have "k \<notin> set (call_keys items)" by (simp add: unique_keys_def keys_Cons)
    moreover have "set (call_keys items) \<subseteq> set (output_keys items)" using paired call by (auto simp: paired_def keys_Cons)
    moreover have "?client items \<subseteq> insert k (set (call_keys items))" using paired client(3) call by (auto simp: paired_def keys_Cons)
    ultimately show ?thesis using keys u client(1,2) by (auto simp: paired_def unique_keys_def)
  next
    case answer
    note keys = corresponding_output [OF answer(1) u]
    from unique answer have "k \<notin> set (output_keys items)" by (simp add: unique_keys_def keys_Cons)
    moreover have "set (call_keys items) \<subseteq> insert k (set (output_keys items))" using paired answer by (auto simp: paired_def keys_Cons)
    moreover have "?client items \<subseteq> set (call_keys items)" using paired client(3) answer by (auto simp: paired_def keys_Cons)
    moreover have "k \<notin> ?client items" using \<open>k \<notin> set (output_keys items)\<close> server_outputs_in by blast
    ultimately show ?thesis using keys u client(1,2) by (auto simp: paired_def unique_keys_def)
  next
    case other
    then have new: "?new = items" by (rule corresponding_other)
    have "set (call_keys items) \<subseteq> set (output_keys items)" "?client items \<subseteq> set (call_keys items)"
      using paired client(3) other by (auto simp: paired_def keys_Cons)
    then show ?thesis using u new by (simp add: paired_def)
  qed
qed

end
