(* ===== verification/Chat_History.thy ===== *)
theory Chat_History
  imports History_Normalize
begin

section \<open>The conversation\<close>

text \<open>
  \<open>codex-rs/core/src/context_manager/history.rs\<close>: the transcript of a thread, what is recorded, how
  turns are rolled back, and the estimate of the tokens it takes. An \<open>i64\<close> is an \<open>int\<close> with the
  saturating operations written out; the token usage types are from \<open>protocol/src/protocol.rs\<close>.
\<close>

subsection \<open>Numbers\<close>

definition i64_max :: int where
  "i64_max = 2 ^ 63 - 1"

definition i64_min :: int where
  "i64_min = - (2 ^ 63)"

definition clamp_i64 :: "int \<Rightarrow> int" where
  "clamp_i64 n = max i64_min (min i64_max n)"

definition sat_add_i64 :: "int \<Rightarrow> int \<Rightarrow> int" where
  "sat_add_i64 a b = clamp_i64 (a + b)"

definition sat_sub_i64 :: "int \<Rightarrow> int \<Rightarrow> int" where
  "sat_sub_i64 a b = clamp_i64 (a - b)"

definition sat_mul_i64 :: "int \<Rightarrow> int \<Rightarrow> int" where
  "sat_mul_i64 a b = clamp_i64 (a * b)"

text \<open>\<open>i64::try_from\<close> with \<open>unwrap_or(i64::MAX)\<close>, and plain arithmetic in a release build.\<close>

definition to_i64 :: "nat \<Rightarrow> int" where
  "to_i64 n = min i64_max (int n)"

definition wrap_i64 :: "int \<Rightarrow> int" where
  "wrap_i64 n = (n + 2 ^ 63) mod 2 ^ 64 - 2 ^ 63"

text \<open>A product with the \<open>f64\<close> 1.2: 53 significant bits, halves to the even neighbour.\<close>

fun bit_length :: "nat \<Rightarrow> nat" where
  "bit_length n = (if n = 0 then 0 else Suc (bit_length (n div 2)))"

definition round_f64 :: "nat \<Rightarrow> nat" where
  "round_f64 n =
     (let k = bit_length n - 53; q = n div 2 ^ k; r = n mod 2 ^ k
      in (if 2 ^ k < 2 * r \<or> (2 ^ k = 2 * r \<and> 0 < r \<and> odd q) then q + 1 else q) * 2 ^ k)"

definition times_1_2 :: "nat \<Rightarrow> nat" where
  "times_1_2 n = min usize_max ((round_f64 (round_f64 n * 5404319552844595) + (2 ^ 52 - 1)) div 2 ^ 52)"

fun scale_policy :: "truncation_policy \<Rightarrow> truncation_policy" where
  "scale_policy (Bytes bytes) = Bytes (times_1_2 bytes)"
| "scale_policy (Tokens tokens) = Tokens (times_1_2 tokens)"

subsection \<open>Token usage\<close>

record token_usage =
  input_tokens :: int
  cached_input_tokens :: int
  output_tokens :: int
  reasoning_output_tokens :: int
  total_tokens :: int

definition no_tokens :: token_usage where
  "no_tokens = \<lparr>input_tokens = 0, cached_input_tokens = 0, output_tokens = 0, reasoning_output_tokens = 0, total_tokens = 0\<rparr>"

definition add_assign :: "token_usage \<Rightarrow> token_usage \<Rightarrow> token_usage" where
  "add_assign usage other =
     \<lparr>input_tokens = wrap_i64 (input_tokens usage + input_tokens other),
      cached_input_tokens = wrap_i64 (cached_input_tokens usage + cached_input_tokens other),
      output_tokens = wrap_i64 (output_tokens usage + output_tokens other),
      reasoning_output_tokens = wrap_i64 (reasoning_output_tokens usage + reasoning_output_tokens other),
      total_tokens = wrap_i64 (total_tokens usage + total_tokens other)\<rparr>"

record token_usage_info =
  total_token_usage :: token_usage
  last_token_usage :: token_usage
  model_context_window :: "int option"

definition append_last_usage :: "token_usage_info \<Rightarrow> token_usage \<Rightarrow> token_usage_info" where
  "append_last_usage info usage =
     info\<lparr>total_token_usage := add_assign (total_token_usage info) usage, last_token_usage := usage\<rparr>"

definition new_or_append ::
    "token_usage_info option \<Rightarrow> token_usage option \<Rightarrow> int option \<Rightarrow> token_usage_info option" where
  "new_or_append info last_usage window =
     (if info = None \<and> last_usage = None then None
      else (let info = (case info of Some info \<Rightarrow> info
                 | None \<Rightarrow> \<lparr>total_token_usage = no_tokens, last_token_usage = no_tokens, model_context_window = window\<rparr>);
                info = (case last_usage of Some usage \<Rightarrow> append_last_usage info usage | None \<Rightarrow> info);
                info = (case window of Some w \<Rightarrow> info\<lparr>model_context_window := Some w\<rparr> | None \<Rightarrow> info)
            in Some info))"

definition fill_to_context_window :: "token_usage_info \<Rightarrow> int \<Rightarrow> token_usage_info" where
  "fill_to_context_window info context_window =
     (let previous_total = total_tokens (total_token_usage info);
          delta = max (wrap_i64 (context_window - previous_total)) 0
      in info\<lparr>model_context_window := Some context_window,
           total_token_usage := no_tokens\<lparr>total_tokens := context_window\<rparr>,
           last_token_usage := no_tokens\<lparr>total_tokens := delta\<rparr>\<rparr>)"

definition full_context_window :: "int \<Rightarrow> token_usage_info" where
  "full_context_window context_window =
     fill_to_context_window
       \<lparr>total_token_usage = no_tokens, last_token_usage = no_tokens, model_context_window = Some context_window\<rparr> context_window"

subsection \<open>The state\<close>

record ('x, 'c) context_manager =
  history_items :: "'x response_item list"
  history_version :: nat
  token_info :: "token_usage_info option"
  reference_context_item :: "'c option"

definition new_history :: "('x, 'c) context_manager" where
  "new_history = \<lparr>history_items = [], history_version = 0, token_info = new_or_append None None None, reference_context_item = None\<rparr>"

definition set_token_info :: "('x, 'c) context_manager \<Rightarrow> token_usage_info option \<Rightarrow> ('x, 'c) context_manager" where
  "set_token_info cm info = cm\<lparr>token_info := info\<rparr>"

definition set_reference_context_item :: "('x, 'c) context_manager \<Rightarrow> 'c option \<Rightarrow> ('x, 'c) context_manager" where
  "set_reference_context_item cm item = cm\<lparr>reference_context_item := item\<rparr>"

definition set_token_usage_full :: "('x, 'c) context_manager \<Rightarrow> int \<Rightarrow> ('x, 'c) context_manager" where
  "set_token_usage_full cm context_window =
     cm\<lparr>token_info := Some (case token_info cm of
         Some info \<Rightarrow> fill_to_context_window info context_window
       | None \<Rightarrow> full_context_window context_window)\<rparr>"

definition update_token_info :: "('x, 'c) context_manager \<Rightarrow> token_usage \<Rightarrow> int option \<Rightarrow> ('x, 'c) context_manager" where
  "update_token_info cm usage window = cm\<lparr>token_info := new_or_append (token_info cm) (Some usage) window\<rparr>"

subsection \<open>Recording\<close>

fun is_api_message :: "'x response_item \<Rightarrow> bool" where
  "is_api_message (Message _ role _ _) = (role \<noteq> ''system'')"
| "is_api_message CompactionTrigger = False"
| "is_api_message OtherItem = False"
| "is_api_message _ = True"

definition truncate_function_output_payload :: "output_payload \<Rightarrow> truncation_policy \<Rightarrow> output_payload" where
  "truncate_function_output_payload output policy =
     output\<lparr>output_body := (case output_body output of
         TextBody content \<Rightarrow> TextBody (truncate_text content policy)
       | ContentItems items \<Rightarrow> ContentItems (truncate_function_output_items_with_policy items policy))\<rparr>"

fun process_item :: "'x response_item \<Rightarrow> truncation_policy \<Rightarrow> 'x response_item" where
  "process_item (FunctionCallOutput call_id output) policy =
     FunctionCallOutput call_id (truncate_function_output_payload output (scale_policy policy))"
| "process_item (CustomToolCallOutput call_id name output) policy =
     CustomToolCallOutput call_id name (truncate_function_output_payload output (scale_policy policy))"
| "process_item item policy = item"

definition record_items ::
    "('x, 'c) context_manager \<Rightarrow> 'x response_item list \<Rightarrow> truncation_policy \<Rightarrow> ('x, 'c) context_manager" where
  "record_items cm items policy =
     cm\<lparr>history_items := fold (\<lambda>item recorded. if \<not> is_api_message item then recorded else recorded @ [process_item item policy])
          items (history_items cm)\<rparr>"

definition for_prompt :: "bool \<Rightarrow> ('x, 'c) context_manager \<Rightarrow> input_modality list \<Rightarrow> 'x response_item list option" where
  "for_prompt debug cm input_modalities = normalize_history debug input_modalities (history_items cm)"

subsection \<open>Removing\<close>

text \<open>A \<open>u64\<close> that saturates.\<close>

definition bump_version :: "('x, 'c) context_manager \<Rightarrow> ('x, 'c) context_manager" where
  "bump_version cm = cm\<lparr>history_version := sat_add (history_version cm) 1\<rparr>"

definition remove_first_item :: "('x, 'c) context_manager \<Rightarrow> ('x, 'c) context_manager" where
  "remove_first_item cm =
     (case history_items cm of
        [] \<Rightarrow> cm
      | removed # items \<Rightarrow> cm\<lparr>history_items := remove_corresponding_for items removed\<rparr>)"

definition remove_last_item :: "('x, 'c) context_manager \<Rightarrow> ('x, 'c) context_manager \<times> bool" where
  "remove_last_item cm =
     (if history_items cm = [] then (cm, False)
      else (bump_version (cm\<lparr>history_items :=
              remove_corresponding_for (butlast (history_items cm)) (last (history_items cm))\<rparr>), True))"

definition replace_items :: "('x, 'c) context_manager \<Rightarrow> 'x response_item list \<Rightarrow> ('x, 'c) context_manager" where
  "replace_items cm items = bump_version (cm\<lparr>history_items := items\<rparr>)"

text \<open>\<open>Iterator::rposition\<close>.\<close>

definition rposition :: "('a \<Rightarrow> bool) \<Rightarrow> 'a list \<Rightarrow> nat option" where
  "rposition p xs = List.find (\<lambda>i. p (xs ! i)) (rev [0 ..< length xs])"

definition is_function_output :: "'x response_item \<Rightarrow> bool" where
  "is_function_output item \<longleftrightarrow> (case item of FunctionCallOutput _ _ \<Rightarrow> True | _ \<Rightarrow> False)"

definition is_output_image :: "output_item \<Rightarrow> bool" where
  "is_output_image c \<longleftrightarrow> (case c of InputImage _ _ \<Rightarrow> True | _ \<Rightarrow> False)"

definition replace_last_turn_images ::
    "text_parsers \<Rightarrow> ('x, 'c) context_manager \<Rightarrow> string \<Rightarrow> ('x, 'c) context_manager \<times> bool" where
  "replace_last_turn_images ps cm placeholder =
     (case rposition (\<lambda>item. is_function_output item \<or> is_user_turn_boundary ps item) (history_items cm) of
        None \<Rightarrow> (cm, False)
      | Some index \<Rightarrow>
          (case history_items cm ! index of
             FunctionCallOutput call_id output \<Rightarrow>
               (case output_body output of
                  TextBody _ \<Rightarrow> (cm, False)
                | ContentItems items \<Rightarrow>
                    if list_ex is_output_image items
                    then (bump_version (cm\<lparr>history_items := (history_items cm)[index :=
                            FunctionCallOutput call_id (output\<lparr>output_body :=
                              ContentItems (map (\<lambda>c. if is_output_image c then InputText placeholder else c) items)\<rparr>)]\<rparr>), True)
                    else (cm, False))
           | _ \<Rightarrow> (cm, False)))"

subsection \<open>Rolling back\<close>

definition user_message_positions :: "text_parsers \<Rightarrow> 'x response_item list \<Rightarrow> nat list" where
  "user_message_positions ps items = filter (\<lambda>i. is_user_turn_boundary ps (items ! i)) [0 ..< length items]"

text \<open>An item of context above a turn, and whether it also holds persistent developer text.\<close>

fun trimmed_context :: "text_parsers \<Rightarrow> 'x response_item \<Rightarrow> bool option" where
  "trimmed_context ps (Message _ role content _) =
     (if role = ''developer'' \<and> is_contextual_dev_message_content content
      then Some (has_non_contextual_dev_message_content content)
      else if role = ''user'' \<and> is_contextual_user_message_content ps content then Some False
      else None)"
| "trimmed_context ps _ = None"

text \<open>The loop of \<open>trim_pre_turn_context_updates\<close>: the cut, and whether the baseline is cleared.\<close>

fun trim_pre_turn_context_updates :: "text_parsers \<Rightarrow> 'x response_item list \<Rightarrow> nat \<Rightarrow> nat \<Rightarrow> bool \<Rightarrow> nat \<times> bool" where
  "trim_pre_turn_context_updates ps snapshot first_instruction_turn_idx cut_idx cleared =
     (if first_instruction_turn_idx < cut_idx then
        (case trimmed_context ps (snapshot ! (cut_idx - 1)) of
           Some mixed \<Rightarrow> trim_pre_turn_context_updates ps snapshot first_instruction_turn_idx (cut_idx - 1) (cleared \<or> mixed)
         | None \<Rightarrow> (cut_idx, cleared))
      else (cut_idx, cleared))"

declare trim_pre_turn_context_updates.simps [simp del]

definition drop_last_n_user_turns :: "text_parsers \<Rightarrow> ('x, 'c) context_manager \<Rightarrow> nat \<Rightarrow> ('x, 'c) context_manager" where
  "drop_last_n_user_turns ps cm num_turns =
     (if num_turns = 0 then cm
      else (let snapshot = history_items cm; user_positions = user_message_positions ps snapshot in
        case user_positions of
          [] \<Rightarrow> replace_items cm snapshot
        | first_instruction_turn_idx # _ \<Rightarrow>
            (let cut_idx =
                   (if length user_positions \<le> num_turns then first_instruction_turn_idx
                    else user_positions ! (length user_positions - num_turns));
                 (cut_idx, cleared) = trim_pre_turn_context_updates ps snapshot first_instruction_turn_idx cut_idx False;
                 cm = (if cleared then cm\<lparr>reference_context_item := None\<rparr> else cm)
             in replace_items cm (take cut_idx snapshot))))"

subsection \<open>Turns\<close>

text \<open>How many turns begin in a list of items.\<close>

definition user_turns :: "text_parsers \<Rightarrow> 'x response_item list \<Rightarrow> nat" where
  "user_turns ps items = length (filter (is_user_turn_boundary ps) items)"

lemma user_turns_append [simp]: "user_turns ps (xs @ ys) = user_turns ps xs + user_turns ps ys"
  by (simp add: user_turns_def)

lemma positions_Nil: "user_message_positions ps [] = []"
  by (simp add: user_message_positions_def)

lemma positions_snoc:
  "user_message_positions ps (xs @ [x]) =
   user_message_positions ps xs @ (if is_user_turn_boundary ps x then [length xs] else [])"
proof -
  have "filter (\<lambda>i. is_user_turn_boundary ps ((xs @ [x]) ! i)) [0 ..< length xs] =
      filter (\<lambda>i. is_user_turn_boundary ps (xs ! i)) [0 ..< length xs]"
    by (rule filter_cong) (auto simp: nth_append)
  then show ?thesis by (simp add: user_message_positions_def)
qed

lemma positions_count: "length (user_message_positions ps xs) = user_turns ps xs"
  by (induction xs rule: rev_induct) (auto simp: positions_snoc user_turns_def positions_Nil)

lemma position_at:
  "j < user_turns ps xs \<Longrightarrow> user_message_positions ps xs ! j < length xs \<and>
     is_user_turn_boundary ps (xs ! (user_message_positions ps xs ! j)) \<and>
     user_turns ps (take (user_message_positions ps xs ! j) xs) = j"
proof (induction xs rule: rev_induct)
  case (snoc x xs)
  show ?case
  proof (cases "j < user_turns ps xs")
    case True
    with snoc.IH show ?thesis by (simp add: positions_snoc nth_append positions_count)
  next
    case False
    with snoc.prems have "is_user_turn_boundary ps x" "j = user_turns ps xs"
      by (auto simp: user_turns_def split: if_splits)
    then show ?thesis by (simp add: positions_snoc nth_append positions_count)
  qed
qed (simp add: user_turns_def)

lemma first_turn:
  assumes "0 < user_turns ps xs"
  shows "take (user_message_positions ps xs ! 0) xs = takeWhile (\<lambda>i. \<not> is_user_turn_boundary ps i) xs"
proof (rule takeWhile_eq_take_P_nth [symmetric])
  let ?k = "user_message_positions ps xs ! 0"
  note at = position_at [OF assms]
  then have "filter (is_user_turn_boundary ps) (take ?k xs) = []" by (simp add: user_turns_def)
  then show "\<not> is_user_turn_boundary ps (xs ! i)" if "i < ?k" "i < length xs" for i
  proof -
    have "xs ! i \<in> set (take ?k xs)" using that by (auto simp: in_set_conv_nth intro!: exI [of _ i])
    with \<open>filter (is_user_turn_boundary ps) (take ?k xs) = []\<close> show ?thesis by (simp add: filter_empty_conv)
  qed
  show "\<not> \<not> is_user_turn_boundary ps (xs ! ?k)" if "?k < length xs" using at by simp
qed

lemma context_no_boundary: "trimmed_context ps i \<noteq> None \<Longrightarrow> \<not> is_user_turn_boundary ps i"
  by (cases i) (auto simp: is_user_turn_boundary_def split: if_splits)

lemma context_no_turns: "\<forall>i \<in> set xs. trimmed_context ps i \<noteq> None \<Longrightarrow> user_turns ps xs = 0"
  using context_no_boundary by (auto simp: user_turns_def filter_empty_conv)

text \<open>The loop stops above the turn, or at the first turn, and has walked over context only.\<close>

lemma trim_walk:
  "trim_pre_turn_context_updates ps xs first edge cleared = (k, cleared') \<Longrightarrow> first \<le> edge \<Longrightarrow> edge \<le> length xs \<Longrightarrow>
   \<exists>above. first \<le> k \<and> take edge xs = take k xs @ above \<and> (\<forall>i \<in> set above. trimmed_context ps i \<noteq> None) \<and>
     cleared' = (cleared \<or> Some True \<in> trimmed_context ps ` set above) \<and>
     (k = first \<or> trimmed_context ps (last (take k xs)) = None)"
proof (induction ps xs first edge cleared rule: trim_pre_turn_context_updates.induct)
  case (1 ps xs first edge cleared)
  show ?case
  proof (cases "first < edge")
    case False
    with "1.prems" show ?thesis by (simp add: trim_pre_turn_context_updates.simps [of ps xs first edge cleared])
  next
    case less: True
    then obtain c where c: "edge = Suc c" by (cases edge) auto
    with "1.prems"(3) have last: "take edge xs = take c xs @ [xs ! c]" by (simp add: take_Suc_conv_app_nth)
    show ?thesis
    proof (cases "trimmed_context ps (xs ! c)")
      case None
      with less c "1.prems"(1) have "k = edge" "cleared' = cleared"
        by (simp_all add: trim_pre_turn_context_updates.simps [of ps xs first "Suc c" cleared])
      with None last less show ?thesis by simp
    next
      case (Some mixed)
      with less c "1.prems"(1) have rec: "trim_pre_turn_context_updates ps xs first c (cleared \<or> mixed) = (k, cleared')"
        by (simp add: trim_pre_turn_context_updates.simps [of ps xs first "Suc c" cleared])
      from "1.IH" [OF less, of mixed] Some rec less c "1.prems"(3) obtain above where
        above: "first \<le> k" "take c xs = take k xs @ above" "\<forall>i \<in> set above. trimmed_context ps i \<noteq> None"
          "cleared' = ((cleared \<or> mixed) \<or> Some True \<in> trimmed_context ps ` set above)"
          "k = first \<or> trimmed_context ps (last (take k xs)) = None"
        by auto
      with last Some show ?thesis by (intro exI [of _ "above @ [xs ! c]"]) auto
    qed
  qed
qed

subsection \<open>Properties\<close>

text \<open>
  (C24) Rolling back \<open>n\<close> turns of a history that has one keeps a prefix of it. What goes is the last
  \<open>n\<close> turns (or all, when there are fewer), from the item where the first of them begins, and the context
  that stands right above it; that context is trimmed as far as it reaches but never into what came
  before the first turn of all. The baseline for settings diffs is cleared exactly when a
  trimmed developer message also held other text.
\<close>

theorem rollback_removes_the_last_turns:
  assumes "0 < n" and "0 < user_turns ps (history_items cm)"
  shows "\<exists>kept above turns. history_items cm = kept @ above @ turns \<and>
     history_items (drop_last_n_user_turns ps cm n) = kept \<and>
     turns \<noteq> [] \<and> is_user_turn_boundary ps (hd turns) \<and>
     user_turns ps turns = min n (user_turns ps (history_items cm)) \<and>
     user_turns ps kept = user_turns ps (history_items cm) - n \<and>
     list_all (\<lambda>i. trimmed_context ps i \<noteq> None) above \<and>
     starts_with kept (takeWhile (\<lambda>i. \<not> is_user_turn_boundary ps i) (history_items cm)) \<and>
     (kept = takeWhile (\<lambda>i. \<not> is_user_turn_boundary ps i) (history_items cm) \<or> trimmed_context ps (last kept) = None) \<and>
     reference_context_item (drop_last_n_user_turns ps cm n) =
       (if Some True \<in> trimmed_context ps ` set above then None else reference_context_item cm)"
proof -
  let ?xs = "history_items cm" and ?pos = "user_message_positions ps (history_items cm)"
  let ?before = "takeWhile (\<lambda>i. \<not> is_user_turn_boundary ps i) ?xs"
  let ?m = "user_turns ps ?xs - n"
  let ?cut = "?pos ! ?m"
  have len: "length ?pos = user_turns ps ?xs" by (rule positions_count)
  obtain first ps' where pos: "?pos = first # ps'" using len assms(2) by (cases ?pos) auto
  have m: "?m < user_turns ps ?xs" using assms by simp
  note at = position_at [OF m]
  have before: "take first ?xs = ?before" using first_turn [OF assms(2)] pos by simp
  have code_cut: "(if length ?pos \<le> n then first else ?pos ! (length ?pos - n)) = ?cut"
    using len pos by (cases "user_turns ps ?xs \<le> n") auto
  have sorted: "sorted ?pos" by (simp add: user_message_positions_def sorted_wrt_filter)
  have first_le: "first \<le> ?cut" using sorted_nth_mono [OF sorted, of 0 ?m] m len pos by simp
  obtain k cleared where walk: "trim_pre_turn_context_updates ps ?xs first ?cut False = (k, cleared)" by fastforce
  from trim_walk [OF walk first_le] at obtain above where
    above: "first \<le> k" "take ?cut ?xs = take k ?xs @ above" "\<forall>i \<in> set above. trimmed_context ps i \<noteq> None"
      "cleared = (Some True \<in> trimmed_context ps ` set above)"
      "k = first \<or> trimmed_context ps (last (take k ?xs)) = None"
    by auto
  let ?turns = "drop ?cut ?xs"
  have split: "?xs = take k ?xs @ above @ ?turns" using above(2) by (metis append.assoc append_take_drop_id)
  have turns: "?turns \<noteq> []" "is_user_turn_boundary ps (hd ?turns)" using at by (auto simp: hd_drop_conv_nth)
  have "user_turns ps (take k ?xs) = ?m"
    using at above(2) context_no_turns [OF above(3)] by simp
  moreover have "user_turns ps ?turns = min n (user_turns ps ?xs)"
  proof -
    have "user_turns ps ?xs = ?m + user_turns ps ?turns"
      using at user_turns_append [of ps "take ?cut ?xs" ?turns] by simp
    then show ?thesis by simp
  qed
  moreover have "take first (take k ?xs) = ?before" using before above(1) by (simp add: min_absorb1)
  then have "starts_with (take k ?xs) ?before" unfolding starts_with_iff by (metis append_take_drop_id)
  moreover have "take k ?xs = ?before \<or> trimmed_context ps (last (take k ?xs)) = None" using above(5) before by (cases "k = first") simp_all
  moreover have "history_items (drop_last_n_user_turns ps cm n) = take k ?xs"
    "reference_context_item (drop_last_n_user_turns ps cm n) = (if cleared then None else reference_context_item cm)"
    using assms(1) pos code_cut walk
    by (simp_all add: drop_last_n_user_turns_def replace_items_def bump_version_def Let_def)
  ultimately show ?thesis
    using split turns above(3) unfolding above(4) list_all_iff
    by (intro exI [of _ "take k ?xs"] exI [of _ above] exI [of _ ?turns] conjI)
qed

text \<open>Parsers for which nothing is a hook prompt, and an inter-agent text starts with a brace.\<close>

definition sample_parsers :: text_parsers where
  "sample_parsers = \<lparr>hook_prompt_xml = (\<lambda>t. None), inter_agent_json = (\<lambda>t. starts_with t ''{'')\<rparr>"

definition sample_history :: "(unit, unit) context_manager" where
  "sample_history =
     new_history\<lparr>reference_context_item := Some (),
       history_items :=
         [Message None ''developer'' [TextIn ''be brief''] None,
          Message None ''user'' [TextIn ''hi''] None,
          Message None ''assistant'' [TextOut ''hello''] None,
          Message None ''developer'' [TextIn ''<model_switch>'', TextIn ''stay''] None,
          Message None ''assistant'' [TextOut ''{}''] None]\<rparr>"

theorem rollback_removes_the_last_turns_witness:
  "user_turns sample_parsers (history_items (drop_last_n_user_turns sample_parsers sample_history 1)) = 1"
proof -
  have two: "user_turns sample_parsers (history_items sample_history) = 2" by code_simp
  then have "0 < user_turns sample_parsers (history_items sample_history)" by simp
  from rollback_removes_the_last_turns [OF zero_less_one this]
  obtain kept where "history_items (drop_last_n_user_turns sample_parsers sample_history 1) = kept"
    "user_turns sample_parsers kept = user_turns sample_parsers (history_items sample_history) - 1" by blast
  with two show ?thesis by simp
qed

text \<open>
  (C25) Dropping the oldest or the newest item takes its counterpart along: when every call of a history
  has its output and every output its call, each once, this is still so afterwards. This is what
  lets compaction shorten a history without normalising it again.
\<close>

theorem removing_keeps_calls_paired:
  assumes "paired (history_items cm)" and "unique_keys (history_items cm)"
  shows "paired (history_items (remove_first_item cm)) \<and> unique_keys (history_items (remove_first_item cm)) \<and>
    paired (history_items (fst (remove_last_item cm))) \<and> unique_keys (history_items (fst (remove_last_item cm)))"
proof -
  have "paired (history_items (remove_first_item cm)) \<and> unique_keys (history_items (remove_first_item cm))"
  proof (cases "history_items cm")
    case (Cons x items)
    with assms removal_keeps_pairs [of x items] show ?thesis by (simp add: remove_first_item_def)
  qed (use assms in \<open>simp add: remove_first_item_def\<close>)
  moreover have "paired (history_items (fst (remove_last_item cm))) \<and> unique_keys (history_items (fst (remove_last_item cm)))"
  proof (cases "history_items cm" rule: rev_cases)
    case (snoc items x)
    with assms have "paired (x # items)" "unique_keys (x # items)" by (simp_all add: keys_snoc)
    from removal_keeps_pairs [OF this(2,1)] snoc show ?thesis by (simp add: remove_last_item_def bump_version_def)
  qed (use assms in \<open>simp add: remove_last_item_def\<close>)
  ultimately show ?thesis by blast
qed

theorem removing_keeps_calls_paired_witness:
  "paired (history_items (fst (remove_last_item ((new_history :: (unit, unit) context_manager)\<lparr>history_items :=
     [CompactionTrigger, FunctionCall None ''shell'' None ''{}'' ''c1'', FunctionCallOutput ''c1'' (payload_from_text ''ok'')]\<rparr>))))"
proof -
  let ?items = "[CompactionTrigger, FunctionCall None ''shell'' None ''{}'' ''c1'', FunctionCallOutput ''c1'' (payload_from_text ''ok'')] :: unit response_item list"
  have "paired ?items" "unique_keys ?items"
    by (simp_all add: paired_def unique_keys_def call_keys_def output_keys_def List.map_filter_simps)
  with removing_keeps_calls_paired [of "(new_history :: (unit, unit) context_manager)\<lparr>history_items := ?items\<rparr>"] show ?thesis by simp
qed

end
