(* ===== verification/Chat_Tokens.thy ===== *)
theory Chat_Tokens
  imports Chat_History
begin

section \<open>How many tokens a conversation takes\<close>

text \<open>
  The estimates of \<open>codex-rs/core/src/context_manager/history.rs\<close>: what the last response of the server
  reported, and the bytes of the items that came after it. The JSON text of an item, of which only
  the length counts, and the decoded size of an image come from other crates; the cache of image
  sizes (keyed by a digest of the URL) holds what the computation gives.
\<close>

record 'x measures =
  json_length :: "'x response_item \<Rightarrow> nat option"
  image_size :: "string \<Rightarrow> (nat \<times> nat) option"

subsection \<open>Image URLs\<close>

text \<open>After \<open>data:\<close> the first comma stands behind it, so the slices are in range.\<close>

definition has_prefix_ignoring_case :: "string \<Rightarrow> string \<Rightarrow> bool" where
  "has_prefix_ignoring_case s p \<longleftrightarrow>
     (case get_to s (length p) of None \<Rightarrow> False | Some candidate \<Rightarrow> eq_ignore_ascii_case candidate p)"

definition parse_base64_image_data_url :: "string \<Rightarrow> string option" where
  "parse_base64_image_data_url url =
     (if \<not> has_prefix_ignoring_case url ''data:'' then None
      else (case split_once CHR '','' url of
          None \<Rightarrow> None
        | Some (metadata, payload) \<Rightarrow>
            (let metadata_parts = split_on CHR '';'' (drop 5 metadata);
                 mime_type = hd metadata_parts;
                 has_base64_marker = list_ex (\<lambda>part. eq_ignore_ascii_case part ''base64'') (tl metadata_parts)
             in if \<not> has_prefix_ignoring_case mime_type ''image/'' then None
                else if \<not> has_base64_marker then None
                else Some payload)))"

definition RESIZED_IMAGE_BYTES_ESTIMATE :: int where
  "RESIZED_IMAGE_BYTES_ESTIMATE = 7373"

definition ORIGINAL_IMAGE_PATCH_SIZE :: int where
  "ORIGINAL_IMAGE_PATCH_SIZE = 32"

definition ORIGINAL_IMAGE_MAX_PATCHES :: nat where
  "ORIGINAL_IMAGE_MAX_PATCHES = 10000"

definition estimate_original_image_bytes :: "'x measures \<Rightarrow> string \<Rightarrow> int option" where
  "estimate_original_image_bytes m image_url =
     (case Option.bind (parse_base64_image_data_url image_url) (image_size m) of
        None \<Rightarrow> None
      | Some (w, h) \<Rightarrow>
          (let patch_size = ORIGINAL_IMAGE_PATCH_SIZE;
               patches_wide = sat_add_i64 (int w) (sat_sub_i64 patch_size 1) div patch_size;
               patches_high = sat_add_i64 (int h) (sat_sub_i64 patch_size 1) div patch_size;
               patch_count = sat_mul_i64 patches_wide patches_high;
               patch_count = (if 0 \<le> patch_count then nat patch_count else usize_max);
               patch_count = min patch_count ORIGINAL_IMAGE_MAX_PATCHES
           in Some (to_i64 (approx_bytes_for_tokens patch_count))))"

definition accumulate :: "'x measures \<Rightarrow> string \<Rightarrow> image_detail option \<Rightarrow> int \<times> int \<Rightarrow> int \<times> int" where
  "accumulate m image_url detail acc =
     (case (parse_base64_image_data_url image_url, acc) of
        (None, _) \<Rightarrow> acc
      | (Some payload, payload_bytes, replacement_bytes) \<Rightarrow>
          (sat_add_i64 payload_bytes (to_i64 (length payload)),
           sat_add_i64 replacement_bytes
             (if detail = Some OriginalDetail
              then (case estimate_original_image_bytes m image_url of Some n \<Rightarrow> n | None \<Rightarrow> RESIZED_IMAGE_BYTES_ESTIMATE)
              else RESIZED_IMAGE_BYTES_ESTIMATE)))"

definition accumulate_message :: "'x measures \<Rightarrow> message_content \<Rightarrow> int \<times> int \<Rightarrow> int \<times> int" where
  "accumulate_message m c acc = (case c of ImageIn image_url detail \<Rightarrow> accumulate m image_url detail acc | _ \<Rightarrow> acc)"

definition accumulate_output :: "'x measures \<Rightarrow> output_item \<Rightarrow> int \<times> int \<Rightarrow> int \<times> int" where
  "accumulate_output m c acc = (case c of InputImage image_url detail \<Rightarrow> accumulate m image_url detail acc | _ \<Rightarrow> acc)"

definition output_images :: "'x measures \<Rightarrow> output_payload \<Rightarrow> int \<times> int" where
  "output_images m payload =
     (case output_body payload of TextBody _ \<Rightarrow> (0, 0) | ContentItems items \<Rightarrow> fold (accumulate_output m) items (0, 0))"

fun image_data_url_estimate_adjustment :: "'x measures \<Rightarrow> 'x response_item \<Rightarrow> int \<times> int" where
  "image_data_url_estimate_adjustment m (Message _ _ content _) = fold (accumulate_message m) content (0, 0)"
| "image_data_url_estimate_adjustment m (FunctionCallOutput _ payload) = output_images m payload"
| "image_data_url_estimate_adjustment m (CustomToolCallOutput _ _ payload) = output_images m payload"
| "image_data_url_estimate_adjustment m _ = (0, 0)"

subsection \<open>Encrypted content\<close>

definition estimate_reasoning_length :: "nat \<Rightarrow> nat" where
  "estimate_reasoning_length encoded_len = sat_mul encoded_len 3 div 4 - 650"

definition estimate_encrypted_function_output_length :: "nat \<Rightarrow> nat" where
  "estimate_encrypted_function_output_length encoded_len = (sat_mul encoded_len 9 + 15) div 16"

definition accumulate_encrypted :: "output_item \<Rightarrow> int \<times> int \<Rightarrow> int \<times> int" where
  "accumulate_encrypted c acc =
     (case c of
        EncryptedContent content \<Rightarrow>
          (sat_add_i64 (fst acc) (to_i64 (length content)),
           sat_add_i64 (snd acc) (to_i64 (estimate_encrypted_function_output_length (length content))))
      | _ \<Rightarrow> acc)"

definition encrypted_function_output_estimate_adjustment :: "'x response_item \<Rightarrow> int \<times> int" where
  "encrypted_function_output_estimate_adjustment item =
     (case item of
        FunctionCallOutput _ payload \<Rightarrow>
          (case output_body payload of TextBody _ \<Rightarrow> (0, 0) | ContentItems items \<Rightarrow> fold accumulate_encrypted items (0, 0))
      | _ \<Rightarrow> (0, 0))"

subsection \<open>One item\<close>

definition json_estimate :: "'x measures \<Rightarrow> 'x response_item \<Rightarrow> int" where
  "json_estimate m item =
     (let raw = (case json_length m item of Some n \<Rightarrow> to_i64 n | None \<Rightarrow> 0);
          (image_payload_bytes, image_replacement_bytes) = image_data_url_estimate_adjustment m item;
          (encrypted_payload_bytes, encrypted_replacement_bytes) = encrypted_function_output_estimate_adjustment item;
          raw = sat_add_i64 (sat_sub_i64 raw image_payload_bytes) image_replacement_bytes
      in sat_add_i64 (sat_sub_i64 raw encrypted_payload_bytes) encrypted_replacement_bytes)"

fun estimate_response_item_model_visible_bytes :: "'x measures \<Rightarrow> 'x response_item \<Rightarrow> int" where
  "estimate_response_item_model_visible_bytes m (Reasoning _ _ _ (Some content)) = to_i64 (estimate_reasoning_length (length content))"
| "estimate_response_item_model_visible_bytes m (Compaction content) = to_i64 (estimate_reasoning_length (length content))"
| "estimate_response_item_model_visible_bytes m (ContextCompaction (Some content)) =
     to_i64 (estimate_reasoning_length (length content))"
| "estimate_response_item_model_visible_bytes m item = json_estimate m item"

definition approx_tokens_from_byte_count_i64 :: "int \<Rightarrow> int" where
  "approx_tokens_from_byte_count_i64 bytes = (if bytes \<le> 0 then 0 else to_i64 (approx_tokens_from_byte_count (nat bytes)))"

definition estimate_item_token_count :: "'x measures \<Rightarrow> 'x response_item \<Rightarrow> int" where
  "estimate_item_token_count m item = approx_tokens_from_byte_count_i64 (estimate_response_item_model_visible_bytes m item)"

subsection \<open>The history\<close>

definition sum_i64 :: "('a \<Rightarrow> int) \<Rightarrow> 'a list \<Rightarrow> int" where
  "sum_i64 f xs = fold (\<lambda>x acc. sat_add_i64 acc (f x)) xs 0"

definition estimate_token_count_with_base_instructions :: "'x measures \<Rightarrow> ('x, 'c) context_manager \<Rightarrow> string \<Rightarrow> int" where
  "estimate_token_count_with_base_instructions m cm base_instructions =
     sat_add_i64 (to_i64 (approx_token_count base_instructions)) (sum_i64 (estimate_item_token_count m) (history_items cm))"

definition is_model_generated_item :: "'x response_item \<Rightarrow> bool" where
  "is_model_generated_item item \<longleftrightarrow>
     (case item of
        Message _ role _ _ \<Rightarrow> role = ''assistant''
      | CompactionTrigger \<Rightarrow> False
      | FunctionCallOutput _ _ \<Rightarrow> False | ToolSearchOutput _ _ _ _ \<Rightarrow> False | CustomToolCallOutput _ _ _ \<Rightarrow> False
      | OtherItem \<Rightarrow> False
      | _ \<Rightarrow> True)"

definition is_codex_generated_item :: "'x response_item \<Rightarrow> bool" where
  "is_codex_generated_item item \<longleftrightarrow>
     (case item of
        FunctionCallOutput _ _ \<Rightarrow> True | ToolSearchOutput _ _ _ _ \<Rightarrow> True | CustomToolCallOutput _ _ _ \<Rightarrow> True
      | Message _ role _ _ \<Rightarrow> role = ''developer''
      | _ \<Rightarrow> False)"

definition is_encrypted_reasoning :: "'x response_item \<Rightarrow> bool" where
  "is_encrypted_reasoning item \<longleftrightarrow> (case item of Reasoning _ _ _ (Some _) \<Rightarrow> True | _ \<Rightarrow> False)"

definition get_non_last_reasoning_items_tokens :: "'x measures \<Rightarrow> text_parsers \<Rightarrow> ('x, 'c) context_manager \<Rightarrow> int" where
  "get_non_last_reasoning_items_tokens m ps cm =
     (case rposition (is_user_turn_boundary ps) (history_items cm) of
        None \<Rightarrow> 0
      | Some last_user_index \<Rightarrow>
          sum_i64 (estimate_item_token_count m) (filter is_encrypted_reasoning (take last_user_index (history_items cm))))"

definition items_after_last_model_generated_item :: "('x, 'c) context_manager \<Rightarrow> 'x response_item list" where
  "items_after_last_model_generated_item cm =
     (let start = (case rposition is_model_generated_item (history_items cm) of
                     None \<Rightarrow> length (history_items cm) | Some index \<Rightarrow> sat_add index 1)
      in drop start (history_items cm))"

definition last_total :: "('x, 'c) context_manager \<Rightarrow> int" where
  "last_total cm = (case token_info cm of Some info \<Rightarrow> total_tokens (last_token_usage info) | None \<Rightarrow> 0)"

definition get_total_token_usage :: "'x measures \<Rightarrow> text_parsers \<Rightarrow> ('x, 'c) context_manager \<Rightarrow> bool \<Rightarrow> int" where
  "get_total_token_usage m ps cm server_reasoning_included =
     (let last_tokens = last_total cm;
          items_after = sum_i64 (estimate_item_token_count m) (items_after_last_model_generated_item cm)
      in if server_reasoning_included then sat_add_i64 last_tokens items_after
         else sat_add_i64 (sat_add_i64 last_tokens (get_non_last_reasoning_items_tokens m ps cm)) items_after)"

record usage_breakdown =
  last_api_response_total_tokens :: int
  all_history_items_model_visible_bytes :: int
  estimated_tokens_of_items_added :: int
  estimated_bytes_of_items_added :: int

definition get_total_token_usage_breakdown :: "'x measures \<Rightarrow> ('x, 'c) context_manager \<Rightarrow> usage_breakdown" where
  "get_total_token_usage_breakdown m cm =
     (let items_after = items_after_last_model_generated_item cm
      in \<lparr>last_api_response_total_tokens = last_total cm,
          all_history_items_model_visible_bytes =
            sum_i64 (estimate_response_item_model_visible_bytes m) (history_items cm),
          estimated_tokens_of_items_added = sum_i64 (estimate_item_token_count m) items_after,
          estimated_bytes_of_items_added = sum_i64 (estimate_response_item_model_visible_bytes m) items_after\<rparr>)"

subsection \<open>Sums that saturate\<close>

lemma sat_add_mono: "a \<le> a' \<Longrightarrow> b \<le> b' \<Longrightarrow> sat_add_i64 a b \<le> sat_add_i64 a' b'"
  by (auto simp: sat_add_i64_def clamp_i64_def)

lemma sat_add_range: "i64_min \<le> sat_add_i64 a b" "sat_add_i64 a b \<le> i64_max"
  by (auto simp: sat_add_i64_def clamp_i64_def i64_min_def i64_max_def)

lemma item_tokens_nonneg: "0 \<le> estimate_item_token_count m item"
  by (simp add: estimate_item_token_count_def approx_tokens_from_byte_count_i64_def to_i64_def i64_max_def)

lemma sum_i64_Nil [simp]: "sum_i64 f [] = 0"
  by (simp add: sum_i64_def)

lemma sum_i64_append: "sum_i64 f (xs @ ys) = fold (\<lambda>x acc. sat_add_i64 acc (f x)) ys (sum_i64 f xs)"
  by (simp add: sum_i64_def)

text \<open>Of counts that are not negative, the sum is the true one as long as it fits.\<close>

lemma tokens_sum_nonneg: "(\<And>x. 0 \<le> f x) \<Longrightarrow> 0 \<le> (\<Sum>x \<leftarrow> xs. f x :: int)"
  by (induction xs) simp_all

lemma fold_sat:
  fixes f :: "'a \<Rightarrow> int"
  assumes "\<And>x. 0 \<le> f x"
  shows "0 \<le> acc \<Longrightarrow> acc \<le> i64_max \<Longrightarrow>
    fold (\<lambda>x acc. sat_add_i64 acc (f x)) xs acc = min i64_max (acc + (\<Sum>x \<leftarrow> xs. f x))"
proof (induction xs arbitrary: acc)
  case (Cons x xs)
  have nonneg: "0 \<le> f x" "0 \<le> (\<Sum>x \<leftarrow> xs. f x)" using assms tokens_sum_nonneg [of f xs] by auto
  have "sat_add_i64 acc (f x) = min i64_max (acc + f x)"
    using Cons.prems nonneg by (auto simp: sat_add_i64_def clamp_i64_def i64_min_def)
  moreover from this have "0 \<le> sat_add_i64 acc (f x)" "sat_add_i64 acc (f x) \<le> i64_max"
    using Cons.prems nonneg by auto
  ultimately show ?case using Cons.IH [of "sat_add_i64 acc (f x)"] nonneg by auto
qed simp

lemma sum_tokens:
  "sum_i64 (estimate_item_token_count m) xs = min i64_max (\<Sum>x \<leftarrow> xs. estimate_item_token_count m x)"
  using fold_sat [of "estimate_item_token_count m" 0 xs, OF item_tokens_nonneg] by (simp add: sum_i64_def i64_max_def)

lemma sum_tokens_mono: "sum_i64 (estimate_item_token_count m) xs \<le> sum_i64 (estimate_item_token_count m) (xs @ ys)"
  using tokens_sum_nonneg [of "estimate_item_token_count m" ys, OF item_tokens_nonneg] by (simp add: sum_tokens min_def)

subsection \<open>The last position\<close>

lemma find_cong: "(\<And>i. i \<in> set xs \<Longrightarrow> p i = q i) \<Longrightarrow> List.find p xs = List.find q xs"
  by (induction xs) auto

lemma rposition_Nil [simp]: "rposition p [] = None"
  by (simp add: rposition_def)

lemma rposition_snoc [simp]: "rposition p (xs @ [x]) = (if p x then Some (length xs) else rposition p xs)"
proof -
  have "List.find (\<lambda>i. p ((xs @ [x]) ! i)) (rev [0 ..< length xs]) = List.find (\<lambda>i. p (xs ! i)) (rev [0 ..< length xs])"
    by (rule find_cong) (simp add: nth_append)
  then show ?thesis by (simp add: rposition_def)
qed

lemma rposition_less: "rposition p xs = Some i \<Longrightarrow> i < length xs"
  by (induction xs rule: rev_induct) (auto split: if_splits)

lemma rposition_later: "rposition p xs = Some i \<Longrightarrow> \<exists>j \<ge> i. rposition p (xs @ ys) = Some j"
proof (induction ys rule: rev_induct)
  case (snoc y ys)
  then obtain j where "j \<ge> i" "rposition p (xs @ ys) = Some j" by auto
  then show ?case
    using rposition_snoc [of p "xs @ ys" y] rposition_less [of p xs i] snoc.prems by auto
qed simp

lemma rposition_none_after: "list_all (\<lambda>y. \<not> p y) ys \<Longrightarrow> rposition p (xs @ ys) = rposition p xs"
  by (induction ys rule: rev_induct) (simp_all flip: append_assoc)

subsection \<open>Properties\<close>

lemma recorded_items:
  "history_items (record_items cm items policy) =
   history_items cm @ map (\<lambda>i. process_item i policy) (filter is_api_message items)"
proof -
  have "fold (\<lambda>item recorded. if \<not> is_api_message item then recorded else recorded @ [process_item item policy]) items acc =
      acc @ map (\<lambda>i. process_item i policy) (filter is_api_message items)" for acc :: "'a response_item list"
    by (induction items arbitrary: acc) auto
  then show ?thesis by (simp add: record_items_def)
qed

lemma processed_generated: "is_model_generated_item (process_item i policy) = is_model_generated_item i"
  by (cases i) (simp_all add: is_model_generated_item_def)

lemma reasoning_mono:
  assumes "history_items cm' = history_items cm @ new_items"
  shows "get_non_last_reasoning_items_tokens m ps cm \<le> get_non_last_reasoning_items_tokens m ps cm'"
proof (cases "rposition (is_user_turn_boundary ps) (history_items cm)")
  case None
  then have "get_non_last_reasoning_items_tokens m ps cm = 0" by (simp add: get_non_last_reasoning_items_tokens_def)
  moreover have "0 \<le> get_non_last_reasoning_items_tokens m ps cm'"
    using tokens_sum_nonneg [of "estimate_item_token_count m", OF item_tokens_nonneg]
    by (simp add: get_non_last_reasoning_items_tokens_def sum_tokens i64_max_def split: option.splits)
  ultimately show ?thesis by simp
next
  case (Some i)
  then obtain j where j: "j \<ge> i" "rposition (is_user_turn_boundary ps) (history_items cm') = Some j"
    using rposition_later assms by metis
  from rposition_less [OF Some] j(1) have "take i (take j (history_items cm')) = take i (history_items cm)"
    using assms by (simp add: min_absorb1)
  then have "\<exists>rest. take j (history_items cm') = take i (history_items cm) @ rest"
    by (metis append_take_drop_id)
  then show ?thesis
    using Some j(2) sum_tokens_mono by (auto simp: get_non_last_reasoning_items_tokens_def)
qed

lemma items_after_mono:
  assumes "history_items cm' = history_items cm @ new_items" and "list_all (\<lambda>i. \<not> is_model_generated_item i) new_items"
  shows "\<exists>rest. items_after_last_model_generated_item cm' = items_after_last_model_generated_item cm @ rest"
proof (cases "rposition is_model_generated_item (history_items cm)")
  case None
  with assms rposition_none_after [OF assms(2)] show ?thesis by (simp add: items_after_last_model_generated_item_def)
next
  case (Some i)
  with rposition_less [OF Some] have "sat_add i 1 \<le> length (history_items cm)" by (simp add: sat_add_def)
  with Some assms rposition_none_after [OF assms(2)] show ?thesis by (simp add: items_after_last_model_generated_item_def)
qed

text \<open>
  (C26) The estimate of the tokens in use never leaves the \<open>i64\<close> range, and recording items that the
  model has not produced (user messages, tool outputs) never lowers it, whatever the sizes are and
  though the numbers saturate.
\<close>

theorem recording_never_lowers_usage:
  assumes "list_all (\<lambda>i. \<not> is_model_generated_item i) items"
  shows "get_total_token_usage m ps cm server \<le> get_total_token_usage m ps (record_items cm items policy) server \<and>
    i64_min \<le> get_total_token_usage m ps cm server \<and>
    get_total_token_usage m ps (record_items cm items policy) server \<le> i64_max"
proof -
  let ?cm = "record_items cm items policy" and ?new = "map (\<lambda>i. process_item i policy) (filter is_api_message items)"
  have items: "history_items ?cm = history_items cm @ ?new" by (rule recorded_items)
  have "list_all (\<lambda>i. \<not> is_model_generated_item i) ?new"
    using assms by (auto simp: list_all_iff processed_generated)
  from items_after_mono [OF items this] sum_tokens_mono
  have after: "sum_i64 (estimate_item_token_count m) (items_after_last_model_generated_item cm) \<le>
      sum_i64 (estimate_item_token_count m) (items_after_last_model_generated_item ?cm)"
    by (metis (no_types))
  have "last_total ?cm = last_total cm" by (simp add: last_total_def record_items_def)
  with after reasoning_mono [OF items, of m ps] sat_add_range show ?thesis
    unfolding get_total_token_usage_def Let_def by (auto intro!: sat_add_mono)
qed

definition sample_measures :: "unit measures" where
  "sample_measures = \<lparr>json_length = (\<lambda>i. Some 40), image_size = (\<lambda>p. None)\<rparr>"

theorem recording_never_lowers_usage_witness:
  "get_total_token_usage sample_measures sample_parsers sample_history False \<le>
   get_total_token_usage sample_measures sample_parsers
     (record_items sample_history [FunctionCallOutput ''c1'' (payload_from_text ''ok'')] (Tokens 10)) False"
proof -
  have "list_all (\<lambda>i. \<not> is_model_generated_item i) [FunctionCallOutput ''c1'' (payload_from_text ''ok'') :: unit response_item]"
    by (simp add: is_model_generated_item_def)
  from recording_never_lowers_usage [OF this] show ?thesis by blast
qed

end
