(* ===== verification/Network_Addresses.thy ===== *)
theory Network_Addresses
  imports Rust_Prelude "HOL-Library.Word"
begin

section \<open>Addresses and what is public\<close>

text \<open>
  \<open>IpAddr\<close> of the standard library with its parser and its classification, and the test for
  addresses that are not public of \<open>codex-rs/network-proxy/src/policy.rs\<close>.
\<close>

unbundle bit_operations_syntax

type_synonym ipv4 = "32 word"
type_synonym ipv6 = "128 word"

datatype ip_addr = IpV4 ipv4 | IpV6 ipv6

subsection \<open>Octets and segments\<close>

definition octet :: "ipv4 \<Rightarrow> nat \<Rightarrow> 8 word" where
  "octet ip k = ucast (drop_bit (24 - 8 * k) ip)"

definition segment :: "ipv6 \<Rightarrow> nat \<Rightarrow> 16 word" where
  "segment ip k = ucast (drop_bit (112 - 16 * k) ip)"

definition from_octets :: "int list \<Rightarrow> ipv4" where
  "from_octets os = of_int (foldl (\<lambda>n k. n * 256 + k) 0 os)"

definition from_segments :: "int list \<Rightarrow> ipv6" where
  "from_segments gs = of_int (foldl (\<lambda>n g. n * 65536 + g) 0 gs)"

subsection \<open>The parser of the standard library\<close>

text \<open>
  Every reader takes the rest of the input and gives back what it has read and the rest, or nothing,
  in which case no input is consumed.
\<close>

type_synonym 'a reader = "string \<Rightarrow> ('a \<times> string) option"

definition to_digit :: "int \<Rightarrow> char \<Rightarrow> int option" where
  "to_digit radix c =
     (let n = of_char c :: int;
          d = (if 48 \<le> n \<and> n \<le> 57 then Some (n - 48)
               else if 97 \<le> n \<and> n \<le> 122 then Some (n - 87)
               else if 65 \<le> n \<and> n \<le> 90 then Some (n - 55) else None)
      in case d of Some d \<Rightarrow> if d < radix then Some d else None | None \<Rightarrow> None)"

text \<open>The digits read by \<open>read_number\<close>; a number with more than \<open>max_digits\<close> is refused.\<close>

fun read_digits :: "int \<Rightarrow> string \<Rightarrow> int list \<times> string" where
  "read_digits radix [] = ([], [])"
| "read_digits radix (c # s) =
     (case to_digit radix c of
        None \<Rightarrow> ([], c # s)
      | Some d \<Rightarrow> (case read_digits radix s of (ds, rest) \<Rightarrow> (d # ds, rest)))"

definition read_number :: "int \<Rightarrow> nat \<Rightarrow> bool \<Rightarrow> int \<Rightarrow> int reader" where
  "read_number radix max_digits allow_zero_prefix max_value s =
     (case read_digits radix s of (ds, rest) \<Rightarrow>
        (let value = foldl (\<lambda>n d. n * radix + d) 0 ds in
         if max_digits < length ds then None
         else if ds = [] then None
         else if \<not> allow_zero_prefix \<and> hd ds = 0 \<and> 1 < length ds then None
         else if max_value < value then None
         else Some (value, rest)))"

definition read_separator :: "char \<Rightarrow> nat \<Rightarrow> 'a reader \<Rightarrow> 'a reader" where
  "read_separator sep index inner s =
     (if index = 0 then inner s
      else (case s of [] \<Rightarrow> None | c # rest \<Rightarrow> if c = sep then inner rest else None))"

fun read_octets :: "nat \<Rightarrow> nat \<Rightarrow> int list reader" where
  "read_octets i 0 s = Some ([], s)"
| "read_octets i (Suc n) s =
     (case read_separator CHR ''.'' i (read_number 10 3 False 255) s of
        None \<Rightarrow> None
      | Some (k, rest) \<Rightarrow> map_option (\<lambda>(ks, rest). (k # ks, rest)) (read_octets (Suc i) n rest))"

definition read_ipv4_addr :: "int list reader" where
  "read_ipv4_addr s = read_octets 0 4 s"

text \<open>\<open>read_groups\<close>: up to \<open>limit\<close> groups from the index \<open>i\<close> on, and whether the last two are an IPv4 address.\<close>

fun read_groups :: "nat \<Rightarrow> nat \<Rightarrow> string \<Rightarrow> int list \<times> bool \<times> string" where
  "read_groups i 0 s = ([], False, s)"
| "read_groups i (Suc left) s =
     (case (if 0 < left then read_separator CHR '':'' i read_ipv4_addr s else None) of
        Some (os, rest) \<Rightarrow> ([os ! 0 * 256 + os ! 1, os ! 2 * 256 + os ! 3], True, rest)
      | None \<Rightarrow>
          (case read_separator CHR '':'' i (read_number 16 4 True 65535) s of
             None \<Rightarrow> ([], False, s)
           | Some (g, rest) \<Rightarrow>
               (case read_groups (Suc i) left rest of (gs, v4, rest) \<Rightarrow> (g # gs, v4, rest))))"

definition read_ipv6_addr :: "int list reader" where
  "read_ipv6_addr s =
     (case read_groups 0 8 s of (head, head_ipv4, rest) \<Rightarrow>
        if length head = 8 then Some (head, rest)
        else if head_ipv4 then None
        else (case strip_prefix ''::'' rest of
                None \<Rightarrow> None
              | Some rest \<Rightarrow>
                  (case read_groups 0 (8 - (length head + 1)) rest of (tail, _, rest) \<Rightarrow>
                     Some (head @ replicate (8 - length head - length tail) 0 @ tail, rest))))"

definition parse_ip :: "string \<Rightarrow> ip_addr option" where
  "parse_ip s =
     (case read_ipv4_addr s of
        Some (os, rest) \<Rightarrow> if rest = [] then Some (IpV4 (from_octets os)) else None
      | None \<Rightarrow>
          (case read_ipv6_addr s of
             Some (gs, rest) \<Rightarrow> if rest = [] then Some (IpV6 (from_segments gs)) else None
           | None \<Rightarrow> None))"

subsection \<open>Classification in the standard library\<close>

definition v4_is_loopback :: "ipv4 \<Rightarrow> bool" where
  "v4_is_loopback ip \<longleftrightarrow> octet ip 0 = 127"

definition v4_is_private :: "ipv4 \<Rightarrow> bool" where
  "v4_is_private ip \<longleftrightarrow>
     octet ip 0 = 10 \<or> octet ip 0 = 172 \<and> 16 \<le> octet ip 1 \<and> octet ip 1 \<le> 31 \<or> octet ip 0 = 192 \<and> octet ip 1 = 168"

definition v4_is_link_local :: "ipv4 \<Rightarrow> bool" where
  "v4_is_link_local ip \<longleftrightarrow> octet ip 0 = 169 \<and> octet ip 1 = 254"

definition v4_is_multicast :: "ipv4 \<Rightarrow> bool" where
  "v4_is_multicast ip \<longleftrightarrow> 224 \<le> octet ip 0 \<and> octet ip 0 \<le> 239"

definition v6_to_ipv4 :: "ipv6 \<Rightarrow> ipv4 option" where
  "v6_to_ipv4 ip =
     (if list_all (\<lambda>k. segment ip k = 0) [0, 1, 2, 3, 4] \<and> (segment ip 5 = 0 \<or> segment ip 5 = 0xffff)
      then Some (ucast ip) else None)"

definition v6_is_multicast :: "ipv6 \<Rightarrow> bool" where
  "v6_is_multicast ip \<longleftrightarrow> segment ip 0 AND 0xff00 = 0xff00"

definition v6_is_unique_local :: "ipv6 \<Rightarrow> bool" where
  "v6_is_unique_local ip \<longleftrightarrow> segment ip 0 AND 0xfe00 = 0xfc00"

definition v6_is_unicast_link_local :: "ipv6 \<Rightarrow> bool" where
  "v6_is_unicast_link_local ip \<longleftrightarrow> segment ip 0 AND 0xffc0 = 0xfe80"

fun ip_is_loopback :: "ip_addr \<Rightarrow> bool" where
  "ip_is_loopback (IpV4 ip) = v4_is_loopback ip"
| "ip_is_loopback (IpV6 ip) = (ip = 1)"

subsection \<open>What is not public\<close>

definition ipv4_in_cidr :: "ipv4 \<Rightarrow> int list \<Rightarrow> nat \<Rightarrow> bool" where
  "ipv4_in_cidr ip base prefix =
     (let base = from_octets base;
          mask = (if prefix = 0 then 0 else push_bit (32 - prefix) (- 1 :: ipv4))
      in ip AND mask = base AND mask)"

definition is_non_public_ipv4 :: "ipv4 \<Rightarrow> bool" where
  "is_non_public_ipv4 ip \<longleftrightarrow>
     v4_is_loopback ip \<or> v4_is_private ip \<or> v4_is_link_local ip \<or> ip = 0 \<or> v4_is_multicast ip \<or> ip = - 1 \<or>
     ipv4_in_cidr ip [0, 0, 0, 0] 8 \<or> ipv4_in_cidr ip [100, 64, 0, 0] 10 \<or> ipv4_in_cidr ip [192, 0, 0, 0] 24 \<or>
     ipv4_in_cidr ip [192, 0, 2, 0] 24 \<or> ipv4_in_cidr ip [198, 18, 0, 0] 15 \<or> ipv4_in_cidr ip [198, 51, 100, 0] 24 \<or>
     ipv4_in_cidr ip [203, 0, 113, 0] 24 \<or> ipv4_in_cidr ip [240, 0, 0, 0] 4"

definition is_non_public_ipv6 :: "ipv6 \<Rightarrow> bool" where
  "is_non_public_ipv6 ip \<longleftrightarrow>
     (case v6_to_ipv4 ip of
        Some v4 \<Rightarrow> is_non_public_ipv4 v4 \<or> ip = 1
      | None \<Rightarrow>
          ip = 1 \<or> ip = 0 \<or> v6_is_multicast ip \<or> v6_is_unique_local ip \<or> v6_is_unicast_link_local ip)"

fun is_non_public_ip :: "ip_addr \<Rightarrow> bool" where
  "is_non_public_ip (IpV4 ip) = is_non_public_ipv4 ip"
| "is_non_public_ip (IpV6 ip) = is_non_public_ipv6 ip"

subsection \<open>Blocks of addresses\<close>

text \<open>A test with a mask of leading ones compares the leading bits.\<close>

lemma mask_compares_prefix:
  fixes a b :: "'a::len word"
  shows "a AND push_bit k (- 1) = b AND push_bit k (- 1) \<longleftrightarrow> drop_bit k a = drop_bit k b"
proof
  assume eq: "a AND push_bit k (- 1) = b AND push_bit k (- 1)"
  show "drop_bit k a = drop_bit k b"
  proof (rule bit_word_eqI)
    fix n assume "n < LENGTH('a)"
    from eq have "bit (a AND push_bit k (- 1)) (k + n) = bit (b AND push_bit k (- 1)) (k + n)" by simp
    then show "bit (drop_bit k a) n = bit (drop_bit k b) n"
      by (auto simp: bit_simps dest: bit_imp_le_length)
  qed
next
  assume eq: "drop_bit k a = drop_bit k b"
  show "a AND push_bit k (- 1) = b AND push_bit k (- 1)"
  proof (rule bit_word_eqI)
    fix n assume "n < LENGTH('a)"
    have "bit a n = bit b n" if "k \<le> n"
      using arg_cong [OF eq, of "\<lambda>w. bit w (n - k)"] that by (simp add: bit_simps)
    then show "bit (a AND push_bit k (- 1)) n = bit (b AND push_bit k (- 1)) n"
      by (auto simp: bit_simps)
  qed
qed

lemma unat_drop: "unat (drop_bit k a) = unat a div 2 ^ k"
  for a :: "'a::len word"
  by (simp only: unat_drop_bit_eq drop_bit_eq_div [where ?'a = nat])

lemma drop_bit_unat: "drop_bit k a = drop_bit k b \<longleftrightarrow> unat a div 2 ^ k = unat b div 2 ^ k"
  for a b :: "'a::len word"
  by (simp only: word_unat_eq_iff unat_drop)

lemma in_cidr_iff:
  assumes "0 < p"
  shows "ipv4_in_cidr ip base p \<longleftrightarrow> unat ip div 2 ^ (32 - p) = unat (from_octets base) div 2 ^ (32 - p)"
proof -
  from assms have "p \<noteq> 0" by simp
  then show ?thesis unfolding ipv4_in_cidr_def Let_def by (simp only: if_False mask_compares_prefix drop_bit_unat)
qed

lemma octet_unat: "unat (octet ip k) = unat ip div 2 ^ (24 - 8 * k) mod 256"
  unfolding octet_def by (simp only: unsigned_ucast_eq unat_drop) (simp add: take_bit_eq_mod)

lemma segment_unat: "unat (segment ip k) = unat ip div 2 ^ (112 - 16 * k) mod 65536"
  unfolding segment_def by (simp only: unsigned_ucast_eq unat_drop) (simp add: take_bit_eq_mod)

definition v4_range :: "int list \<Rightarrow> int list \<Rightarrow> ipv4 \<Rightarrow> bool" where
  "v4_range first final ip \<longleftrightarrow> from_octets first \<le> ip \<and> ip \<le> from_octets final"

definition NON_PUBLIC_IPV4 :: "(int list \<times> int list) list" where
  "NON_PUBLIC_IPV4 =
     [([0, 0, 0, 0], [0, 255, 255, 255]),
      ([10, 0, 0, 0], [10, 255, 255, 255]),
      ([100, 64, 0, 0], [100, 127, 255, 255]),
      ([127, 0, 0, 0], [127, 255, 255, 255]),
      ([169, 254, 0, 0], [169, 254, 255, 255]),
      ([172, 16, 0, 0], [172, 31, 255, 255]),
      ([192, 0, 0, 0], [192, 0, 0, 255]),
      ([192, 0, 2, 0], [192, 0, 2, 255]),
      ([192, 168, 0, 0], [192, 168, 255, 255]),
      ([198, 18, 0, 0], [198, 19, 255, 255]),
      ([198, 51, 100, 0], [198, 51, 100, 255]),
      ([203, 0, 113, 0], [203, 0, 113, 255]),
      ([224, 0, 0, 0], [255, 255, 255, 255])]"

lemma non_public_v4_unat:
  "is_non_public_ipv4 ip \<longleftrightarrow>
   (let n = unat ip; a = n div 2 ^ 24; b = n div 2 ^ 16 in
      a = 127 \<or> a = 10 \<or> a = 172 \<and> 16 \<le> b mod 256 \<and> b mod 256 \<le> 31 \<or> a = 192 \<and> b mod 256 = 168 \<or>
      a = 169 \<and> b mod 256 = 254 \<or> n = 0 \<or> 224 \<le> a \<and> a \<le> 239 \<or> n = 2 ^ 32 - 1 \<or>
      a = 0 \<or> n div 2 ^ 22 = 401 \<or> n div 2 ^ 8 = 12582912 \<or>
      n div 2 ^ 8 = 12582914 \<or> n div 2 ^ 17 = 25353 \<or> n div 2 ^ 8 = 12989284 \<or>
      n div 2 ^ 8 = 13303921 \<or> n div 2 ^ 28 = 15)"
proof -
  let ?n = "unat ip"
  have n: "?n < 2 ^ 32" using unsigned_less [of ip] by simp
  have o0: "unat (octet ip 0) = ?n div 2 ^ 24" using n by (simp add: octet_unat)
  have o1: "unat (octet ip 1) = ?n div 2 ^ 16 mod 256" by (simp add: octet_unat)
  have "ip = 0 \<longleftrightarrow> ?n = 0" by (simp add: unat_eq_0)
  moreover have "ip = - 1 \<longleftrightarrow> ?n = 2 ^ 32 - 1" by (simp add: word_unat_eq_iff unsigned_minus_1_eq_mask mask_eq_exp_minus_1)
  moreover have "v4_is_loopback ip \<longleftrightarrow> ?n div 2 ^ 24 = 127" "v4_is_multicast ip \<longleftrightarrow> 224 \<le> ?n div 2 ^ 24 \<and> ?n div 2 ^ 24 \<le> 239"
    "v4_is_link_local ip \<longleftrightarrow> ?n div 2 ^ 24 = 169 \<and> ?n div 2 ^ 16 mod 256 = 254"
    unfolding v4_is_loopback_def v4_is_multicast_def v4_is_link_local_def word_le_nat_alt word_unat_eq_iff o0 o1 by simp_all
  moreover have "v4_is_private ip \<longleftrightarrow> ?n div 2 ^ 24 = 10 \<or>
      ?n div 2 ^ 24 = 172 \<and> 16 \<le> ?n div 2 ^ 16 mod 256 \<and> ?n div 2 ^ 16 mod 256 \<le> 31 \<or>
      ?n div 2 ^ 24 = 192 \<and> ?n div 2 ^ 16 mod 256 = 168"
    unfolding v4_is_private_def word_le_nat_alt word_unat_eq_iff o0 o1 by simp
  moreover have "ipv4_in_cidr ip [0, 0, 0, 0] 8 \<longleftrightarrow> ?n div 2 ^ 24 = 0"
    "ipv4_in_cidr ip [100, 64, 0, 0] 10 \<longleftrightarrow> ?n div 2 ^ 22 = 401"
    "ipv4_in_cidr ip [192, 0, 0, 0] 24 \<longleftrightarrow> ?n div 2 ^ 8 = 12582912"
    "ipv4_in_cidr ip [192, 0, 2, 0] 24 \<longleftrightarrow> ?n div 2 ^ 8 = 12582914"
    "ipv4_in_cidr ip [198, 18, 0, 0] 15 \<longleftrightarrow> ?n div 2 ^ 17 = 25353"
    "ipv4_in_cidr ip [198, 51, 100, 0] 24 \<longleftrightarrow> ?n div 2 ^ 8 = 12989284"
    "ipv4_in_cidr ip [203, 0, 113, 0] 24 \<longleftrightarrow> ?n div 2 ^ 8 = 13303921"
    "ipv4_in_cidr ip [240, 0, 0, 0] 4 \<longleftrightarrow> ?n div 2 ^ 28 = 15"
    by (simp_all add: in_cidr_iff from_octets_def)
  ultimately show ?thesis unfolding is_non_public_ipv4_def Let_def by simp
qed

lemma range_unat:
  "v4_range first final ip \<longleftrightarrow> unat (from_octets first) \<le> unat ip \<and> unat ip \<le> unat (from_octets final)"
  by (simp add: v4_range_def word_le_nat_alt)

lemma two_octets:
  fixes b :: nat
  shows "b div 256 = 172 \<and> 16 \<le> b mod 256 \<and> b mod 256 \<le> 31 \<longleftrightarrow> 44048 \<le> b \<and> b < 44064"
    "b div 256 = 192 \<and> b mod 256 = 168 \<longleftrightarrow> b = 49320" "b div 256 = 169 \<and> b mod 256 = 254 \<longleftrightarrow> b = 43518"
proof -
  define q r where "q = b div 256" and "r = b mod 256"
  then have b: "b = 256 * q + r" "r < 256" by simp_all
  consider "q < 169" | "q = 169" | "169 < q" "q < 172" | "q = 172" | "172 < q" "q < 192" | "q = 192" | "192 < q" by linarith
  then show "b div 256 = 172 \<and> 16 \<le> b mod 256 \<and> b mod 256 \<le> 31 \<longleftrightarrow> 44048 \<le> b \<and> b < 44064"
    "b div 256 = 192 \<and> b mod 256 = 168 \<longleftrightarrow> b = 49320" "b div 256 = 169 \<and> b mod 256 = 254 \<longleftrightarrow> b = 43518"
    unfolding q_def [symmetric] r_def [symmetric] by (cases; use b in \<open>auto\<close>)+
qed

lemma v4_blocks:
  "is_non_public_ipv4 ip \<longleftrightarrow> list_ex (\<lambda>(first, final). v4_range first final ip) NON_PUBLIC_IPV4"
proof -
  let ?n = "unat ip"
  define I where "I a b \<longleftrightarrow> a \<le> ?n \<and> ?n \<le> b" for a b :: nat
  have n: "?n < 4294967296" using unsigned_less [of ip] by simp
  have halves: "?n div 2 ^ 24 = ?n div 2 ^ 16 div 256" by (simp add: div_mult2_eq [of ?n 65536 256, simplified])
  have split: "?n div 2 ^ 24 = 172 \<and> 16 \<le> ?n div 2 ^ 16 mod 256 \<and> ?n div 2 ^ 16 mod 256 \<le> 31 \<longleftrightarrow> I 2886729728 2887778303"
    "?n div 2 ^ 24 = 192 \<and> ?n div 2 ^ 16 mod 256 = 168 \<longleftrightarrow> I 3232235520 3232301055"
    "?n div 2 ^ 24 = 169 \<and> ?n div 2 ^ 16 mod 256 = 254 \<longleftrightarrow> I 2851995648 2852061183"
    unfolding halves two_octets I_def by auto
  have blocks: "?n div 2 ^ 24 = 127 \<longleftrightarrow> I 2130706432 2147483647"
    "?n div 2 ^ 24 = 10 \<longleftrightarrow> I 167772160 184549375"
    "224 \<le> ?n div 2 ^ 24 \<and> ?n div 2 ^ 24 \<le> 239 \<longleftrightarrow> I 3758096384 4026531839"
    "?n div 2 ^ 24 = 0 \<longleftrightarrow> I 0 16777215" "?n div 2 ^ 22 = 401 \<longleftrightarrow> I 1681915904 1686110207"
    "?n div 2 ^ 8 = 12582912 \<longleftrightarrow> I 3221225472 3221225727"
    "?n div 2 ^ 8 = 12582914 \<longleftrightarrow> I 3221225984 3221226239"
    "?n div 2 ^ 17 = 25353 \<longleftrightarrow> I 3323068416 3323199487"
    "?n div 2 ^ 8 = 12989284 \<longleftrightarrow> I 3325256704 3325256959"
    "?n div 2 ^ 8 = 13303921 \<longleftrightarrow> I 3405803776 3405804031"
    "?n div 2 ^ 28 = 15 \<longleftrightarrow> I 4026531840 4294967295"
    unfolding I_def using n by auto
  have "list_ex (\<lambda>(first, final). v4_range first final ip) NON_PUBLIC_IPV4 \<longleftrightarrow>
      I 0 16777215 \<or> I 167772160 184549375 \<or> I 1681915904 1686110207 \<or>
      I 2130706432 2147483647 \<or> I 2851995648 2852061183 \<or> I 2886729728 2887778303 \<or>
      I 3221225472 3221225727 \<or> I 3221225984 3221226239 \<or> I 3232235520 3232301055 \<or>
      I 3323068416 3323199487 \<or> I 3325256704 3325256959 \<or> I 3405803776 3405804031 \<or>
      I 3758096384 4294967295"
    by (simp add: NON_PUBLIC_IPV4_def range_unat from_octets_def I_def)
  moreover have "I 3758096384 4294967295 \<longleftrightarrow>
      I 3758096384 4026531839 \<or> I 4026531840 4294967295"
    "?n = 0 \<Longrightarrow> I 0 16777215" "?n = 2 ^ 32 - 1 \<Longrightarrow> I 4026531840 4294967295"
    unfolding I_def by auto
  ultimately show ?thesis unfolding non_public_v4_unat Let_def split blocks by blast
qed

subsection \<open>IPv6\<close>

lemma leading_bits:
  fixes s :: "16 word"
  shows "s AND 0xff00 = 0xff00 \<longleftrightarrow> unat s div 256 = 255" "s AND 0xfe00 = 0xfc00 \<longleftrightarrow> unat s div 512 = 126"
    "s AND 0xffc0 = 0xfe80 \<longleftrightarrow> unat s div 64 = 1018"
proof -
  have masks: "(0xff00 :: 16 word) = push_bit 8 (- 1)" "(0xfe00 :: 16 word) = push_bit 9 (- 1)"
    "(0xffc0 :: 16 word) = push_bit 6 (- 1)"
    by (code_simp)+
  have bases: "(0xff00 :: 16 word) = 0xff00 AND push_bit 8 (- 1)" "(0xfc00 :: 16 word) = 0xfc00 AND push_bit 9 (- 1)"
    "(0xfe80 :: 16 word) = 0xfe80 AND push_bit 6 (- 1)"
    by (code_simp)+
  have "s AND push_bit 8 (- 1) = 0xff00 AND push_bit 8 (- 1) \<longleftrightarrow> unat s div 256 = 255"
    "s AND push_bit 9 (- 1) = 0xfc00 AND push_bit 9 (- 1) \<longleftrightarrow> unat s div 512 = 126"
    "s AND push_bit 6 (- 1) = 0xfe80 AND push_bit 6 (- 1) \<longleftrightarrow> unat s div 64 = 1018"
    unfolding mask_compares_prefix drop_bit_unat by simp_all
  with masks bases show "s AND 0xff00 = 0xff00 \<longleftrightarrow> unat s div 256 = 255" "s AND 0xfe00 = 0xfc00 \<longleftrightarrow> unat s div 512 = 126"
    "s AND 0xffc0 = 0xfe80 \<longleftrightarrow> unat s div 64 = 1018"
    by metis+
qed

lemma leading_zeros:
  fixes n :: nat
  assumes "n < 2 ^ 128"
  shows "list_all (\<lambda>k. n div 2 ^ (112 - 16 * k) mod 65536 = 0) [0, 1, 2, 3, 4] \<longleftrightarrow> n div 2 ^ 48 = 0"
proof -
  have step: "x div 65536 = 0 \<and> x mod 65536 = 0 \<longleftrightarrow> x = 0" for x :: nat by (metis div_mult_mod_eq mult_zero_left add_0 div_0 mod_0)
  have div: "n div 2 ^ 112 = n div 2 ^ 96 div 65536" "n div 2 ^ 96 = n div 2 ^ 80 div 65536"
    "n div 2 ^ 80 = n div 2 ^ 64 div 65536" "n div 2 ^ 64 = n div 2 ^ 48 div 65536"
    by (simp_all add: div_mult2_eq [symmetric])
  have "n div 2 ^ 112 mod 65536 = n div 2 ^ 112" using assms by simp
  then have "list_all (\<lambda>k. n div 2 ^ (112 - 16 * k) mod 65536 = 0) [0, 1, 2, 3, 4] \<longleftrightarrow>
      n div 2 ^ 112 = 0 \<and> n div 2 ^ 96 mod 65536 = 0 \<and> n div 2 ^ 80 mod 65536 = 0 \<and> n div 2 ^ 64 mod 65536 = 0 \<and>
      n div 2 ^ 48 mod 65536 = 0"
    by simp
  also have "\<dots> \<longleftrightarrow> n div 2 ^ 48 = 0"
    using step [of "n div 2 ^ 96"] step [of "n div 2 ^ 80"] step [of "n div 2 ^ 64"] step [of "n div 2 ^ 48"]
    unfolding div(1) by (metis div(2-4))
  finally show ?thesis .
qed

lemma v6_embeds:
  "v6_to_ipv4 ip = (if unat ip div 2 ^ 32 = 0 \<or> unat ip div 2 ^ 32 = 65535 then Some (ucast ip) else None)"
proof -
  let ?n = "unat ip"
  have n: "?n < 2 ^ 128" using unsigned_less [of ip] by simp
  have div: "?n div 2 ^ 48 = ?n div 2 ^ 32 div 65536" by (simp add: div_mult2_eq [symmetric])
  have seg5: "unat (segment ip 5) = ?n div 2 ^ 32 mod 65536" by (simp add: segment_unat)
  have "list_all (\<lambda>k. segment ip k = 0) [0, 1, 2, 3, 4] \<longleftrightarrow> ?n div 2 ^ 48 = 0"
    unfolding leading_zeros [OF n, symmetric] segment_unat [symmetric] by (simp add: unat_eq_0)
  moreover have "segment ip 5 = 0 \<longleftrightarrow> ?n div 2 ^ 32 mod 65536 = 0" "segment ip 5 = 0xffff \<longleftrightarrow> ?n div 2 ^ 32 mod 65536 = 65535"
    unfolding seg5 [symmetric] by (simp_all add: word_unat_eq_iff)
  ultimately show ?thesis unfolding v6_to_ipv4_def div by (cases "?n div 2 ^ 32 < 65536") auto
qed

definition v6_range :: "int list \<Rightarrow> int list \<Rightarrow> ipv6 \<Rightarrow> bool" where
  "v6_range first final ip \<longleftrightarrow> from_segments first \<le> ip \<and> ip \<le> from_segments final"

text \<open>Unique local, link local and multicast addresses.\<close>

definition NON_PUBLIC_IPV6 :: "(int list \<times> int list) list" where
  "NON_PUBLIC_IPV6 =
     [([0xfc00, 0, 0, 0, 0, 0, 0, 0], [0xfdff, 0xffff, 0xffff, 0xffff, 0xffff, 0xffff, 0xffff, 0xffff]),
      ([0xfe80, 0, 0, 0, 0, 0, 0, 0], [0xfebf, 0xffff, 0xffff, 0xffff, 0xffff, 0xffff, 0xffff, 0xffff]),
      ([0xff00, 0, 0, 0, 0, 0, 0, 0], [0xffff, 0xffff, 0xffff, 0xffff, 0xffff, 0xffff, 0xffff, 0xffff])]"

lemma v6_blocks:
  "v6_is_multicast ip \<or> v6_is_unique_local ip \<or> v6_is_unicast_link_local ip \<longleftrightarrow>
   list_ex (\<lambda>(first, final). v6_range first final ip) NON_PUBLIC_IPV6"
proof -
  let ?n = "unat ip"
  have n: "?n < 2 ^ 128" using unsigned_less [of ip] by simp
  have seg0: "unat (segment ip 0) = ?n div 2 ^ 112" using n by (simp add: segment_unat)
  have range: "v6_range first final ip \<longleftrightarrow> unat (from_segments first) \<le> ?n \<and> ?n \<le> unat (from_segments final)" for first final
    by (simp add: v6_range_def word_le_nat_alt)
  have "v6_is_multicast ip \<longleftrightarrow> 0xff * 2 ^ 120 \<le> ?n \<and> ?n \<le> 2 ^ 128 - 1"
    "v6_is_unique_local ip \<longleftrightarrow> 0xfc * 2 ^ 120 \<le> ?n \<and> ?n \<le> 0xfe * 2 ^ 120 - 1"
    "v6_is_unicast_link_local ip \<longleftrightarrow> 0xfe8 * 2 ^ 116 \<le> ?n \<and> ?n \<le> 0xfec * 2 ^ 116 - 1"
    unfolding v6_is_multicast_def v6_is_unique_local_def v6_is_unicast_link_local_def leading_bits seg0
    using n by auto
  then show ?thesis by (auto simp: NON_PUBLIC_IPV6_def range from_segments_def)
qed

lemma v6_public:
  "is_non_public_ip (IpV6 v6) =
     (if unat v6 div 2 ^ 32 = 0 \<or> unat v6 div 2 ^ 32 = 65535 then is_non_public_ip (IpV4 (ucast v6))
      else list_ex (\<lambda>(first, final). v6_range first final v6) NON_PUBLIC_IPV6)"
proof -
  have "is_non_public_ipv4 (ucast v6)" if "v6 = 1"
    unfolding v4_blocks that by (simp add: NON_PUBLIC_IPV4_def range_unat from_octets_def)
  then show ?thesis using v6_blocks [of v6] by (auto simp: is_non_public_ipv6_def v6_embeds)
qed


text \<open>
  The comment promises that whatever is not globally routable is local. Site-local addresses, the
  documentation prefix, and the well-known NAT64 prefix around a loopback address are not.
\<close>

lemma not_routable_but_public:
  "map (map_option is_non_public_ip \<circ> parse_ip) [''fec0::1'', ''2001:db8::1'', ''64:ff9b::7f00:1''] =
   [Some False, Some False, Some False]"
  by code_simp

end
