(* ===== verification/Network_Hosts.thy ===== *)
theory Network_Hosts
  imports Network_Addresses Command_Safety
begin

section \<open>Hosts and domain patterns of the network proxy\<close>

text \<open>
  \<open>codex-rs/network-proxy/src/policy.rs\<close>: hosts in a normal form, the patterns of the allow and deny
  lists, and when one pattern covers another. Globs and the URL parser are crates of their own.
\<close>

subsection \<open>Hosts\<close>

definition split_once_str :: "string \<Rightarrow> string \<Rightarrow> (string \<times> string) option" where
  "split_once_str d s = map_option (\<lambda>i. (take i s, drop (i + length d) s)) (str_find d s)"

definition scoped_ip_literal :: "string \<Rightarrow> string \<Rightarrow> string option" where
  "scoped_ip_literal delimiter host =
     (case split_once_str delimiter host of
        None \<Rightarrow> None
      | Some (ip, scope) \<Rightarrow> if parse_ip ip \<noteq> None then Some (ip @ ''%'' @ scope) else None)"

definition normalize_ip_literal :: "string \<Rightarrow> string option" where
  "normalize_ip_literal host =
     (if parse_ip host \<noteq> None then Some host
      else (case scoped_ip_literal ''%25'' host of
              Some ip \<Rightarrow> Some ip
            | None \<Rightarrow> scoped_ip_literal ''%'' host))"

definition normalize_dns_host_or_ip_literal :: "string \<Rightarrow> string" where
  "normalize_dns_host_or_ip_literal host =
     (let host = trim_end_char CHR ''.'' (str_lower host) in
      case normalize_ip_literal host of Some ip \<Rightarrow> ip | None \<Rightarrow> host)"

definition normalize_host :: "string \<Rightarrow> string" where
  "normalize_host host =
     (let host = trim host in
      case (if starts_with host ''['' then split_once CHR '']'' host else None) of
        Some (before, _) \<Rightarrow> normalize_dns_host_or_ip_literal (tl before)
      | None \<Rightarrow>
          if count_list host CHR '':'' = 1 then normalize_dns_host_or_ip_literal (hd (split_on CHR '':'' host))
          else normalize_dns_host_or_ip_literal host)"

definition host_parse :: "string \<Rightarrow> string option" where
  "host_parse input = (let normalized = normalize_host input in if normalized = [] then None else Some normalized)"

definition unscoped_ip_literal :: "string \<Rightarrow> string option" where
  "unscoped_ip_literal host =
     (case split_once CHR ''%'' host of
        None \<Rightarrow> None
      | Some (ip, _) \<Rightarrow> if parse_ip ip \<noteq> None then Some ip else None)"

definition is_loopback_host :: "string \<Rightarrow> bool" where
  "is_loopback_host host =
     (let host = (case unscoped_ip_literal host of Some ip \<Rightarrow> ip | None \<Rightarrow> host) in
      if host = ''localhost'' then True
      else (case parse_ip host of Some ip \<Rightarrow> ip_is_loopback ip | None \<Rightarrow> False))"

subsection \<open>Patterns\<close>

definition normalize_pattern :: "string \<Rightarrow> string" where
  "normalize_pattern pattern =
     (let pattern = trim pattern in
      if pattern = ''*'' then ''*''
      else (case strip_prefix ''**.'' pattern of
              Some domain \<Rightarrow> ''**.'' @ normalize_host domain
            | None \<Rightarrow>
                (case strip_prefix ''*.'' pattern of
                   Some domain \<Rightarrow> ''*.'' @ normalize_host domain
                 | None \<Rightarrow> normalize_host pattern)))"

datatype domain_pattern = ApexAndSubdomains string | SubdomainsOnly string | ExactDomain string

definition parse_domain :: "string \<Rightarrow> (string \<Rightarrow> domain_pattern) \<Rightarrow> domain_pattern" where
  "parse_domain domain build = (let domain = trim domain in if domain = [] then ExactDomain [] else build domain)"

definition parse_domain_pattern :: "string \<Rightarrow> domain_pattern" where
  "parse_domain_pattern input =
     (let input = trim input in
      if input = [] then ExactDomain []
      else (case strip_prefix ''**.'' input of
              Some domain \<Rightarrow> parse_domain domain ApexAndSubdomains
            | None \<Rightarrow>
                (case strip_prefix ''*.'' input of
                   Some domain \<Rightarrow> parse_domain domain SubdomainsOnly
                 | None \<Rightarrow> ExactDomain input)))"

definition expand_domain_pattern :: "string \<Rightarrow> string list" where
  "expand_domain_pattern pattern =
     (case parse_domain_pattern pattern of
        ExactDomain domain \<Rightarrow> [domain]
      | SubdomainsOnly domain \<Rightarrow> [''?*.'' @ domain]
      | ApexAndSubdomains domain \<Rightarrow> [domain, ''?*.'' @ domain])"

definition is_global_wildcard_domain_pattern :: "string \<Rightarrow> bool" where
  "is_global_wildcard_domain_pattern pattern \<longleftrightarrow>
     list_ex (\<lambda>candidate. candidate = ''*'') (expand_domain_pattern (normalize_pattern pattern))"

subsection \<open>Sets of globs\<close>

text \<open>
  The crate \<open>globset\<close>: whether a pattern is a glob, whether a set of them can be built, and what a glob
  (built to ignore case) matches. A \<open>GlobSet\<close> is the list of its globs.
\<close>

record globs =
  glob_valid :: "string \<Rightarrow> bool"
  glob_set_valid :: "string list \<Rightarrow> bool"
  glob_matches :: "string \<Rightarrow> string \<Rightarrow> bool"

datatype glob_set_error = UnsupportedGlobalWildcard | InvalidGlobPattern string | InvalidGlobSet

datatype global_wildcard = AllowGlobal | RejectGlobal

text \<open>The inner loop, over the candidates of one pattern, and the outer one.\<close>

fun add_candidates :: "globs \<Rightarrow> string list \<Rightarrow> string list \<Rightarrow> glob_set_error + string list" where
  "add_candidates g [] built = Inr built"
| "add_candidates g (candidate # rest) built =
     (if candidate \<in> set built then add_candidates g rest built
      else if \<not> glob_valid g candidate then Inl (InvalidGlobPattern candidate)
      else add_candidates g rest (built @ [candidate]))"

fun add_patterns :: "globs \<Rightarrow> global_wildcard \<Rightarrow> string list \<Rightarrow> string list \<Rightarrow> glob_set_error + string list" where
  "add_patterns g global [] built = Inr built"
| "add_patterns g global (pattern # rest) built =
     (if global = RejectGlobal \<and> is_global_wildcard_domain_pattern pattern then Inl UnsupportedGlobalWildcard
      else (case add_candidates g (expand_domain_pattern (normalize_pattern pattern)) built of
              Inl e \<Rightarrow> Inl e
            | Inr built \<Rightarrow> add_patterns g global rest built))"

definition compile_globset_with_policy :: "globs \<Rightarrow> string list \<Rightarrow> global_wildcard \<Rightarrow> glob_set_error + string list" where
  "compile_globset_with_policy g patterns global =
     (case add_patterns g global patterns [] of
        Inl e \<Rightarrow> Inl e
      | Inr built \<Rightarrow> if glob_set_valid g built then Inr built else Inl InvalidGlobSet)"

definition compile_allowlist_globset :: "globs \<Rightarrow> string list \<Rightarrow> glob_set_error + string list" where
  "compile_allowlist_globset g patterns = compile_globset_with_policy g patterns AllowGlobal"

definition compile_denylist_globset :: "globs \<Rightarrow> string list \<Rightarrow> glob_set_error + string list" where
  "compile_denylist_globset g patterns = compile_globset_with_policy g patterns RejectGlobal"

definition is_match :: "globs \<Rightarrow> string list \<Rightarrow> string \<Rightarrow> bool" where
  "is_match g globs host \<longleftrightarrow> list_ex (\<lambda>p. glob_matches g p host) globs"

definition globset_matches_host_or_unscoped :: "globs \<Rightarrow> string list \<Rightarrow> string \<Rightarrow> bool" where
  "globset_matches_host_or_unscoped g globs host \<longleftrightarrow>
     is_match g globs host \<or> (case unscoped_ip_literal host of Some ip \<Rightarrow> is_match g globs ip | None \<Rightarrow> False)"

subsection \<open>Patterns that cover patterns\<close>

text \<open>\<open>url_host\<close> is \<open>url::Host::parse\<close> followed by \<open>to_string\<close>.\<close>

definition parse_domain_for_constraints :: "(string \<Rightarrow> string option) \<Rightarrow> string \<Rightarrow> string" where
  "parse_domain_for_constraints url_host domain =
     (let domain = trim_end_char CHR ''.'' (trim domain) in
      if domain = [] then []
      else (let host = (if starts_with domain ''['' \<and> ends_with domain '']'' then drop 1 (take (length domain - 1) domain)
                        else domain)
            in if CHR ''*'' \<in> set host \<or> CHR ''?'' \<in> set host \<or> CHR ''%'' \<in> set host then domain
               else (case url_host host of Some host \<Rightarrow> host | None \<Rightarrow> [])))"

definition parse_for_constraints :: "(string \<Rightarrow> string option) \<Rightarrow> string \<Rightarrow> domain_pattern" where
  "parse_for_constraints url_host input =
     (let input = trim input in
      if input = [] then ExactDomain []
      else (case strip_prefix ''**.'' input of
              Some domain \<Rightarrow> ApexAndSubdomains (parse_domain_for_constraints url_host domain)
            | None \<Rightarrow>
                (case strip_prefix ''*.'' input of
                   Some domain \<Rightarrow> SubdomainsOnly (parse_domain_for_constraints url_host domain)
                 | None \<Rightarrow> ExactDomain (parse_domain_for_constraints url_host input))))"

definition normalize_domain :: "string \<Rightarrow> string" where
  "normalize_domain domain = str_lower (trim_end_char CHR ''.'' domain)"

definition domain_eq :: "string \<Rightarrow> string \<Rightarrow> bool" where
  "domain_eq left right \<longleftrightarrow> normalize_domain left = normalize_domain right"

definition is_subdomain_or_equal :: "string \<Rightarrow> string \<Rightarrow> bool" where
  "is_subdomain_or_equal child parent \<longleftrightarrow>
     normalize_domain child = normalize_domain parent \<or>
     ends_with (normalize_domain child) (''.'' @ normalize_domain parent)"

definition is_strict_subdomain :: "string \<Rightarrow> string \<Rightarrow> bool" where
  "is_strict_subdomain child parent \<longleftrightarrow>
     normalize_domain child \<noteq> normalize_domain parent \<and>
     ends_with (normalize_domain child) (''.'' @ normalize_domain parent)"

fun allows :: "domain_pattern \<Rightarrow> domain_pattern \<Rightarrow> bool" where
  "allows (ExactDomain domain) (ExactDomain candidate) = domain_eq candidate domain"
| "allows (ExactDomain domain) _ = False"
| "allows (SubdomainsOnly domain) (ExactDomain candidate) = is_strict_subdomain candidate domain"
| "allows (SubdomainsOnly domain) (SubdomainsOnly candidate) = is_subdomain_or_equal candidate domain"
| "allows (SubdomainsOnly domain) (ApexAndSubdomains candidate) = is_strict_subdomain candidate domain"
| "allows (ApexAndSubdomains domain) (ExactDomain candidate) = is_subdomain_or_equal candidate domain"
| "allows (ApexAndSubdomains domain) (SubdomainsOnly candidate) = is_subdomain_or_equal candidate domain"
| "allows (ApexAndSubdomains domain) (ApexAndSubdomains candidate) = is_subdomain_or_equal candidate domain"

subsection \<open>What a pattern covers\<close>

text \<open>The hosts, in the normal form of a domain, that a pattern stands for.\<close>

fun covers_host :: "domain_pattern \<Rightarrow> string \<Rightarrow> bool" where
  "covers_host (ExactDomain domain) h = (h = normalize_domain domain)"
| "covers_host (SubdomainsOnly domain) h = ends_with h (''.'' @ normalize_domain domain)"
| "covers_host (ApexAndSubdomains domain) h =
     (h = normalize_domain domain \<or> ends_with h (''.'' @ normalize_domain domain))"

lemma suffix_of_dotted:
  "(\<forall>h. ends_with h (''.'' @ c) \<longrightarrow> h = d \<or> ends_with h (''.'' @ d)) \<longleftrightarrow> c = d \<or> ends_with c (''.'' @ d)"
proof
  assume all: "\<forall>h. ends_with h (''.'' @ c) \<longrightarrow> h = d \<or> ends_with h (''.'' @ d)"
  have "ends_with (d @ ''.'' @ c) (''.'' @ c)" by (auto simp: ends_with_iff)
  moreover have "d @ ''.'' @ c \<noteq> d" by simp
  ultimately have "ends_with (d @ ''.'' @ c) (''.'' @ d)" using all by blast
  then obtain r where "d @ ''.'' @ c = r @ ''.'' @ d" by (auto simp: ends_with_iff)
  then obtain u where "''.'' @ c = u @ ''.'' @ d \<or> u @ ''.'' @ c = ''.'' @ d" by (auto simp: append_eq_append_conv2)
  moreover have "c = d \<or> ends_with c (''.'' @ d)" if "''.'' @ c = u @ ''.'' @ d"
    using that by (cases u) (auto simp: ends_with_iff)
  moreover have "c = d \<or> ends_with c (''.'' @ d)" if eq: "u @ ''.'' @ c = ''.'' @ d"
  proof (cases u)
    case (Cons x v)
    with eq have dv: "d = v @ ''.'' @ c" "x = CHR ''.''" by auto
    have "ends_with (''.'' @ c) (''.'' @ c)" by (auto simp: ends_with_iff)
    with all have "''.'' @ c = d \<or> ends_with (''.'' @ c) (''.'' @ d)" by blast
    moreover have "\<not> ends_with (''.'' @ c) (''.'' @ d)" by (auto simp: ends_with_iff dv dest: arg_cong [where f = length])
    ultimately have dc: "d = ''.'' @ c" by simp
    have "ends_with (''x.'' @ c) (''.'' @ c)" by (auto simp: ends_with_iff intro: exI [of _ "''x''"])
    with all dc have "ends_with (''x.'' @ c) (''..'' @ c)" by auto
    then show ?thesis by (auto simp: ends_with_iff append_eq_Cons_conv dest: arg_cong [where f = length])
  qed (use eq in simp)
  ultimately show "c = d \<or> ends_with c (''.'' @ d)" by blast
next
  assume "c = d \<or> ends_with c (''.'' @ d)"
  then show "\<forall>h. ends_with h (''.'' @ c) \<longrightarrow> h = d \<or> ends_with h (''.'' @ d)"
    by (auto simp: ends_with_iff)
qed

lemma suffix_not_self: "\<not> ends_with d (''.'' @ d)"
  by (auto simp: ends_with_iff dest: arg_cong [where f = length])

lemma suffix_trans: "ends_with h (''.'' @ c) \<Longrightarrow> c = d \<or> ends_with c (''.'' @ d) \<Longrightarrow> ends_with h (''.'' @ d)"
  by (auto simp: ends_with_iff)

lemma allows_iff:
  "allows managed candidate = (\<forall>h. covers_host candidate h \<longrightarrow> covers_host managed h)"
proof -
  define d c where "d = (case managed of ExactDomain x \<Rightarrow> normalize_domain x | SubdomainsOnly x \<Rightarrow> normalize_domain x
      | ApexAndSubdomains x \<Rightarrow> normalize_domain x)"
    and "c = (case candidate of ExactDomain x \<Rightarrow> normalize_domain x | SubdomainsOnly x \<Rightarrow> normalize_domain x
      | ApexAndSubdomains x \<Rightarrow> normalize_domain x)"
  have longer: "ends_with (d @ ''.'' @ c) (''.'' @ c)" "d @ ''.'' @ c \<noteq> d" by (auto simp: ends_with_iff)
  have sub: "(\<forall>h. ends_with h (''.'' @ c) \<longrightarrow> ends_with h (''.'' @ d)) \<longleftrightarrow> c = d \<or> ends_with c (''.'' @ d)"
    using suffix_of_dotted [of c d] suffix_trans [of _ c d] by metis
  have strict: "c \<noteq> d \<and> ends_with c (''.'' @ d) \<longleftrightarrow> ends_with c (''.'' @ d)" using suffix_not_self by metis
  show ?thesis
  proof (cases managed)
    case (ApexAndSubdomains x)
    then show ?thesis
      using suffix_of_dotted [of c d] by (cases candidate) (auto simp: c_def d_def is_subdomain_or_equal_def)
  next
    case (SubdomainsOnly x)
    then show ?thesis
      using sub strict by (cases candidate) (auto simp: c_def d_def is_subdomain_or_equal_def is_strict_subdomain_def)
  next
    case (ExactDomain x)
    then show ?thesis
      using longer by (cases candidate) (auto simp: c_def d_def domain_eq_def)
  qed
qed

text \<open>
  (C30) The comparison of patterns that guards a managed allow list is exact: one pattern allows
  another if and only if every host the other stands for is a host it stands for itself.
\<close>

theorem pattern_comparison_is_exact:
  "allows managed candidate = (\<forall>h. covers_host candidate h \<longrightarrow> covers_host managed h)"
  by (rule allows_iff)

theorem pattern_comparison_is_exact_witness:
  "covers_host (ApexAndSubdomains ''example.com'') ''api.example.com''"
proof -
  have "allows (ApexAndSubdomains ''example.com'') (SubdomainsOnly ''Example.com'')"
    and "covers_host (SubdomainsOnly ''Example.com'') ''api.example.com''"
    by code_simp+
  then show ?thesis
    unfolding pattern_comparison_is_exact [of "ApexAndSubdomains ''example.com''" "SubdomainsOnly ''Example.com''"] by blast
qed

subsection \<open>Case does not matter\<close>

definition caseless :: "char \<Rightarrow> bool" where
  "caseless d \<longleftrightarrow> of_char d \<notin> {65 .. 90 :: nat} \<and> of_char d \<notin> {97 .. 122 :: nat}"

lemma lower_letter:
  "of_char c \<in> {65 .. 90 :: nat} \<Longrightarrow> of_char (ascii_lower c) = (of_char c + 32 :: nat)"
  unfolding ascii_lower_def by (simp add: mod_less)

lemma ascii_lower_iff: "caseless d \<Longrightarrow> ascii_lower x = d \<longleftrightarrow> x = d"
  using lower_letter [of x] by (auto simp: caseless_def ascii_lower_def)

lemma str_lower_idem [simp]: "str_lower (str_lower s) = str_lower s"
  by (simp add: str_lower_def)

lemma str_lower_simps [simp]:
  "str_lower [] = []" "str_lower (c # s) = ascii_lower c # str_lower s" "str_lower (s @ t) = str_lower s @ str_lower t"
  "length (str_lower s) = length s"
  by (simp_all add: str_lower_def)

lemma char_bits:
  "of_char c = of_bool (digit0 c) + 2 * of_bool (digit1 c) + 4 * of_bool (digit2 c) + 8 * of_bool (digit3 c) +
     16 * of_bool (digit4 c) + 32 * of_bool (digit5 c) + 64 * of_bool (digit6 c) + 128 * (of_bool (digit7 c) :: nat)"
  by (cases c) (simp add: of_char_def)

lemma small_is_ascii: "of_char c < (128 :: nat) \<Longrightarrow> utf8_len c = 1"
  by (auto simp: utf8_len_def char_bits of_bool_def split: if_splits)

lemma utf8_len_lower: "utf8_len (ascii_lower b) = utf8_len b"
proof (cases "of_char b \<in> {65 .. 90 :: nat}")
  case True
  with lower_letter [of b] show ?thesis by (simp add: small_is_ascii)
qed (auto simp: ascii_lower_def)

lemma chars_lower: "chars (str_lower s) = map str_lower (chars s)"
  by (induction s rule: chars.induct) (simp_all add: utf8_len_lower str_lower_def take_map drop_map)

lemma white_space_caseless: "list_all (list_all caseless) white_space"
  by code_simp

lemma str_lower_caseless: "list_all caseless w \<Longrightarrow> str_lower c = w \<longleftrightarrow> c = w"
  by (induction w arbitrary: c) (auto simp: str_lower_def ascii_lower_iff map_eq_Cons_conv)

lemma is_whitespace_lower: "is_whitespace (str_lower c) = is_whitespace c"
proof -
  have "str_lower c = w \<longleftrightarrow> c = w" if "w \<in> set white_space" for w
    using white_space_caseless that str_lower_caseless by (auto simp: list_all_iff)
  then show ?thesis unfolding is_whitespace_def by metis
qed

lemma whitespace_lower: "is_whitespace \<circ> str_lower = is_whitespace"
  by (rule ext) (simp add: is_whitespace_lower)

lemma concat_lower: "concat (map str_lower cs) = str_lower (concat cs)"
  by (induction cs) auto

lemma trim_lower: "trim (str_lower s) = str_lower (trim s)"
proof -
  have "trim_start (str_lower t) = str_lower (trim_start t)" for t
    by (simp add: trim_start_def chars_lower dropWhile_map whitespace_lower concat_lower)
  moreover have "trim_end (str_lower t) = str_lower (trim_end t)" for t
    by (simp add: trim_end_def chars_lower dropWhile_map whitespace_lower rev_map concat_lower)
  ultimately show ?thesis by (simp add: trim_def)
qed

lemma split_once_lower:
  "caseless d \<Longrightarrow> split_once d (str_lower s) = map_option (map_prod str_lower str_lower) (split_once d s)"
  by (induction s) (auto simp: ascii_lower_iff option.map_comp intro!: option.map_cong)

lemma split_on_lower: "caseless d \<Longrightarrow> split_on d (str_lower s) = map str_lower (split_on d s)"
  by (induction s) (auto simp: ascii_lower_iff split: list.splits)

lemma count_lower: "caseless d \<Longrightarrow> count_list (str_lower s) d = count_list s d"
  by (induction s) (auto simp: ascii_lower_iff)

lemma strip_prefix_lower:
  "list_all caseless p \<Longrightarrow> strip_prefix p (str_lower s) = map_option str_lower (strip_prefix p s)"
proof (induction p s rule: strip_prefix.induct)
  case (3 p ps c cs)
  then have "p = ascii_lower c \<longleftrightarrow> p = c" using ascii_lower_iff [of p c] by auto
  with 3 show ?case by simp
qed simp_all

lemma separators_caseless:
  "caseless CHR '']''" "caseless CHR '':''" "list_all caseless ''[''" "list_all caseless ''**.''" "list_all caseless ''*.''"
  "list_all caseless ''*''"
  by (simp_all add: caseless_def)

lemma normalize_dns_lower: "normalize_dns_host_or_ip_literal (str_lower h) = normalize_dns_host_or_ip_literal h"
  by (simp add: normalize_dns_host_or_ip_literal_def)

lemma normalize_host_lower: "normalize_host (str_lower h) = normalize_host h"
proof -
  let ?t = "trim h"
  have bracket: "starts_with (str_lower ?t) ''['' = starts_with ?t ''[''"
    using strip_prefix_lower [OF separators_caseless(3), of ?t] by (simp add: starts_with_def)
  have first: "hd (split_on CHR '':'' (str_lower ?t)) = str_lower (hd (split_on CHR '':'' ?t))"
    by (simp add: split_on_lower [OF separators_caseless(2)] hd_map)
  have tail: "tl (str_lower b) = str_lower (tl b)" for b by (cases b) simp_all
  show ?thesis
    by (cases "split_once CHR '']'' ?t")
      (auto simp: normalize_host_def trim_lower bracket first tail split_once_lower [OF separators_caseless(1)]
        count_lower [OF separators_caseless(2)] normalize_dns_lower Let_def)
qed

lemma normalize_pattern_lower: "normalize_pattern (str_lower p) = normalize_pattern p"
proof -
  have "str_lower (trim p) = ''*'' \<longleftrightarrow> trim p = ''*''" using str_lower_caseless separators_caseless(6) by blast
  then show ?thesis
    using strip_prefix_lower [OF separators_caseless(4), of "trim p"] strip_prefix_lower [OF separators_caseless(5), of "trim p"]
    by (cases "strip_prefix ''**.'' (trim p)"; cases "strip_prefix ''*.'' (trim p)")
      (simp_all add: normalize_pattern_def trim_lower normalize_host_lower Let_def)
qed

subsection \<open>Compiled lists\<close>

lemma add_candidates_set:
  "add_candidates g cs built = Inr built' \<Longrightarrow> set built' = set built \<union> set cs"
  by (induction g cs built rule: add_candidates.induct) (auto split: if_splits)

lemma add_patterns_set:
  "add_patterns g global ps built = Inr built' \<Longrightarrow>
   set built' = set built \<union> (\<Union>p \<in> set ps. set (expand_domain_pattern (normalize_pattern p)))"
proof (induction g global ps built rule: add_patterns.induct)
  case (2 g global pattern rest built)
  from "2.prems" obtain built1 where step: "add_candidates g (expand_domain_pattern (normalize_pattern pattern)) built = Inr built1"
    "add_patterns g global rest built1 = Inr built'" "\<not> (global = RejectGlobal \<and> is_global_wildcard_domain_pattern pattern)"
    by (auto split: if_splits sum.splits)
  from "2.IH" [OF step(3) step(1) step(2)] add_candidates_set [OF step(1)] show ?case by auto
qed simp

lemma compiled_globs:
  "compile_globset_with_policy g ps global = Inr built \<Longrightarrow>
   set built = (\<Union>p \<in> set ps. set (expand_domain_pattern (normalize_pattern p)))"
  using add_patterns_set [of g global ps "[]"] by (auto simp: compile_globset_with_policy_def split: sum.splits if_splits)

end
