(* ===== verification/Network_Hooks.thy ===== *)
theory Network_Hooks
  imports Network_Hosts Absolute_Paths
begin

section \<open>Hooks on intercepted requests\<close>

text \<open>
  \<open>codex-rs/network-proxy/src/mitm_hook.rs\<close>: the hooks of a configuration are checked and compiled to a
  table by host, and a request is matched against them. The crates for globs, header names and
  values, and the decoding of a query are parameters. A table (\<open>BTreeMap\<close>) in a
  configuration is the list of its entries.
\<close>

subsection \<open>Configuration\<close>

record hook_match_config =
  cfg_methods :: "string list"
  cfg_path_prefixes :: "string list"
  cfg_query :: "(string \<times> string list) list"
  cfg_headers :: "(string \<times> string list) list"
  cfg_body :: "string option"

record injected_header_config =
  inject_name :: string
  secret_env_var :: "string option"
  secret_file :: "string option"
  inject_prefix :: "string option"

record hook_actions_config =
  cfg_strip_request_headers :: "string list"
  cfg_inject_request_headers :: "injected_header_config list"

record hook_config =
  cfg_host :: string
  cfg_matcher :: hook_match_config
  cfg_actions :: hook_actions_config

subsection \<open>Compiled hooks\<close>

datatype path_matcher = PathPrefix string | PathGlob string
datatype value_matcher = ValueExact string | ValueGlob string
datatype secret_source = FromEnvVar string | FromFile abs_path

record injected_header =
  header_name :: string
  header_value :: string
  header_source :: secret_source

record hook_actions =
  strip_request_headers :: "string list"
  inject_request_headers :: "injected_header list"

record mitm_hook =
  hook_host :: string
  hook_methods :: "string list"
  hook_paths :: "path_matcher list"
  hook_query :: "(string \<times> value_matcher list) list"
  hook_headers :: "(string \<times> value_matcher list) list"
  hook_actions :: hook_actions

type_synonym hooks_by_host = "string \<rightharpoonup> mitm_hook list"

text \<open>The errors, and the field of a hook in which one has been found.\<close>

datatype hook_error =
    HooksRequireMitm
  | EmptyHost | HostWithWildcard
  | EmptyMethod | NoMethods
  | EmptyPathPrefix | NoPathPrefixes
  | BodyReserved
  | EmptyGlob | InvalidGlob string
  | EmptyQueryKey | NoQueryValues string
  | InvalidHeaderName string | InvalidHeaderValue string
  | EmptySecretEnvVar | EmptySecretFile | RelativeSecretFile string | ExpectedOneSecret
  | MissingEnvVar string | UnreadableSecretFile string
  | InHook nat string hook_error

text \<open>The libraries: globs (with the separator literal or not), header names in their normal form, values.\<close>

record http_tools =
  pattern_valid :: "bool \<Rightarrow> string \<Rightarrow> bool"
  pattern_matches :: "bool \<Rightarrow> string \<Rightarrow> string \<Rightarrow> bool"
  canonical_header :: "string \<Rightarrow> string option"
  header_value_valid :: "string \<Rightarrow> bool"
  decode_query :: "string \<Rightarrow> (string \<times> string) list"

subsection \<open>Matchers\<close>

datatype matcher_pattern = LiteralPattern string | GlobPattern string

definition parse_matcher_pattern :: "string \<Rightarrow> hook_error + matcher_pattern" where
  "parse_matcher_pattern pattern =
     (case strip_prefix ''literal:'' pattern of
        Some literal \<Rightarrow> Inr (LiteralPattern literal)
      | None \<Rightarrow>
          (case strip_prefix ''pattern:'' pattern of
             None \<Rightarrow> Inr (LiteralPattern pattern)
           | Some glob_pattern \<Rightarrow> if glob_pattern = [] then Inl EmptyGlob else Inr (GlobPattern glob_pattern)))"

definition compile_glob_matcher :: "http_tools \<Rightarrow> string \<Rightarrow> bool \<Rightarrow> hook_error + string" where
  "compile_glob_matcher ht pattern literal_separator =
     (if pattern_valid ht literal_separator pattern then Inr pattern else Inl (InvalidGlob pattern))"

definition compile_path_matcher :: "http_tools \<Rightarrow> string \<Rightarrow> hook_error + path_matcher" where
  "compile_path_matcher ht prefix =
     (case parse_matcher_pattern prefix of
        Inl e \<Rightarrow> Inl e
      | Inr (LiteralPattern prefix) \<Rightarrow> if prefix = [] then Inl EmptyPathPrefix else Inr (PathPrefix prefix)
      | Inr (GlobPattern glob) \<Rightarrow> map_sum id PathGlob (compile_glob_matcher ht glob True))"

definition compile_path_matchers :: "http_tools \<Rightarrow> string list \<Rightarrow> hook_error + path_matcher list" where
  "compile_path_matchers ht path_prefixes = try_map (compile_path_matcher ht) path_prefixes"

definition compile_value_matcher :: "http_tools \<Rightarrow> string \<Rightarrow> hook_error + value_matcher" where
  "compile_value_matcher ht v =
     (case parse_matcher_pattern v of
        Inl e \<Rightarrow> Inl e
      | Inr (LiteralPattern v) \<Rightarrow> Inr (ValueExact v)
      | Inr (GlobPattern glob) \<Rightarrow> map_sum id ValueGlob (compile_glob_matcher ht glob False))"

definition compile_value_matchers :: "http_tools \<Rightarrow> string list \<Rightarrow> hook_error + value_matcher list" where
  "compile_value_matchers ht vs = try_map (compile_value_matcher ht) vs"

definition normalize_hook_host :: "string \<Rightarrow> hook_error + string" where
  "normalize_hook_host host =
     (let normalized = normalize_host host in
      if normalized = [] then Inl EmptyHost
      else if CHR ''*'' \<in> set normalized then Inl HostWithWildcard
      else Inr normalized)"

definition ascii_upper :: "char \<Rightarrow> char" where
  "ascii_upper c = (if of_char c \<in> {97 .. 122 :: nat} then char_of (of_char c - 32 :: nat) else c)"

definition str_upper :: "string \<Rightarrow> string" where
  "str_upper s = map ascii_upper s"

definition normalize_method :: "string \<Rightarrow> hook_error + string" where
  "normalize_method method =
     (let normalized = str_upper (trim method) in if normalized = [] then Inl EmptyMethod else Inr normalized)"

definition normalize_methods :: "string list \<Rightarrow> hook_error + string list" where
  "normalize_methods methods = try_map normalize_method methods"

definition normalize_query_name :: "string \<Rightarrow> hook_error + string" where
  "normalize_query_name name = (if name = [] then Inl EmptyQueryKey else Inr name)"

definition parse_header_name :: "http_tools \<Rightarrow> string \<Rightarrow> hook_error + string" where
  "parse_header_name ht name =
     (case canonical_header ht name of None \<Rightarrow> Inl (InvalidHeaderName name) | Some name \<Rightarrow> Inr name)"

definition parse_secret_file :: "'a path_env_scheme \<Rightarrow> string \<Rightarrow> hook_error + abs_path" where
  "parse_secret_file env p =
     (if trim p = [] then Inl EmptySecretFile
      else if \<not> is_absolute p then Inl (RelativeSecretFile p)
      else (case from_absolute_path env p of None \<Rightarrow> Inl (RelativeSecretFile p) | Some path \<Rightarrow> Inr path))"

subsection \<open>Checking\<close>

text \<open>A check is a result without a value; a check of a list stops at the first error.\<close>

definition check_all :: "('a \<Rightarrow> 'e + unit) \<Rightarrow> 'a list \<Rightarrow> 'e + unit" where
  "check_all f xs = map_sum id (\<lambda>_. ()) (try_map f xs)"

definition discard :: "'e + 'b \<Rightarrow> 'e + unit" where
  "discard r = map_sum id (\<lambda>_. ()) r"

definition also_check :: "'e + unit \<Rightarrow> 'e + 'b \<Rightarrow> 'e + 'b" where
  "also_check r s = (case r of Inl e \<Rightarrow> Inl e | Inr _ \<Rightarrow> s)"

definition validate_query_constraints :: "http_tools \<Rightarrow> (string \<times> string list) list \<Rightarrow> hook_error + unit" where
  "validate_query_constraints ht query =
     check_all (\<lambda>(name, vs).
       case normalize_query_name name of
         Inl e \<Rightarrow> Inl e
       | Inr normalized \<Rightarrow>
           if normalized = [] then Inl EmptyQueryKey
           else if vs = [] then Inl (NoQueryValues name)
           else discard (compile_value_matchers ht vs)) query"

definition validate_header_constraints :: "http_tools \<Rightarrow> (string \<times> string list) list \<Rightarrow> hook_error + unit" where
  "validate_header_constraints ht headers =
     check_all (\<lambda>(name, vs). also_check (discard (parse_header_name ht name)) (discard (compile_value_matchers ht vs))) headers"

definition validate_strip_request_headers :: "http_tools \<Rightarrow> string list \<Rightarrow> hook_error + unit" where
  "validate_strip_request_headers ht header_names = check_all (\<lambda>name. discard (parse_header_name ht name)) header_names"

definition validate_injected_header :: "http_tools \<Rightarrow> 'a path_env_scheme \<Rightarrow> injected_header_config \<Rightarrow> hook_error + unit" where
  "validate_injected_header ht env header =
     also_check (discard (parse_header_name ht (inject_name header)))
       (case (secret_env_var header, secret_file header) of
          (Some env_var, None) \<Rightarrow> if trim env_var = [] then Inl EmptySecretEnvVar else Inr ()
        | (None, Some path) \<Rightarrow> discard (parse_secret_file env path)
        | _ \<Rightarrow> Inl ExpectedOneSecret)"

definition validate_injected_headers :: "http_tools \<Rightarrow> 'a path_env_scheme \<Rightarrow> injected_header_config list \<Rightarrow> hook_error + unit" where
  "validate_injected_headers ht env headers = check_all (validate_injected_header ht env) headers"

definition in_field :: "nat \<Rightarrow> string \<Rightarrow> hook_error + 'b \<Rightarrow> hook_error + 'b" where
  "in_field i field r = map_sum (InHook i field) id r"

definition validate_hook :: "http_tools \<Rightarrow> 'a path_env_scheme \<Rightarrow> nat \<times> hook_config \<Rightarrow> hook_error + unit" where
  "validate_hook ht env indexed =
     (case indexed of (i, hook) \<Rightarrow>
        (let m = cfg_matcher hook; a = cfg_actions hook in
         case in_field i ''host'' (normalize_hook_host (cfg_host hook)) of
           Inl e \<Rightarrow> Inl e
         | Inr host \<Rightarrow>
         (case in_field i ''match.methods'' (normalize_methods (cfg_methods m)) of
            Inl e \<Rightarrow> Inl e
          | Inr methods \<Rightarrow>
              if methods = [] then Inl (InHook i ''match.methods'' NoMethods)
              else (case in_field i ''match.path_prefixes'' (compile_path_matchers ht (cfg_path_prefixes m)) of
                 Inl e \<Rightarrow> Inl e
               | Inr path_prefixes \<Rightarrow>
                   if path_prefixes = [] then Inl (InHook i ''match.path_prefixes'' NoPathPrefixes)
                   else if cfg_body m \<noteq> None then Inl (InHook i ''match.body'' BodyReserved)
                   else also_check (in_field i ''match.query'' (validate_query_constraints ht (cfg_query m)))
                       (also_check (in_field i ''match.headers'' (validate_header_constraints ht (cfg_headers m)))
                       (also_check (in_field i ''actions.strip_request_headers''
                           (validate_strip_request_headers ht (cfg_strip_request_headers a)))
                       (also_check (in_field i ''actions.inject_request_headers''
                           (validate_injected_headers ht env (cfg_inject_request_headers a)))
                       (if host = [] then Inl (InHook i ''host'' EmptyHost) else Inr ()))))))))"

definition validate_mitm_hook_config :: "http_tools \<Rightarrow> 'a path_env_scheme \<Rightarrow> bool \<Rightarrow> hook_config list \<Rightarrow> hook_error + unit" where
  "validate_mitm_hook_config ht env mitm hooks =
     (if hooks = [] then Inr ()
      else if \<not> mitm then Inl HooksRequireMitm
      else check_all (validate_hook ht env) (enumerate 0 hooks))"

subsection \<open>Compiling\<close>

text \<open>The environment and the secret files that the compilation reads.\<close>

record secrets =
  env_var :: "string \<Rightarrow> string option"
  read_secret :: "abs_path \<Rightarrow> string option"

definition compile_injected_header ::
    "http_tools \<Rightarrow> 'a path_env_scheme \<Rightarrow> secrets \<Rightarrow> injected_header_config \<Rightarrow> hook_error + injected_header" where
  "compile_injected_header ht env sec header =
     (case parse_header_name ht (inject_name header) of
        Inl e \<Rightarrow> Inl e
      | Inr name \<Rightarrow>
          (let secret = (case (secret_env_var header, secret_file header) of
                 (Some v, None) \<Rightarrow>
                   (case env_var sec v of None \<Rightarrow> Inl (MissingEnvVar v) | Some secret \<Rightarrow> Inr (secret, FromEnvVar v))
               | (None, Some f) \<Rightarrow>
                   (case parse_secret_file env f of
                      Inl e \<Rightarrow> Inl e
                    | Inr path \<Rightarrow>
                        (case read_secret sec path of
                           None \<Rightarrow> Inl (UnreadableSecretFile f)
                         | Some content \<Rightarrow> Inr (trim content, FromFile path)))
               | _ \<Rightarrow> Inl ExpectedOneSecret)
           in case secret of
                Inl e \<Rightarrow> Inl e
              | Inr (secret, source) \<Rightarrow>
                  (let prefix = (case inject_prefix header of Some prefix \<Rightarrow> prefix | None \<Rightarrow> []) in
                   if header_value_valid ht (prefix @ secret)
                   then Inr \<lparr>header_name = name, header_value = prefix @ secret, header_source = source\<rparr>
                   else Inl (InvalidHeaderValue (inject_name header)))))"

definition compile_query_constraint :: "http_tools \<Rightarrow> string \<times> string list \<Rightarrow> hook_error + string \<times> value_matcher list" where
  "compile_query_constraint ht constraint =
     (case constraint of (name, vs) \<Rightarrow>
        (case normalize_query_name name of
           Inl e \<Rightarrow> Inl e
         | Inr name \<Rightarrow> map_sum id (Pair name) (compile_value_matchers ht vs)))"

definition compile_header_constraint :: "http_tools \<Rightarrow> string \<times> string list \<Rightarrow> hook_error + string \<times> value_matcher list" where
  "compile_header_constraint ht constraint =
     (case constraint of (name, vs) \<Rightarrow>
        (case parse_header_name ht name of
           Inl e \<Rightarrow> Inl e
         | Inr name \<Rightarrow> map_sum id (Pair name) (compile_value_matchers ht vs)))"

definition compile_hook ::
    "http_tools \<Rightarrow> 'a path_env_scheme \<Rightarrow> secrets \<Rightarrow> hook_config \<Rightarrow> hook_error + mitm_hook" where
  "compile_hook ht env sec hook =
     (let m = cfg_matcher hook; a = cfg_actions hook in
      case normalize_hook_host (cfg_host hook) of
        Inl e \<Rightarrow> Inl e
      | Inr host \<Rightarrow>
      (case normalize_methods (cfg_methods m) of
         Inl e \<Rightarrow> Inl e
       | Inr methods \<Rightarrow>
      (case compile_path_matchers ht (cfg_path_prefixes m) of
         Inl e \<Rightarrow> Inl e
       | Inr path_prefixes \<Rightarrow>
      (case try_map (compile_query_constraint ht) (cfg_query m) of
         Inl e \<Rightarrow> Inl e
       | Inr query \<Rightarrow>
      (case try_map (compile_header_constraint ht) (cfg_headers m) of
         Inl e \<Rightarrow> Inl e
       | Inr headers \<Rightarrow>
      (case try_map (parse_header_name ht) (cfg_strip_request_headers a) of
         Inl e \<Rightarrow> Inl e
       | Inr strip \<Rightarrow>
      (case try_map (compile_injected_header ht env sec) (cfg_inject_request_headers a) of
         Inl e \<Rightarrow> Inl e
       | Inr inject \<Rightarrow>
           Inr \<lparr>hook_host = host, hook_methods = methods, hook_paths = path_prefixes, hook_query = query,
             hook_headers = headers,
             hook_actions = \<lparr>strip_request_headers = strip, inject_request_headers = inject\<rparr>\<rparr>)))))))"

definition push_hook :: "mitm_hook \<Rightarrow> hooks_by_host \<Rightarrow> hooks_by_host" where
  "push_hook hook table =
     table(hook_host hook \<mapsto> (case table (hook_host hook) of None \<Rightarrow> [] | Some hooks \<Rightarrow> hooks) @ [hook])"

fun compile_hooks_loop ::
    "http_tools \<Rightarrow> 'a path_env_scheme \<Rightarrow> secrets \<Rightarrow> hook_config list \<Rightarrow> hooks_by_host \<Rightarrow> hook_error + hooks_by_host" where
  "compile_hooks_loop ht env sec [] table = Inr table"
| "compile_hooks_loop ht env sec (hook # rest) table =
     (case compile_hook ht env sec hook of
        Inl e \<Rightarrow> Inl e
      | Inr hook \<Rightarrow> compile_hooks_loop ht env sec rest (push_hook hook table))"

definition compile_mitm_hooks ::
    "http_tools \<Rightarrow> 'a path_env_scheme \<Rightarrow> secrets \<Rightarrow> bool \<Rightarrow> hook_config list \<Rightarrow> hook_error + hooks_by_host" where
  "compile_mitm_hooks ht env sec mitm hooks =
     (case validate_mitm_hook_config ht env mitm hooks of
        Inl e \<Rightarrow> Inl e
      | Inr _ \<Rightarrow> compile_hooks_loop ht env sec hooks Map.empty)"

subsection \<open>Matching\<close>

text \<open>A request; a header value is there as text where it is visible ASCII.\<close>

record http_request =
  request_method :: string
  request_path :: string
  request_query :: "string option"
  request_headers :: "(string \<times> string option) list"

fun path_matcher_matches :: "http_tools \<Rightarrow> path_matcher \<Rightarrow> string \<Rightarrow> bool" where
  "path_matcher_matches ht (PathPrefix prefix) candidate = starts_with candidate prefix"
| "path_matcher_matches ht (PathGlob glob) candidate = pattern_matches ht True glob candidate"

fun value_matcher_matches :: "http_tools \<Rightarrow> value_matcher \<Rightarrow> string \<Rightarrow> bool" where
  "value_matcher_matches ht (ValueExact v) candidate = (v = candidate)"
| "value_matcher_matches ht (ValueGlob glob) candidate = pattern_matches ht False glob candidate"

definition path_matches :: "http_tools \<Rightarrow> path_matcher list \<Rightarrow> string \<Rightarrow> bool" where
  "path_matches ht path_prefixes p \<longleftrightarrow> list_ex (\<lambda>matcher. path_matcher_matches ht matcher p) path_prefixes"

definition allowed_value :: "http_tools \<Rightarrow> value_matcher list \<Rightarrow> string \<Rightarrow> bool" where
  "allowed_value ht allowed candidate \<longleftrightarrow> list_ex (\<lambda>a. value_matcher_matches ht a candidate) allowed"

definition query_matches :: "http_tools \<Rightarrow> (string \<times> value_matcher list) list \<Rightarrow> http_request \<Rightarrow> bool" where
  "query_matches ht constraints req \<longleftrightarrow>
     (let actual = decode_query ht (case request_query req of Some q \<Rightarrow> q | None \<Rightarrow> []) in
      list_all (\<lambda>(name, allowed). list_ex (\<lambda>(n, candidate). n = name \<and> allowed_value ht allowed candidate) actual)
        constraints)"

definition headers_match :: "http_tools \<Rightarrow> (string \<times> value_matcher list) list \<Rightarrow> http_request \<Rightarrow> bool" where
  "headers_match ht constraints req \<longleftrightarrow>
     list_all (\<lambda>(name, allowed).
       (let actual = map snd (filter (\<lambda>(n, _). n = name) (request_headers req)) in
        if actual = [] then False
        else if allowed = [] then True
        else list_ex (\<lambda>v. case v of None \<Rightarrow> False | Some candidate \<Rightarrow> allowed_value ht allowed candidate) actual))
       constraints"

definition hook_matches :: "http_tools \<Rightarrow> mitm_hook \<Rightarrow> http_request \<Rightarrow> bool" where
  "hook_matches ht hook req \<longleftrightarrow>
     list_ex (\<lambda>allowed. allowed = str_upper (request_method req)) (hook_methods hook) \<and>
     path_matches ht (hook_paths hook) (request_path req) \<and>
     query_matches ht (hook_query hook) req \<and> headers_match ht (hook_headers hook) req"

datatype hook_evaluation = NoHooksForHost | HookMatched hook_actions | HookedHostNoMatch

definition evaluate_mitm_hooks :: "http_tools \<Rightarrow> hooks_by_host \<Rightarrow> string \<Rightarrow> http_request \<Rightarrow> hook_evaluation" where
  "evaluate_mitm_hooks ht table host req =
     (case table (normalize_host host) of
        None \<Rightarrow> NoHooksForHost
      | Some hooks \<Rightarrow>
          (case List.find (\<lambda>hook. hook_matches ht hook req) hooks of
             Some hook \<Rightarrow> HookMatched (hook_actions hook)
           | None \<Rightarrow> HookedHostNoMatch))"

subsection \<open>Checked hooks compile\<close>

lemma check_all_ok: "check_all f xs = Inr () \<longleftrightarrow> (\<forall>x \<in> set xs. \<exists>y. f x = Inr y)"
  by (simp add: check_all_def try_map_unit)

lemma discard_ok [simp]: "discard r = Inr u \<longleftrightarrow> (\<exists>y. r = Inr y)"
  by (cases r) (auto simp: discard_def)

lemma also_check_ok [simp]: "also_check r s = Inr y \<longleftrightarrow> r = Inr () \<and> s = Inr y"
  by (cases r) (auto simp: also_check_def)

lemma in_field_ok [simp]: "in_field i f r = Inr y \<longleftrightarrow> r = Inr y"
  by (cases r) (auto simp: in_field_def)

lemma checked_query:
  assumes "validate_query_constraints ht query = Inr ()"
  shows "\<exists>q. try_map (compile_query_constraint ht) query = Inr q"
  using assms unfolding validate_query_constraints_def check_all_ok try_map_ok
  by (fastforce simp: compile_query_constraint_def split: sum.splits if_splits)

lemma checked_headers:
  assumes "validate_header_constraints ht headers = Inr ()"
  shows "\<exists>hs. try_map (compile_header_constraint ht) headers = Inr hs"
  using assms unfolding validate_header_constraints_def check_all_ok try_map_ok
  by (fastforce simp: compile_header_constraint_def split: sum.splits if_splits)

lemma checked_strip:
  assumes "validate_strip_request_headers ht names = Inr ()"
  shows "\<exists>hs. try_map (parse_header_name ht) names = Inr hs"
  using assms unfolding validate_strip_request_headers_def check_all_ok try_map_ok by auto

text \<open>What can still go wrong are the secrets.\<close>

fun secret_error :: "hook_error \<Rightarrow> bool" where
  "secret_error (MissingEnvVar _) = True"
| "secret_error (UnreadableSecretFile _) = True"
| "secret_error (InvalidHeaderValue _) = True"
| "secret_error _ = False"

lemma checked_injected:
  assumes "validate_injected_header ht env header = Inr ()" and "compile_injected_header ht env sec header = Inl e"
  shows "secret_error e"
  using assms
  by (auto simp: validate_injected_header_def compile_injected_header_def Let_def split: option.splits sum.splits if_splits)

lemma checked_hook:
  assumes "validate_hook ht env (i, hook) = Inr ()" and "compile_hook ht env sec hook = Inl e"
  shows "secret_error e"
proof -
  let ?m = "cfg_matcher hook" and ?a = "cfg_actions hook"
  from assms(1) obtain host methods paths where
    ok: "normalize_hook_host (cfg_host hook) = Inr host" "normalize_methods (cfg_methods ?m) = Inr methods"
      "compile_path_matchers ht (cfg_path_prefixes ?m) = Inr paths" "validate_query_constraints ht (cfg_query ?m) = Inr ()"
      "validate_header_constraints ht (cfg_headers ?m) = Inr ()"
      "validate_strip_request_headers ht (cfg_strip_request_headers ?a) = Inr ()"
      "validate_injected_headers ht env (cfg_inject_request_headers ?a) = Inr ()"
    by (auto simp: validate_hook_def Let_def split: sum.splits if_splits)
  obtain query headers strip where
    "try_map (compile_query_constraint ht) (cfg_query ?m) = Inr query"
    "try_map (compile_header_constraint ht) (cfg_headers ?m) = Inr headers"
    "try_map (parse_header_name ht) (cfg_strip_request_headers ?a) = Inr strip"
    using checked_query [OF ok(4)] checked_headers [OF ok(5)] checked_strip [OF ok(6)] by blast
  with ok assms(2) have "try_map (compile_injected_header ht env sec) (cfg_inject_request_headers ?a) = Inl e"
    by (auto simp: compile_hook_def Let_def split: sum.splits)
  then obtain header where "header \<in> set (cfg_inject_request_headers ?a)" "compile_injected_header ht env sec header = Inl e"
    using try_map_Inl by meson
  moreover from this ok(7) have "validate_injected_header ht env header = Inr ()"
    by (auto simp: validate_injected_headers_def check_all_ok)
  ultimately show ?thesis using checked_injected by blast
qed

text \<open>The table of compiled hooks.\<close>

definition hooks_for :: "mitm_hook list \<Rightarrow> hooks_by_host" where
  "hooks_for hooks = (\<lambda>h. case filter (\<lambda>k. hook_host k = h) hooks of [] \<Rightarrow> None | hs \<Rightarrow> Some hs)"

lemma push_hook_for: "push_hook hook (hooks_for hooks) = hooks_for (hooks @ [hook])"
  by (rule ext) (auto simp: push_hook_def hooks_for_def split: list.splits)

lemma compile_hooks_loop_ok:
  "compile_hooks_loop ht env sec hooks (hooks_for done) =
   (case try_map (compile_hook ht env sec) hooks of Inl e \<Rightarrow> Inl e | Inr new \<Rightarrow> Inr (hooks_for (done @ new)))"
  by (induction hooks arbitrary: "done") (auto simp: push_hook_for split: sum.splits)

lemma compile_hooks:
  "compile_hooks_loop ht env sec hooks Map.empty = map_sum id hooks_for (try_map (compile_hook ht env sec) hooks)"
proof -
  have "Map.empty = hooks_for []" by (simp add: hooks_for_def)
  then show ?thesis using compile_hooks_loop_ok [of ht env sec hooks "[]"] by (simp split: sum.splits)
qed

lemma checked_hooks:
  assumes "validate_mitm_hook_config ht env mitm hooks = Inr ()" and "hook \<in> set hooks"
  shows "\<exists>i. validate_hook ht env (i, hook) = Inr ()"
proof -
  from assms(2) obtain i where "i < length hooks" "hooks ! i = hook" by (auto simp: in_set_conv_nth)
  then have "(i, hook) \<in> set (enumerate 0 hooks)" by (auto simp: in_set_enumerate_eq)
  with assms show ?thesis
    by (auto simp: validate_mitm_hook_config_def check_all_ok split: if_splits)
qed

text \<open>
  (C32) A configuration of hooks that passes the check compiles, unless a secret is missing, cannot be
  read, or is no header value: no other error is left for compiling. Then a request is
  matched against exactly the hooks of its host, in the order of the configuration, and the first that
  matches acts; a host with hooks of which none matches is told from one without.
\<close>

theorem checked_hooks_compile:
  assumes "validate_mitm_hook_config ht env mitm hooks = Inr ()"
  shows "case compile_mitm_hooks ht env sec mitm hooks of
      Inl e \<Rightarrow> secret_error e
    | Inr table \<Rightarrow>
        \<exists>compiled. list_all2 (\<lambda>hook k. compile_hook ht env sec hook = Inr k) hooks compiled \<and>
          evaluate_mitm_hooks ht table host req =
            (let here = filter (\<lambda>k. hook_host k = normalize_host host) compiled in
             if here = [] then NoHooksForHost
             else (case filter (\<lambda>k. hook_matches ht k req) here of
                     [] \<Rightarrow> HookedHostNoMatch | k # _ \<Rightarrow> HookMatched (hook_actions k)))"
proof (cases "try_map (compile_hook ht env sec) hooks")
  case (Inl e)
  then obtain hook where "hook \<in> set hooks" "compile_hook ht env sec hook = Inl e" using try_map_Inl by meson
  with checked_hooks [OF assms] checked_hook have "secret_error e" by meson
  with Inl assms show ?thesis by (simp add: compile_mitm_hooks_def compile_hooks)
next
  case (Inr compiled)
  have first: "List.find p xs = (case filter p xs of [] \<Rightarrow> None | x # _ \<Rightarrow> Some x)" for p and xs :: "mitm_hook list"
    by (induction xs) auto
  from Inr assms have "compile_mitm_hooks ht env sec mitm hooks = Inr (hooks_for compiled)"
    by (simp add: compile_mitm_hooks_def compile_hooks)
  moreover have "evaluate_mitm_hooks ht (hooks_for compiled) host req =
      (let here = filter (\<lambda>k. hook_host k = normalize_host host) compiled in
       if here = [] then NoHooksForHost
       else (case filter (\<lambda>k. hook_matches ht k req) here of [] \<Rightarrow> HookedHostNoMatch | k # _ \<Rightarrow> HookMatched (hook_actions k)))"
    by (cases "filter (\<lambda>k. hook_host k = normalize_host host) compiled")
      (simp_all add: evaluate_mitm_hooks_def hooks_for_def first Let_def del: filter_filter filter.simps split: list.split)
  ultimately show ?thesis using try_map_Inr [OF Inr] by auto
qed

definition sample_http_tools :: http_tools where
  "sample_http_tools =
     \<lparr>pattern_valid = (\<lambda>sep p. True), pattern_matches = (\<lambda>sep p c. starts_with c p), canonical_header = (\<lambda>n. Some (str_lower n)),
      header_value_valid = (\<lambda>v. v \<noteq> []), decode_query = (\<lambda>q. [])\<rparr>"

definition sample_hook :: hook_config where
  "sample_hook =
     \<lparr>cfg_host = ''Api.Example.com.'',
      cfg_matcher = \<lparr>cfg_methods = [''post''], cfg_path_prefixes = [''/v1/''], cfg_query = [], cfg_headers = [], cfg_body = None\<rparr>,
      cfg_actions = \<lparr>cfg_strip_request_headers = [''Authorization''],
        cfg_inject_request_headers = [\<lparr>inject_name = ''Authorization'', secret_env_var = Some ''TOKEN'', secret_file = None,
          inject_prefix = Some ''Bearer ''\<rparr>]\<rparr>\<rparr>"

definition sample_env :: path_env where
  "sample_env = \<lparr>home_dir = None, current_dir = None\<rparr>"

theorem checked_hooks_compile_witness:
  "case compile_mitm_hooks sample_http_tools sample_env \<lparr>env_var = (\<lambda>v. None), read_secret = (\<lambda>p. None)\<rparr> True [sample_hook] of
     Inl e \<Rightarrow> secret_error e | Inr table \<Rightarrow> table ''api.example.com'' \<noteq> None"
proof -
  let ?sec = "\<lparr>env_var = (\<lambda>v. None), read_secret = (\<lambda>p. None)\<rparr>"
  have "validate_mitm_hook_config sample_http_tools sample_env True [sample_hook] = Inr ()"
    and fails: "case compile_mitm_hooks sample_http_tools sample_env ?sec True [sample_hook] of Inl e \<Rightarrow> True | Inr _ \<Rightarrow> False"
    by code_simp+
  from checked_hooks_compile [OF this(1), of ?sec] fails show ?thesis by (auto split: sum.splits)
qed

end
