(* ===== verification/Network_Settings.thy ===== *)
theory Network_Settings
  imports Network_Hooks
begin

section \<open>Settings of the network proxy\<close>

text \<open>
  \<open>codex-rs/network-proxy/src/config.rs\<close> and \<open>state.rs\<close>: the permissions of domains, the settings, and
  the check that they stay within what a managed configuration prescribes. Of an error the
  field is kept, not the text of the values.
\<close>

subsection \<open>Domain permissions\<close>

datatype domain_permission = NoPermission | AllowDomain | DenyDomain

fun permission_rank :: "domain_permission \<Rightarrow> nat" where
  "permission_rank NoPermission = 0"
| "permission_rank AllowDomain = 1"
| "permission_rank DenyDomain = 2"

type_synonym domain_entry = "string \<times> domain_permission"

text \<open>The loop of \<open>effective_entries\<close>: the patterns seen so far in their order, each with the strictest permission.\<close>

definition raise_permission :: "domain_entry \<Rightarrow> domain_entry list \<Rightarrow> domain_entry list" where
  "raise_permission entry seen =
     (case entry of (pattern, permission) \<Rightarrow>
        if pattern \<in> set (map fst seen)
        then map (\<lambda>(p, existing).
               (p, if p = pattern \<and> permission_rank existing < permission_rank permission then permission else existing)) seen
        else seen @ [(pattern, permission)])"

definition effective_entries :: "domain_entry list \<Rightarrow> domain_entry list" where
  "effective_entries entries = fold raise_permission entries []"

subsection \<open>Settings\<close>

datatype network_mode = Limited | Full

definition allows_method :: "network_mode \<Rightarrow> string \<Rightarrow> bool" where
  "allows_method mode method =
     (case mode of Full \<Rightarrow> True | Limited \<Rightarrow> method \<in> {''GET'', ''HEAD'', ''OPTIONS''})"

datatype socket_permission = AllowSocket | NoSocket

record network_settings =
  net_enabled :: bool
  proxy_url :: string
  enable_socks5 :: bool
  socks_url :: string
  enable_socks5_udp :: bool
  allow_upstream_proxy :: bool
  dangerously_allow_non_loopback_proxy :: bool
  dangerously_allow_all_unix_sockets :: bool
  net_mode :: network_mode
  net_domains :: "domain_entry list option"
  net_unix_sockets :: "(string \<times> socket_permission) list option"
  allow_local_binding :: bool
  net_mitm :: bool
  net_mitm_hooks :: "hook_config list"

definition default_settings :: network_settings where
  "default_settings =
     \<lparr>net_enabled = False, proxy_url = ''http://127.0.0.1:3128'', enable_socks5 = True, socks_url = ''http://127.0.0.1:8081'',
      enable_socks5_udp = True, allow_upstream_proxy = True, dangerously_allow_non_loopback_proxy = False,
      dangerously_allow_all_unix_sockets = False, net_mode = Full, net_domains = None, net_unix_sockets = None,
      allow_local_binding = False, net_mitm = False, net_mitm_hooks = []\<rparr>"

definition domain_entries :: "network_settings \<Rightarrow> domain_permission \<Rightarrow> string list option" where
  "domain_entries settings permission =
     (case net_domains settings of
        None \<Rightarrow> None
      | Some entries \<Rightarrow>
          (let patterns = map fst (filter (\<lambda>(_, p). p = permission) (effective_entries entries))
           in if patterns = [] then None else Some patterns))"

definition net_allowed_domains :: "network_settings \<Rightarrow> string list option" where
  "net_allowed_domains settings = domain_entries settings AllowDomain"

definition net_denied_domains :: "network_settings \<Rightarrow> string list option" where
  "net_denied_domains settings = domain_entries settings DenyDomain"

definition or_empty :: "'a list option \<Rightarrow> 'a list" where
  "or_empty xs = (case xs of Some xs \<Rightarrow> xs | None \<Rightarrow> [])"

definition net_allow_unix_sockets :: "network_settings \<Rightarrow> string list" where
  "net_allow_unix_sockets settings =
     (case net_unix_sockets settings of
        None \<Rightarrow> []
      | Some entries \<Rightarrow> map fst (filter (\<lambda>(_, permission). permission = AllowSocket) entries))"

definition some_entries :: "'a list \<Rightarrow> 'a list option" where
  "some_entries entries = (if entries = [] then None else Some entries)"

definition upsert_domain_permission ::
    "network_settings \<Rightarrow> string \<Rightarrow> domain_permission \<Rightarrow> (string \<Rightarrow> string) \<Rightarrow> network_settings" where
  "upsert_domain_permission settings host permission canon =
     settings\<lparr>net_domains :=
       some_entries (filter (\<lambda>(pattern, _). canon pattern \<noteq> canon host) (or_empty (net_domains settings)) @
         [(host, permission)])\<rparr>"

text \<open>\<open>set_domain_entries\<close>, of which \<open>set_allowed_domains\<close> and \<open>set_denied_domains\<close> are instances.\<close>

definition push_new :: "domain_permission \<Rightarrow> string \<Rightarrow> domain_entry list \<Rightarrow> domain_entry list" where
  "push_new permission entry entries = (if (entry, permission) \<in> set entries then entries else entries @ [(entry, permission)])"

definition set_domain_entries :: "network_settings \<Rightarrow> string list \<Rightarrow> domain_permission \<Rightarrow> network_settings" where
  "set_domain_entries settings entries permission =
     settings\<lparr>net_domains :=
       some_entries (fold (push_new permission) entries
         (filter (\<lambda>(_, p). p \<noteq> permission) (or_empty (net_domains settings))))\<rparr>"

datatype validated_socket_path = NativePath abs_path | UnixStyleAbsolute string

definition parse_socket_path :: "'a path_env_scheme \<Rightarrow> string \<Rightarrow> validated_socket_path option" where
  "parse_socket_path env socket_path =
     (if is_absolute socket_path then map_option NativePath (from_absolute_path env socket_path)
      else if starts_with socket_path ''/'' then Some (UnixStyleAbsolute socket_path)
      else None)"

definition validate_unix_socket_allowlist_paths :: "'a path_env_scheme \<Rightarrow> network_settings \<Rightarrow> string + unit" where
  "validate_unix_socket_allowlist_paths env settings =
     (case List.find (\<lambda>p. parse_socket_path env p = None) (net_allow_unix_sockets settings) of
        None \<Rightarrow> Inr () | Some p \<Rightarrow> Inl p)"

subsection \<open>Managed constraints\<close>

record network_constraints =
  max_enabled :: "bool option"
  max_mode :: "network_mode option"
  max_upstream_proxy :: "bool option"
  max_non_loopback_proxy :: "bool option"
  max_all_unix_sockets :: "bool option"
  managed_allowed_domains :: "string list option"
  allowlist_expansion_enabled :: "bool option"
  managed_denied_domains :: "string list option"
  denylist_expansion_enabled :: "bool option"
  managed_unix_sockets :: "string list option"
  max_local_binding :: "bool option"

definition no_constraints :: network_constraints where
  "no_constraints =
     \<lparr>max_enabled = None, max_mode = None, max_upstream_proxy = None, max_non_loopback_proxy = None, max_all_unix_sockets = None,
      managed_allowed_domains = None, allowlist_expansion_enabled = None, managed_denied_domains = None,
      denylist_expansion_enabled = None, managed_unix_sockets = None, max_local_binding = None\<rparr>"

fun network_mode_rank :: "network_mode \<Rightarrow> nat" where
  "network_mode_rank Limited = 0"
| "network_mode_rank Full = 1"

datatype constraint_error = InvalidValue string

text \<open>The checks run in order, and the first that does not hold names its field.\<close>

fun run_checks :: "(string \<times> bool) list \<Rightarrow> constraint_error + unit" where
  "run_checks [] = Inr ()"
| "run_checks ((field, ok) # rest) = (if ok then run_checks rest else Inl (InvalidValue field))"

definition non_global_wildcard_domain_patterns :: "string list \<Rightarrow> bool" where
  "non_global_wildcard_domain_patterns patterns \<longleftrightarrow> \<not> list_ex is_global_wildcard_domain_pattern patterns"

text \<open>\<open>candidate\<close> must not be set where the bound says no.\<close>

definition within :: "bool option \<Rightarrow> bool \<Rightarrow> bool" where
  "within bound candidate = (case bound of Some False \<Rightarrow> \<not> candidate | _ \<Rightarrow> True)"

definition lower_set :: "string list \<Rightarrow> string set" where
  "lower_set entries = set (map str_lower entries)"

text \<open>The domains a configuration allows, against the managed list.\<close>

definition allowed_domains_ok ::
    "(string \<Rightarrow> string option) \<Rightarrow> string list \<Rightarrow> bool option \<Rightarrow> string list \<Rightarrow> string list \<Rightarrow> bool" where
  "allowed_domains_ok url_host managed expansion denied candidate =
     (case expansion of
        Some True \<Rightarrow> \<forall>entry \<in> lower_set managed. entry \<in> lower_set candidate \<or> entry \<in> lower_set denied
      | Some False \<Rightarrow> lower_set candidate = lower_set managed - lower_set denied
      | None \<Rightarrow>
          list_all (\<lambda>entry. list_ex (\<lambda>m. allows (parse_for_constraints url_host m) (parse_for_constraints url_host entry)) managed)
            candidate)"

definition denied_domains_ok :: "string list \<Rightarrow> bool option \<Rightarrow> string list \<Rightarrow> bool" where
  "denied_domains_ok managed expansion candidate =
     (if expansion = Some False then lower_set candidate = lower_set managed
      else lower_set managed \<subseteq> lower_set candidate)"

definition all_unix_sockets_bound :: "network_constraints \<Rightarrow> bool" where
  "all_unix_sockets_bound c =
     (case max_all_unix_sockets c of Some b \<Rightarrow> b | None \<Rightarrow> managed_unix_sockets c = None)"

record network_tools =
  tool_http :: http_tools
  tool_globs :: globs
  tool_url_host :: "string \<Rightarrow> string option"
  tool_env :: path_env
  tool_secrets :: secrets
  tool_mitm_ready :: bool  \<comment> \<open>whether the certificate authority for interception can be loaded\<close>

definition validate_policy_against_constraints ::
    "network_tools \<Rightarrow> network_settings \<Rightarrow> network_constraints \<Rightarrow> constraint_error + unit" where
  "validate_policy_against_constraints nt settings c =
     (let config_allowed_domains = or_empty (net_allowed_domains settings);
          config_denied_domains = or_empty (net_denied_domains settings);
          config_allow_unix_sockets = net_allow_unix_sockets settings
      in case validate_mitm_hook_config (tool_http nt) (tool_env nt) (net_mitm settings) (net_mitm_hooks settings) of
           Inl _ \<Rightarrow> Inl (InvalidValue ''network.mitm_hooks'')
         | Inr _ \<Rightarrow> run_checks (
             [(''network.denied_domains'', non_global_wildcard_domain_patterns config_denied_domains),
              (''network.enabled'', within (max_enabled c) (net_enabled settings)),
              (''network.mode'', case max_mode c of None \<Rightarrow> True
                 | Some bound \<Rightarrow> network_mode_rank (net_mode settings) \<le> network_mode_rank bound),
              (''network.allow_upstream_proxy'', within (max_upstream_proxy c) (allow_upstream_proxy settings)),
              (''network.dangerously_allow_non_loopback_proxy'',
                 within (max_non_loopback_proxy c) (dangerously_allow_non_loopback_proxy settings)),
              (''network.dangerously_allow_all_unix_sockets'',
                 within (Some (all_unix_sockets_bound c)) (dangerously_allow_all_unix_sockets settings)),
              (''network.allow_local_binding'', within (max_local_binding c) (allow_local_binding settings))] @
             (case managed_allowed_domains c of None \<Rightarrow> []
              | Some managed \<Rightarrow>
                  [(''network.allowed_domains'', non_global_wildcard_domain_patterns managed),
                   (''network.allowed_domains'', allowed_domains_ok (tool_url_host nt) managed (allowlist_expansion_enabled c)
                      config_denied_domains config_allowed_domains)]) @
             (case managed_denied_domains c of None \<Rightarrow> []
              | Some managed \<Rightarrow>
                  [(''network.denied_domains'', non_global_wildcard_domain_patterns managed),
                   (''network.denied_domains'', denied_domains_ok managed (denylist_expansion_enabled c) config_denied_domains)]) @
             (case managed_unix_sockets c of None \<Rightarrow> []
              | Some managed \<Rightarrow>
                  [(''network.allow_unix_sockets'',
                     list_all (\<lambda>entry. str_lower entry \<in> lower_set managed) config_allow_unix_sockets)])))"

subsection \<open>Lists and what they match\<close>

text \<open>The globs that a list of patterns is compiled to.\<close>

definition pattern_globs :: "string list \<Rightarrow> string list" where
  "pattern_globs ps = concat (map (\<lambda>p. expand_domain_pattern (normalize_pattern p)) ps)"

lemma compiled_match:
  "compile_globset_with_policy g ps global = Inr built \<Longrightarrow> is_match g built h = is_match g (pattern_globs ps) h"
  using compiled_globs [of g ps global built] by (auto simp: is_match_def list_ex_iff pattern_globs_def)

lemma match_mono:
  assumes "lower_set ps \<subseteq> lower_set qs" and "is_match g (pattern_globs ps) h"
  shows "is_match g (pattern_globs qs) h"
proof -
  from assms(2) obtain p glob where p: "p \<in> set ps" "glob \<in> set (expand_domain_pattern (normalize_pattern p))" "glob_matches g glob h"
    by (auto simp: is_match_def list_ex_iff pattern_globs_def)
  with assms(1) obtain q where q: "q \<in> set qs" "str_lower p = str_lower q" by (auto simp: lower_set_def)
  then have "normalize_pattern p = normalize_pattern q" using normalize_pattern_lower by metis
  with p q(1) show ?thesis by (auto simp: is_match_def list_ex_iff pattern_globs_def)
qed

lemma run_checks_ok: "run_checks checks = Inr () \<longleftrightarrow> list_all snd checks"
  by (induction checks) (auto split: if_splits)

lemma passed_checks:
  assumes "validate_policy_against_constraints nt settings c = Inr ()"
  shows "within (max_enabled c) (net_enabled settings)" and "within (max_local_binding c) (allow_local_binding settings)"
    and "within (max_upstream_proxy c) (allow_upstream_proxy settings)"
    and "within (max_non_loopback_proxy c) (dangerously_allow_non_loopback_proxy settings)"
    and "case max_mode c of None \<Rightarrow> True | Some bound \<Rightarrow> network_mode_rank (net_mode settings) \<le> network_mode_rank bound"
    and "managed_denied_domains c = Some managed \<Longrightarrow>
      denied_domains_ok managed (denylist_expansion_enabled c) (or_empty (net_denied_domains settings))"
    and "managed_unix_sockets c = Some managed \<Longrightarrow>
      list_all (\<lambda>entry. str_lower entry \<in> lower_set managed) (net_allow_unix_sockets settings)"
    and "managed_allowed_domains c = Some managed \<Longrightarrow>
      allowed_domains_ok (tool_url_host nt) managed (allowlist_expansion_enabled c) (or_empty (net_denied_domains settings))
        (or_empty (net_allowed_domains settings))"
  using assms unfolding validate_policy_against_constraints_def Let_def
  by (auto simp: run_checks_ok simp del: run_checks.simps split: sum.splits)

lemma denied_within: "denied_domains_ok managed expansion denied \<Longrightarrow> lower_set managed \<subseteq> lower_set denied"
  by (auto simp: denied_domains_ok_def split: if_splits)

lemma allowed_within:
  "allowed_domains_ok url_host managed None denied allowed \<Longrightarrow> p \<in> set allowed \<Longrightarrow> covers_host (parse_for_constraints url_host p) h \<Longrightarrow>
   \<exists>m \<in> set managed. covers_host (parse_for_constraints url_host m) h"
  by (fastforce simp: allowed_domains_ok_def list_all_iff list_ex_iff allows_iff)

lemma mode_within:
  "network_mode_rank mode \<le> network_mode_rank bound \<Longrightarrow> allows_method mode method \<Longrightarrow> allows_method bound method"
  by (cases mode; cases bound) (auto simp: allows_method_def)


text \<open>Tools for examples: a glob is a name, or all that lies below one.\<close>

definition sample_globs :: globs where
  "sample_globs =
     \<lparr>glob_valid = (\<lambda>p. True), glob_set_valid = (\<lambda>ps. True),
      glob_matches = (\<lambda>p h. case strip_prefix ''?*'' p of
          None \<Rightarrow> str_lower h = str_lower p
        | Some suffix \<Rightarrow> length suffix < length h \<and> ends_with (str_lower h) (str_lower suffix))\<rparr>"

definition sample_network_tools :: network_tools where
  "sample_network_tools =
     \<lparr>tool_http = sample_http_tools, tool_globs = sample_globs, tool_url_host = (\<lambda>h. Some (str_lower h)), tool_env = sample_env,
      tool_secrets = \<lparr>env_var = (\<lambda>v. None), read_secret = (\<lambda>p. None)\<rparr>, tool_mitm_ready = True\<rparr>"

definition sample_settings :: network_settings where
  "sample_settings =
     default_settings\<lparr>net_enabled := True, net_domains := Some [(''**.example.com'', AllowDomain), (''Bad.Example.com'', DenyDomain)]\<rparr>"

definition sample_constraints :: network_constraints where
  "sample_constraints =
     no_constraints\<lparr>managed_denied_domains := Some [''bad.example.com''], managed_allowed_domains := Some [''**.Example.com.'']\<rparr>"


text \<open>Patterns that the URL parser refuses all become the empty domain, so one of them admits the others.\<close>

lemma unparsable_patterns_are_equal:
  "url_host ''bad host'' = None \<Longrightarrow> url_host ''evil[.]com'' = None \<Longrightarrow>
   allows (parse_for_constraints url_host ''bad host'') (parse_for_constraints url_host ''evil[.]com'')"
proof -
  assume none: "url_host ''bad host'' = None" "url_host ''evil[.]com'' = None"
  have "trim ''bad host'' = ''bad host''" "trim ''evil[.]com'' = ''evil[.]com''" by code_simp+
  with none show ?thesis
    by (simp add: parse_for_constraints_def parse_domain_for_constraints_def trim_end_char_def Let_def domain_eq_def
      starts_with_def ends_with_def)
qed

end
