(* ===== verification/Network_Proxy.thy ===== *)
theory Network_Proxy
  imports Network_Settings Output_Buffer
begin

section \<open>The state of the network proxy\<close>

text \<open>
  \<open>codex-rs/network-proxy/src/runtime.rs\<close>, \<open>build_config_state\<close> of \<open>state.rs\<close>, and \<open>evaluate_host_policy\<close>
  of \<open>network_policy.rs\<close>: which host a request may reach, the lists that change while the program
  runs, and the record of what has been blocked. Every operation first asks the reloader
  whether the configuration has changed; its answer is an argument. Logging and the
  observers are left out.
\<close>

subsection \<open>State\<close>

record 'r proxy_state =
  state_settings :: network_settings
  allow_set :: "string list"
  deny_set :: "string list"
  mitm_state :: "(bool \<times> bool) option"  \<comment> \<open>what it was built from: upstream proxy, local binding\<close>
  mitm_hooks :: hooks_by_host
  state_constraints :: network_constraints
  blocked :: "'r list"
  blocked_total :: nat

datatype state_error =
    BadUnixSocketPath string | BadConstraint constraint_error | BadGlobs glob_set_error | BadHooks hook_error | MitmUnavailable
  | ReloadFailed | InvalidHost

definition deny_list_check :: "network_settings \<Rightarrow> constraint_error + unit" where
  "deny_list_check settings =
     run_checks [(''network.denied_domains'', non_global_wildcard_domain_patterns (or_empty (net_denied_domains settings)))]"

definition build_config_state :: "network_tools \<Rightarrow> network_settings \<Rightarrow> network_constraints \<Rightarrow> state_error + 'r proxy_state" where
  "build_config_state nt settings constraints =
     (case validate_unix_socket_allowlist_paths (tool_env nt) settings of
        Inl p \<Rightarrow> Inl (BadUnixSocketPath p)
      | Inr _ \<Rightarrow>
      (case deny_list_check settings of
         Inl e \<Rightarrow> Inl (BadConstraint e)
       | Inr _ \<Rightarrow>
      (case compile_denylist_globset (tool_globs nt) (or_empty (net_denied_domains settings)) of
         Inl e \<Rightarrow> Inl (BadGlobs e)
       | Inr denied \<Rightarrow>
      (case compile_allowlist_globset (tool_globs nt) (or_empty (net_allowed_domains settings)) of
         Inl e \<Rightarrow> Inl (BadGlobs e)
       | Inr allowed \<Rightarrow>
      (case compile_mitm_hooks (tool_http nt) (tool_env nt) (tool_secrets nt) (net_mitm settings) (net_mitm_hooks settings) of
         Inl e \<Rightarrow> Inl (BadHooks e)
       | Inr hooks \<Rightarrow>
           if net_mitm settings \<and> \<not> tool_mitm_ready nt then Inl MitmUnavailable
           else Inr \<lparr>state_settings = settings, allow_set = allowed, deny_set = denied,
                  mitm_state = (if net_mitm settings then Some (allow_upstream_proxy settings, allow_local_binding settings) else None),
                  mitm_hooks = hooks, state_constraints = constraints, blocked = [], blocked_total = 0\<rparr>)))))"

subsection \<open>Reloading\<close>

type_synonym 'r reload = "unit + 'r proxy_state option"

definition reload_if_needed :: "'r reload \<Rightarrow> 'r proxy_state \<Rightarrow> state_error + 'r proxy_state" where
  "reload_if_needed reload st =
     (case reload of
        Inl _ \<Rightarrow> Inl ReloadFailed
      | Inr None \<Rightarrow> Inr st
      | Inr (Some new_state) \<Rightarrow> Inr (new_state\<lparr>blocked := blocked st, blocked_total := blocked_total st\<rparr>))"

definition force_reload :: "unit + 'r proxy_state \<Rightarrow> 'r proxy_state \<Rightarrow> state_error + 'r proxy_state" where
  "force_reload reload st =
     (case reload of Inl _ \<Rightarrow> Inl ReloadFailed | Inr new_state \<Rightarrow> Inr (new_state\<lparr>blocked := blocked st\<rparr>))"

definition replace_config_state :: "'r reload \<Rightarrow> 'r proxy_state \<Rightarrow> 'r proxy_state \<Rightarrow> state_error + 'r proxy_state" where
  "replace_config_state reload new_state st =
     (case reload_if_needed reload st of
        Inl e \<Rightarrow> Inl e
      | Inr st \<Rightarrow> Inr (new_state\<lparr>blocked := blocked st, blocked_total := blocked_total st\<rparr>))"

subsection \<open>Hosts\<close>

datatype block_reason = DeniedHost | NotAllowedHost | NotAllowedLocal
datatype block_decision = AllowedHost | BlockedHost block_reason

text \<open>\<open>lookup\<close> is the DNS: nothing where it fails or takes too long.\<close>

definition host_resolves_to_non_public_ip :: "(string \<Rightarrow> nat \<Rightarrow> ip_addr list option) \<Rightarrow> string \<Rightarrow> nat \<Rightarrow> bool" where
  "host_resolves_to_non_public_ip lookup host port =
     (case parse_ip host of
        Some ip \<Rightarrow> is_non_public_ip ip
      | None \<Rightarrow> (case lookup host port of None \<Rightarrow> True | Some addrs \<Rightarrow> list_ex is_non_public_ip addrs))"

definition explicit_pattern :: "string \<Rightarrow> string \<Rightarrow> bool" where
  "explicit_pattern host pattern =
     (let pattern = trim pattern in
      if pattern = ''*'' \<or> starts_with pattern ''*.'' \<or> starts_with pattern ''**.'' then False
      else if CHR ''*'' \<in> set pattern \<or> CHR ''?'' \<in> set pattern then False
      else normalize_host pattern = host \<or> unscoped_ip_literal host = Some (normalize_host pattern))"

definition is_explicit_local_allowlisted :: "string list \<Rightarrow> string \<Rightarrow> bool" where
  "is_explicit_local_allowlisted allowed_domains host \<longleftrightarrow> list_ex (explicit_pattern host) allowed_domains"

definition local_literal :: "string \<Rightarrow> bool" where
  "local_literal host \<longleftrightarrow>
     (let host_no_scope = (case unscoped_ip_literal host of Some ip \<Rightarrow> ip | None \<Rightarrow> host) in
      if is_loopback_host host then True
      else (case parse_ip host_no_scope of Some ip \<Rightarrow> is_non_public_ip ip | None \<Rightarrow> False))"

definition host_decision ::
    "globs \<Rightarrow> (string \<Rightarrow> nat \<Rightarrow> ip_addr list option) \<Rightarrow> 'r proxy_state \<Rightarrow> string \<Rightarrow> nat \<Rightarrow> block_decision" where
  "host_decision g lookup st host port =
     (case host_parse host of
        None \<Rightarrow> BlockedHost NotAllowedHost
      | Some host \<Rightarrow>
          (let allowed_domains = net_allowed_domains (state_settings st) in
           if globset_matches_host_or_unscoped g (deny_set st) host then BlockedHost DeniedHost
           else if \<not> allow_local_binding (state_settings st) \<and>
             (if local_literal host then \<not> is_explicit_local_allowlisted (or_empty allowed_domains) host
              else host_resolves_to_non_public_ip lookup host port)
             then BlockedHost NotAllowedLocal
           else if allowed_domains = None \<or> \<not> globset_matches_host_or_unscoped g (allow_set st) host
             then BlockedHost NotAllowedHost
           else AllowedHost))"

definition host_blocked ::
    "globs \<Rightarrow> (string \<Rightarrow> nat \<Rightarrow> ip_addr list option) \<Rightarrow> 'r reload \<Rightarrow> 'r proxy_state \<Rightarrow> string \<Rightarrow> nat \<Rightarrow>
     state_error + block_decision \<times> 'r proxy_state" where
  "host_blocked g lookup reload st host port =
     (case reload_if_needed reload st of Inl e \<Rightarrow> Inl e | Inr st \<Rightarrow> Inr (host_decision g lookup st host port, st))"

subsection \<open>Decisions on requests\<close>

datatype network_policy_decision = PolicyDeny | PolicyAsk
datatype decision_source = BaselinePolicy | ModeGuard | ProxyState | Decider
datatype network_decision = NetworkAllow | NetworkDeny string decision_source network_policy_decision

fun block_reason_text :: "block_reason \<Rightarrow> string" where
  "block_reason_text DeniedHost = ''denied''"
| "block_reason_text NotAllowedHost = ''not_allowed''"
| "block_reason_text NotAllowedLocal = ''not_allowed_local''"

definition reason_or_default :: "string \<Rightarrow> string" where
  "reason_or_default reason = (if reason = [] then ''policy_denied'' else reason)"

definition deny_with_source :: "string \<Rightarrow> decision_source \<Rightarrow> network_decision" where
  "deny_with_source reason source = NetworkDeny (reason_or_default reason) source PolicyDeny"

definition ask_with_source :: "string \<Rightarrow> decision_source \<Rightarrow> network_decision" where
  "ask_with_source reason source = NetworkDeny (reason_or_default reason) source PolicyAsk"

fun map_decider_decision :: "network_decision \<Rightarrow> network_decision" where
  "map_decider_decision NetworkAllow = NetworkAllow"
| "map_decider_decision (NetworkDeny reason _ decision) = NetworkDeny reason Decider decision"

text \<open>The fields of a request that nothing here looks into are the type \<open>'q\<close>.\<close>

record 'q policy_request =
  req_host :: string
  req_port :: nat
  req_details :: 'q

definition evaluate_host_policy ::
    "globs \<Rightarrow> (string \<Rightarrow> nat \<Rightarrow> ip_addr list option) \<Rightarrow> 'r reload \<Rightarrow> 'r proxy_state \<Rightarrow>
     ('q policy_request \<Rightarrow> network_decision) option \<Rightarrow> 'q policy_request \<Rightarrow> state_error + network_decision \<times> 'r proxy_state" where
  "evaluate_host_policy g lookup reload st decider request =
     (case host_blocked g lookup reload st (req_host request) (req_port request) of
        Inl e \<Rightarrow> Inl e
      | Inr (decision, st) \<Rightarrow>
          Inr (case decision of
              AllowedHost \<Rightarrow> NetworkAllow
            | BlockedHost reason \<Rightarrow>
                if reason = NotAllowedHost then
                  (case decider of
                     Some decide \<Rightarrow> map_decider_decision (decide request)
                   | None \<Rightarrow> deny_with_source (block_reason_text NotAllowedHost) BaselinePolicy)
                else deny_with_source (block_reason_text reason) BaselinePolicy, st))"

subsection \<open>What has been blocked\<close>

definition MAX_BLOCKED_EVENTS :: nat where
  "MAX_BLOCKED_EVENTS = 200"

fun trim_blocked :: "'r list \<Rightarrow> 'r list" where
  "trim_blocked entries = (if MAX_BLOCKED_EVENTS < length entries then trim_blocked (tl entries) else entries)"

declare trim_blocked.simps [simp del]

definition record_blocked :: "'r reload \<Rightarrow> 'r proxy_state \<Rightarrow> 'r \<Rightarrow> state_error + 'r proxy_state" where
  "record_blocked reload st entry =
     (case reload_if_needed reload st of
        Inl e \<Rightarrow> Inl e
      | Inr st \<Rightarrow> Inr (st\<lparr>blocked := trim_blocked (blocked st @ [entry]), blocked_total := sat_add (blocked_total st) 1\<rparr>))"

definition blocked_snapshot :: "'r reload \<Rightarrow> 'r proxy_state \<Rightarrow> state_error + 'r list \<times> 'r proxy_state" where
  "blocked_snapshot reload st = map_sum id (\<lambda>st. (blocked st, st)) (reload_if_needed reload st)"

definition drain_blocked :: "'r reload \<Rightarrow> 'r proxy_state \<Rightarrow> state_error + 'r list \<times> 'r proxy_state" where
  "drain_blocked reload st = map_sum id (\<lambda>st. (blocked st, st\<lparr>blocked := []\<rparr>)) (reload_if_needed reload st)"

subsection \<open>Other questions\<close>

definition method_allowed :: "'r reload \<Rightarrow> 'r proxy_state \<Rightarrow> string \<Rightarrow> state_error + bool \<times> 'r proxy_state" where
  "method_allowed reload st method =
     map_sum id (\<lambda>st. (allows_method (net_mode (state_settings st)) method, st)) (reload_if_needed reload st)"

definition host_has_mitm_hooks :: "'r reload \<Rightarrow> 'r proxy_state \<Rightarrow> string \<Rightarrow> state_error + bool \<times> 'r proxy_state" where
  "host_has_mitm_hooks reload st host =
     map_sum id (\<lambda>st. (mitm_hooks st (normalize_host host) \<noteq> None, st)) (reload_if_needed reload st)"

definition evaluate_mitm_hook_request ::
    "http_tools \<Rightarrow> 'r reload \<Rightarrow> 'r proxy_state \<Rightarrow> string \<Rightarrow> http_request \<Rightarrow> state_error + hook_evaluation \<times> 'r proxy_state" where
  "evaluate_mitm_hook_request ht reload st host req =
     map_sum id (\<lambda>st. (evaluate_mitm_hooks ht (mitm_hooks st) host req, st)) (reload_if_needed reload st)"

text \<open>Sockets: \<open>supported\<close> is whether the system is macOS, \<open>canonical\<close> resolves links.\<close>

definition socket_entry_allows :: "path_env \<Rightarrow> (abs_path \<Rightarrow> abs_path option) \<Rightarrow> abs_path \<Rightarrow> string \<Rightarrow> bool" where
  "socket_entry_allows env canonical requested allowed =
     (case parse_socket_path env allowed of
        Some (NativePath path) \<Rightarrow>
          path = requested \<or>
          (case (canonical requested, canonical path) of (Some r, Some a) \<Rightarrow> a = r | _ \<Rightarrow> False)
      | _ \<Rightarrow> False)"

definition is_unix_socket_allowed ::
    "bool \<Rightarrow> path_env \<Rightarrow> (abs_path \<Rightarrow> abs_path option) \<Rightarrow> 'r reload \<Rightarrow> 'r proxy_state \<Rightarrow> string \<Rightarrow>
     state_error + bool \<times> 'r proxy_state" where
  "is_unix_socket_allowed supported env canonical reload st path =
     map_sum id (\<lambda>st.
       (if \<not> supported then False
        else if \<not> is_absolute path then False
        else if dangerously_allow_all_unix_sockets (state_settings st) then True
        else (case from_absolute_path env path of
                None \<Rightarrow> False
              | Some requested \<Rightarrow>
                  list_ex (socket_entry_allows env canonical requested) (net_allow_unix_sockets (state_settings st))), st))
       (reload_if_needed reload st)"

subsection \<open>Changes while the program runs\<close>

text \<open>
  The state is read, the change is checked, and written only if nothing has changed in between;
  otherwise the loop starts again. The \<open>i\<close>-th pass sees \<open>fst (passes i)\<close> when it reads and
  \<open>snd (passes i)\<close> when it writes. The loop may run forever.
\<close>

type_synonym 'r passes = "nat \<Rightarrow> (state_error + 'r proxy_state) \<times> 'r proxy_state"

partial_function (option) set_network_mode_loop ::
    "network_tools \<Rightarrow> 'r passes \<Rightarrow> network_mode \<Rightarrow> nat \<Rightarrow> (state_error + 'r proxy_state) option" where
  "set_network_mode_loop nt passes mode i =
     (case fst (passes i) of
        Inl e \<Rightarrow> Some (Inl e)
      | Inr st \<Rightarrow>
          (case validate_policy_against_constraints nt ((state_settings st)\<lparr>net_mode := mode\<rparr>) (state_constraints st) of
             Inl e \<Rightarrow> Some (Inl (BadConstraint e))
           | Inr _ \<Rightarrow>
               (let now = snd (passes i) in
                if state_constraints now \<noteq> state_constraints st then set_network_mode_loop nt passes mode (Suc i)
                else Some (Inr (now\<lparr>state_settings := (state_settings now)\<lparr>net_mode := mode\<rparr>\<rparr>)))))"

definition set_network_mode :: "network_tools \<Rightarrow> 'r passes \<Rightarrow> network_mode \<Rightarrow> (state_error + 'r proxy_state) option" where
  "set_network_mode nt passes mode = set_network_mode_loop nt passes mode 0"

datatype domain_list_kind = AllowList | DenyList

fun list_permission :: "domain_list_kind \<Rightarrow> domain_permission" where
  "list_permission AllowList = AllowDomain"
| "list_permission DenyList = DenyDomain"

fun list_entries :: "domain_list_kind \<Rightarrow> network_settings \<Rightarrow> string list" where
  "list_entries AllowList settings = or_empty (net_allowed_domains settings)"
| "list_entries DenyList settings = or_empty (net_denied_domains settings)"

fun opposite_list_entries :: "domain_list_kind \<Rightarrow> network_settings \<Rightarrow> string list" where
  "opposite_list_entries AllowList settings = or_empty (net_denied_domains settings)"
| "opposite_list_entries DenyList settings = or_empty (net_allowed_domains settings)"

definition holds_host :: "string \<Rightarrow> string list \<Rightarrow> bool" where
  "holds_host host entries \<longleftrightarrow> list_ex (\<lambda>entry. normalize_host entry = host) entries"

partial_function (option) update_domain_list_loop ::
    "network_tools \<Rightarrow> 'r passes \<Rightarrow> string \<Rightarrow> domain_list_kind \<Rightarrow> nat \<Rightarrow> (state_error + 'r proxy_state) option" where
  "update_domain_list_loop nt passes host target i =
     (case fst (passes i) of
        Inl e \<Rightarrow> Some (Inl e)
      | Inr st \<Rightarrow>
          (let settings = state_settings st in
           if holds_host host (list_entries target settings) \<and> \<not> holds_host host (opposite_list_entries target settings)
           then Some (Inr st)
           else (let candidate = upsert_domain_permission settings host (list_permission target) normalize_host in
             case validate_policy_against_constraints nt candidate (state_constraints st) of
               Inl e \<Rightarrow> Some (Inl (BadConstraint e))
             | Inr _ \<Rightarrow>
                 (case build_config_state nt candidate (state_constraints st) of
                    Inl e \<Rightarrow> Some (Inl e)
                  | Inr new_state \<Rightarrow>
                      (let now = snd (passes i) in
                       if state_constraints now \<noteq> state_constraints st \<or> state_settings now \<noteq> settings
                       then update_domain_list_loop nt passes host target (Suc i)
                       else Some (Inr (new_state\<lparr>blocked := blocked st, blocked_total := blocked_total st\<rparr>)))))))"

definition update_domain_list ::
    "network_tools \<Rightarrow> 'r passes \<Rightarrow> string \<Rightarrow> domain_list_kind \<Rightarrow> (state_error + 'r proxy_state) option" where
  "update_domain_list nt passes host target =
     (case host_parse host of
        None \<Rightarrow> Some (Inl InvalidHost)
      | Some normalized_host \<Rightarrow> update_domain_list_loop nt passes normalized_host target 0)"

definition add_allowed_domain :: "network_tools \<Rightarrow> 'r passes \<Rightarrow> string \<Rightarrow> (state_error + 'r proxy_state) option" where
  "add_allowed_domain nt passes host = update_domain_list nt passes host AllowList"

definition add_denied_domain :: "network_tools \<Rightarrow> 'r passes \<Rightarrow> string \<Rightarrow> (state_error + 'r proxy_state) option" where
  "add_denied_domain nt passes host = update_domain_list nt passes host DenyList"

subsection \<open>Loops that end\<close>

definition undisturbed :: "(state_error + 'r proxy_state) \<times> 'r proxy_state \<Rightarrow> bool" where
  "undisturbed pass \<longleftrightarrow>
     (case fst pass of
        Inl _ \<Rightarrow> True
      | Inr st \<Rightarrow> state_constraints (snd pass) = state_constraints st \<and> state_settings (snd pass) = state_settings st)"

lemma mode_loop_ends:
  "undisturbed (passes k) \<Longrightarrow> i \<le> k \<Longrightarrow> \<exists>r. set_network_mode_loop nt passes mode i = Some r"
proof (induction "k - i" arbitrary: i)
  case 0
  then have "undisturbed (passes i)" by simp
  then show ?case
    by (subst set_network_mode_loop.simps) (auto simp: undisturbed_def Let_def split: sum.splits)
next
  case (Suc n)
  then have "\<exists>r. set_network_mode_loop nt passes mode (Suc i) = Some r" by simp
  then show ?case
    by (subst set_network_mode_loop.simps) (auto simp: Let_def split: sum.splits)
qed

lemma update_loop_ends:
  "undisturbed (passes k) \<Longrightarrow> i \<le> k \<Longrightarrow> \<exists>r. update_domain_list_loop nt passes host target i = Some r"
proof (induction "k - i" arbitrary: i)
  case 0
  then have "undisturbed (passes i)" by simp
  then show ?case
    by (subst update_domain_list_loop.simps) (auto simp: undisturbed_def Let_def split: sum.splits)
next
  case (Suc n)
  then have "\<exists>r. update_domain_list_loop nt passes host target (Suc i) = Some r" by simp
  then show ?case
    by (subst update_domain_list_loop.simps) (auto simp: Let_def split: sum.splits)
qed

text \<open>
  (C33) The loops that change the mode and the domain lists end as soon as one pass finds the settings and
  constraints as it has read them: they cannot spin on their own.
\<close>

theorem updates_end_when_undisturbed:
  assumes "undisturbed (passes k)"
  shows "(\<exists>r. set_network_mode nt passes mode = Some r) \<and> (\<exists>r. update_domain_list nt passes host target = Some r)"
  using mode_loop_ends [of passes k 0, OF assms] update_loop_ends [of passes k 0, OF assms]
  by (simp add: set_network_mode_def update_domain_list_def split: option.split)

definition sample_state :: "nat proxy_state" where
  "sample_state =
     \<lparr>state_settings = sample_settings, allow_set = [''example.com'', ''?*.example.com''], deny_set = [''bad.example.com''],
      mitm_state = None, mitm_hooks = Map.empty, state_constraints = sample_constraints, blocked = [], blocked_total = 0\<rparr>"

theorem updates_end_when_undisturbed_witness:
  "\<exists>r. update_domain_list sample_network_tools (\<lambda>i. (Inr sample_state, if i < 3 then sample_state\<lparr>state_settings := default_settings\<rparr>
     else sample_state)) ''evil.example.com'' DenyList = Some r"
  using updates_end_when_undisturbed [of "\<lambda>i. (Inr sample_state, if i < 3 then sample_state\<lparr>state_settings := default_settings\<rparr>
     else sample_state)" 3] by (simp add: undisturbed_def)

subsection \<open>A denied domain\<close>

lemma parse_ip_star: "parse_ip (CHR ''*'' # s) = None" "parse_ip [] = None"
  by (simp_all add: parse_ip_def read_ipv4_addr_def read_ipv6_addr_def read_separator_def read_number_def to_digit_def
    numeral_nat)

lemma scoped_star: "scoped_ip_literal (CHR ''%'' # d) (CHR ''*'' # s) = None"
proof (cases "split_once_str (CHR ''%'' # d) (CHR ''*'' # s)")
  case (Some p)
  then obtain i where "str_find (CHR ''%'' # d) (CHR ''*'' # s) = Some i" "fst p = take i (CHR ''*'' # s)"
    by (auto simp: split_once_str_def)
  moreover from this(1) have "i \<noteq> 0" by (auto simp: starts_with_iff split: if_splits)
  ultimately obtain t where "fst p = CHR ''*'' # t" by (cases i) auto
  with Some show ?thesis by (cases p) (simp add: scoped_ip_literal_def parse_ip_star)
qed (simp add: scoped_ip_literal_def)

lemma trim_end_star: "\<exists>x. trim_end_char CHR ''.'' (CHR ''*'' # s) = CHR ''*'' # x"
proof -
  have "dropWhile (\<lambda>x. x = CHR ''.'') (rev s @ [CHR ''*'']) = dropWhile (\<lambda>x. x = CHR ''.'') (rev s) @ [CHR ''*'']"
    by (induction "rev s" arbitrary: s) (auto simp: dropWhile_append)
  then show ?thesis by (auto simp: trim_end_char_def)
qed

lemma normalize_dns_star: "\<exists>x. normalize_dns_host_or_ip_literal (CHR ''*'' # s) = CHR ''*'' # x"
proof -
  have "ascii_lower CHR ''*'' = CHR ''*''" by (simp add: ascii_lower_def)
  then obtain x where "trim_end_char CHR ''.'' (str_lower (CHR ''*'' # s)) = CHR ''*'' # x" using trim_end_star by fastforce
  then show ?thesis
    by (simp add: normalize_dns_host_or_ip_literal_def normalize_ip_literal_def parse_ip_star scoped_star Let_def)
qed

lemma normalize_host_star:
  assumes "trim e = CHR ''*'' # s"
  shows "\<exists>x. normalize_host e = CHR ''*'' # x"
proof -
  have "\<exists>t. hd (split_on CHR '':'' (CHR ''*'' # s)) = CHR ''*'' # t" by (auto split: list.split)
  then show ?thesis using normalize_dns_star assms by (auto simp: normalize_host_def starts_with_def Let_def)
qed

text \<open>A host in a stable normal form that is no wildcard.\<close>

definition plain_host :: "string \<Rightarrow> bool" where
  "plain_host h \<longleftrightarrow> h \<noteq> [] \<and> hd h \<noteq> CHR ''*'' \<and> trim h = h \<and> normalize_host h = h"

lemma plain_globs:
  assumes "plain_host h" and "normalize_host e = h"
  shows "expand_domain_pattern (normalize_pattern e) = [h]"
proof -
  have "hd (trim e) \<noteq> CHR ''*''" if "trim e \<noteq> []"
  proof
    assume "hd (trim e) = CHR ''*''"
    with that have "trim e = CHR ''*'' # tl (trim e)" by (cases "trim e") auto
    from normalize_host_star [OF this] assms show False by (auto simp: plain_host_def)
  qed
  then have star: "strip_prefix (CHR ''*'' # p) (trim e) = None" for p by (cases "trim e") auto
  have "trim e \<noteq> ''*''" using star [of "[]"] by auto
  with star have "normalize_pattern e = normalize_host (trim e)" by (simp add: normalize_pattern_def Let_def)
  moreover have "normalize_host (trim e) = normalize_host e" by (simp add: normalize_host_def trim_idem)
  moreover have "strip_prefix (CHR ''*'' # p) h = None" for p using assms(1) by (cases h) (auto simp: plain_host_def)
  ultimately show ?thesis
    using assms by (simp add: plain_host_def expand_domain_pattern_def parse_domain_pattern_def)
qed

lemma effective_patterns: "fst ` set (effective_entries entries) = fst ` set entries"
proof -
  have step: "fst ` set (raise_permission entry seen) = insert (fst entry) (fst ` set seen)" for entry seen
    by (cases entry) (force simp: raise_permission_def)
  have "fst ` set (fold raise_permission entries seen) = fst ` set seen \<union> fst ` set entries" for seen
    by (induction entries arbitrary: seen) (auto simp: step)
  from this [of "[]"] show ?thesis by (simp add: effective_entries_def)
qed

lemma upserted_entry:
  assumes "normalize_host h = h"
  shows "h \<in> set (list_entries target (upsert_domain_permission settings h (list_permission target) normalize_host))"
proof -
  let ?kept = "filter (\<lambda>(pattern, _). normalize_host pattern \<noteq> h) (or_empty (net_domains settings))"
  have "h \<notin> fst ` set (effective_entries ?kept)" using assms by (auto simp: effective_patterns)
  then have "effective_entries (?kept @ [(h, p)]) = effective_entries ?kept @ [(h, p)]" for p
    by (simp add: effective_entries_def raise_permission_def)
  then show ?thesis
    by (cases target) (auto simp: upsert_domain_permission_def some_entries_def assms net_allowed_domains_def net_denied_domains_def
      domain_entries_def or_empty_def Let_def)
qed

text \<open>The deny list of a state is that of its settings.\<close>

definition deny_set_built :: "network_tools \<Rightarrow> 'r proxy_state \<Rightarrow> bool" where
  "deny_set_built nt st \<longleftrightarrow>
     compile_denylist_globset (tool_globs nt) (or_empty (net_denied_domains (state_settings st))) = Inr (deny_set st)"

lemma built_state:
  assumes "build_config_state nt settings constraints = Inr st"
  shows "deny_set_built nt st \<and> state_settings st = settings \<and> state_constraints st = constraints"
  using assms by (auto simp: build_config_state_def deny_set_built_def split: sum.splits if_splits)

definition update_outcome ::
    "network_tools \<Rightarrow> 'r passes \<Rightarrow> string \<Rightarrow> domain_list_kind \<Rightarrow> state_error + 'r proxy_state \<Rightarrow> bool" where
  "update_outcome nt passes host target r \<longleftrightarrow>
     (\<forall>st'. r = Inr st' \<longrightarrow> (\<exists>j st. fst (passes j) = Inr st \<and>
       (st' = st \<and> holds_host host (list_entries target (state_settings st)) \<or>
        (\<exists>new_state. build_config_state nt (upsert_domain_permission (state_settings st) host (list_permission target) normalize_host)
            (state_constraints st) = Inr new_state \<and>
          st' = new_state\<lparr>blocked := blocked st, blocked_total := blocked_total st\<rparr>))))"

lemma update_outcomeI:
  "Inl e = r \<Longrightarrow> update_outcome nt passes host target r"
  "fst (passes j) = r \<Longrightarrow> holds_host host (list_entries target (state_settings st)) \<Longrightarrow> Inr st = r \<Longrightarrow>
     update_outcome nt passes host target r"
  "fst (passes j) = Inr st \<Longrightarrow>
     build_config_state nt (upsert_domain_permission (state_settings st) host (list_permission target) normalize_host)
       (state_constraints st) = Inr new_state \<Longrightarrow>
     Inr (new_state\<lparr>blocked := blocked st, blocked_total := blocked_total st\<rparr>) = r \<Longrightarrow>
     update_outcome nt passes host target r"
  by (auto simp: update_outcome_def) blast+

lemma update_result:
  assumes "update_domain_list_loop nt passes host target i = Some r"
  shows "update_outcome nt passes host target r"
proof (rule update_domain_list_loop.raw_induct [where P = "\<lambda>nt passes host target i. update_outcome nt passes host target", OF _ assms])
  fix loop :: "network_tools \<Rightarrow> 'a passes \<Rightarrow> string \<Rightarrow> domain_list_kind \<Rightarrow> nat \<Rightarrow> (state_error + 'a proxy_state) option"
    and nt and passes :: "'a passes" and host target i r
  assume IH: "\<And>nt passes host target i r. loop nt passes host target i = Some r \<Longrightarrow> update_outcome nt passes host target r"
  assume body: "(case fst (passes i) of
        Inl e \<Rightarrow> Some (Inl e)
      | Inr st \<Rightarrow>
          (let settings = state_settings st in
           if holds_host host (list_entries target settings) \<and> \<not> holds_host host (opposite_list_entries target settings)
           then Some (Inr st)
           else (let candidate = upsert_domain_permission settings host (list_permission target) normalize_host in
             case validate_policy_against_constraints nt candidate (state_constraints st) of
               Inl e \<Rightarrow> Some (Inl (BadConstraint e))
             | Inr _ \<Rightarrow>
                 (case build_config_state nt candidate (state_constraints st) of
                    Inl e \<Rightarrow> Some (Inl e)
                  | Inr new_state \<Rightarrow>
                      (let now = snd (passes i) in
                       if state_constraints now \<noteq> state_constraints st \<or> state_settings now \<noteq> settings
                       then loop nt passes host target (Suc i)
                       else Some (Inr (new_state\<lparr>blocked := blocked st, blocked_total := blocked_total st\<rparr>))))))) = Some r"
  show "update_outcome nt passes host target r"
  proof (cases "fst (passes i)")
    case (Inl e)
    with body show ?thesis by (auto intro: update_outcomeI(1))
  next
    case (Inr st)
    from body Inr IH [of nt passes host target "Suc i" r] show ?thesis
      by (simp add: Let_def split: if_splits sum.split_asm)
        (erule update_outcomeI(1) | rule update_outcomeI(2), assumption+ | rule update_outcomeI(3), assumption+)+
  qed
qed

lemma denied_host_is_blocked:
  assumes "deny_set_built nt st" and "holds_host h (list_entries DenyList (state_settings st))"
    and "plain_host h" and "glob_matches (tool_globs nt) h h"
  shows "is_match (tool_globs nt) (deny_set st) h"
proof -
  from assms(2) obtain e where e: "e \<in> set (or_empty (net_denied_domains (state_settings st)))" "normalize_host e = h"
    by (auto simp: holds_host_def list_ex_iff)
  have "h \<in> set (deny_set st)"
    using assms(1) e compiled_globs plain_globs [OF assms(3) e(2)]
    by (fastforce simp: deny_set_built_def compile_denylist_globset_def)
  with assms(4) show ?thesis by (auto simp: is_match_def list_ex_iff)
qed

lemma denied_update:
  assumes added: "update_domain_list_loop nt passes h DenyList i = Some (Inr st')"
    and read: "\<And>j st. fst (passes j) = Inr st \<Longrightarrow> deny_set_built nt st"
    and stable: "normalize_host h = h"
  shows "deny_set_built nt st' \<and> holds_host h (list_entries DenyList (state_settings st'))"
proof -
  obtain j st where st: "fst (passes j) = Inr st"
    and cases: "st' = st \<and> holds_host h (list_entries DenyList (state_settings st)) \<or>
      (\<exists>new_state. build_config_state nt (upsert_domain_permission (state_settings st) h (list_permission DenyList) normalize_host)
          (state_constraints st) = Inr new_state \<and> st' = new_state\<lparr>blocked := blocked st, blocked_total := blocked_total st\<rparr>)"
    using update_result [OF added] by (auto simp: update_outcome_def)
  from cases show ?thesis
  proof
    assume "st' = st \<and> holds_host h (list_entries DenyList (state_settings st))"
    with read [OF st] show ?thesis by simp
  next
    assume "\<exists>new_state. build_config_state nt (upsert_domain_permission (state_settings st) h (list_permission DenyList) normalize_host)
          (state_constraints st) = Inr new_state \<and> st' = new_state\<lparr>blocked := blocked st, blocked_total := blocked_total st\<rparr>"
    then obtain new_state where built: "build_config_state nt (upsert_domain_permission (state_settings st) h (list_permission DenyList)
        normalize_host) (state_constraints st) = Inr new_state" and st': "st' = new_state\<lparr>blocked := blocked st, blocked_total := blocked_total st\<rparr>"
      by auto
    from built_state [OF built] upserted_entry [OF stable, of DenyList "state_settings st"] stable st' show ?thesis
      by (auto simp: deny_set_built_def holds_host_def list_ex_iff)
  qed
qed



subsection \<open>Requests that are let through\<close>

text \<open>The addresses a connection to a host can end at.\<close>

definition reached_addresses :: "(string \<Rightarrow> nat \<Rightarrow> ip_addr list option) \<Rightarrow> string \<Rightarrow> nat \<Rightarrow> ip_addr list option" where
  "reached_addresses lookup host port = (case parse_ip host of Some ip \<Rightarrow> Some [ip] | None \<Rightarrow> lookup host port)"

lemma public_host:
  "\<not> host_resolves_to_non_public_ip lookup host port \<Longrightarrow>
   \<exists>addrs. reached_addresses lookup host port = Some addrs \<and> (\<forall>ip \<in> set addrs. \<not> is_non_public_ip ip)"
  by (auto simp: host_resolves_to_non_public_ip_def reached_addresses_def list_ex_iff split: option.splits)

definition named_by_allow_list :: "'r proxy_state \<Rightarrow> string \<Rightarrow> bool" where
  "named_by_allow_list st h \<longleftrightarrow>
     (\<exists>pattern \<in> set (or_empty (net_allowed_domains (state_settings st))).
        CHR ''*'' \<notin> set (trim pattern) \<and> CHR ''?'' \<notin> set (trim pattern) \<and>
        (normalize_host pattern = h \<or> unscoped_ip_literal h = Some (normalize_host pattern)))"

lemma explicitly_named:
  "is_explicit_local_allowlisted (or_empty (net_allowed_domains (state_settings st))) h \<Longrightarrow> named_by_allow_list st h"
proof -
  assume "is_explicit_local_allowlisted (or_empty (net_allowed_domains (state_settings st))) h"
  then obtain pattern where pattern: "pattern \<in> set (or_empty (net_allowed_domains (state_settings st)))" "explicit_pattern h pattern"
    by (auto simp: is_explicit_local_allowlisted_def list_ex_iff)
  moreover have "normalize_host (trim pattern) = normalize_host pattern" by (simp add: normalize_host_def trim_idem)
  ultimately show ?thesis
    unfolding named_by_allow_list_def explicit_pattern_def Let_def by (metis (full_types))
qed

text \<open>
  (C27) A request that is let through does not go to a denied host, even where the decider allows it. Without
  local binding every address its host resolves to is public, unless the host is a local name or address that an
  entry of the allowed domains spells out without wildcards; a host that cannot be looked up is not reached.
  And the allowed domains cover the host, or the decider has allowed this request.
\<close>

theorem allowed_requests_reach_public_hosts:
  assumes "evaluate_host_policy g lookup reload st decider request = Inr (NetworkAllow, st')"
    and "host_parse (req_host request) = Some h"
  shows "\<not> globset_matches_host_or_unscoped g (deny_set st') h \<and>
    (allow_local_binding (state_settings st') \<or> local_literal h \<and> named_by_allow_list st' h \<or>
      (\<exists>addrs. reached_addresses lookup h (req_port request) = Some addrs \<and> (\<forall>ip \<in> set addrs. \<not> is_non_public_ip ip))) \<and>
    (globset_matches_host_or_unscoped g (allow_set st') h \<and> net_allowed_domains (state_settings st') \<noteq> None \<or>
      (\<exists>decide. decider = Some decide \<and> decide request = NetworkAllow))"
proof -
  have blocked: "host_blocked g lookup reload st (req_host request) (req_port request) =
      Inr (host_decision g lookup st' (req_host request) (req_port request), st')"
    using assms(1) by (auto simp: evaluate_host_policy_def host_blocked_def split: sum.splits)
  have decided: "host_decision g lookup st' (req_host request) (req_port request) = AllowedHost \<or>
      host_decision g lookup st' (req_host request) (req_port request) = BlockedHost NotAllowedHost \<and>
      (\<exists>decide. decider = Some decide \<and> decide request = NetworkAllow)"
    using assms(1) unfolding evaluate_host_policy_def blocked
    by (auto simp: deny_with_source_def split: block_decision.splits if_splits option.splits elim: map_decider_decision.elims)
  with assms(2) public_host [of lookup h "req_port request"] explicitly_named [of st' h] show ?thesis
    by (cases "net_allowed_domains (state_settings st')") (auto simp: host_decision_def Let_def split: if_splits)
qed

theorem allowed_requests_reach_public_hosts_witness:
  "\<not> globset_matches_host_or_unscoped sample_globs [''bad.example.com''] ''www.example.com''"
proof -
  define request where "request = \<lparr>req_host = ''www.example.com'', req_port = 443, req_details = ()\<rparr>"
  define lookup where "lookup = (\<lambda>(h :: string) (p :: nat). Some [IpV4 (from_octets [93, 184, 216, 34])])"
  have "host_decision sample_globs lookup sample_state ''www.example.com'' 443 = AllowedHost"
    unfolding lookup_def by code_simp
  then have allowed: "evaluate_host_policy sample_globs lookup (Inr None) sample_state None request = Inr (NetworkAllow, sample_state)"
    by (simp add: evaluate_host_policy_def host_blocked_def reload_if_needed_def request_def)
  have "host_parse (req_host request) = Some ''www.example.com''" unfolding request_def by code_simp
  from allowed_requests_reach_public_hosts [OF allowed this] show ?thesis by (simp add: sample_state_def)
qed

subsection \<open>The record of blocked requests\<close>

lemma trim_blocked_last: "trim_blocked entries = last_part MAX_BLOCKED_EVENTS entries"
proof (induction entries rule: trim_blocked.induct)
  case (1 entries)
  show ?case
  proof (cases "MAX_BLOCKED_EVENTS < length entries")
    case True
    then obtain x xs where "entries = x # xs" by (cases entries) auto
    with 1 True show ?thesis
      by (subst trim_blocked.simps) (simp add: last_part_def Suc_diff_le)
  qed (subst trim_blocked.simps, simp add: last_part_all)
qed

text \<open>Requests that are blocked one after another, each with the reload that goes before it.\<close>

fun record_all :: "('r reload \<times> 'r) list \<Rightarrow> 'r proxy_state \<Rightarrow> state_error + 'r proxy_state" where
  "record_all [] st = Inr st"
| "record_all ((reload, entry) # events) st =
     (case record_blocked reload st entry of Inl e \<Rightarrow> Inl e | Inr st \<Rightarrow> record_all events st)"

lemma recorded:
  "record_blocked reload st entry = Inr st' \<Longrightarrow>
   blocked st' = last_part MAX_BLOCKED_EVENTS (blocked st @ [entry]) \<and> blocked_total st' = sat_add (blocked_total st) 1"
  by (auto simp: record_blocked_def reload_if_needed_def trim_blocked_last split: sum.splits option.splits)

lemma last_part_snoc: "last_part n (last_part n xs @ ys) = last_part n (xs @ ys)"
proof (cases "length xs \<le> n")
  case True
  then show ?thesis by (simp add: last_part_all)
next
  case False
  then have "length ys + (length xs - n) = length xs + length ys - n" by simp
  with False show ?thesis by (simp add: last_part_def add.commute)
qed



subsection \<open>Where the code departs from its intent\<close>

text \<open>A forced reload keeps the record of blocked requests and forgets how many they were in all.\<close>

lemma forced_reload_forgets_the_total:
  assumes "build_config_state nt settings constraints = Inr new_state" and "force_reload (Inr new_state) st = Inr st'"
  shows "blocked st' = blocked st \<and> blocked_total st' = 0"
  using assms by (auto simp: force_reload_def build_config_state_def split: sum.splits if_splits)

text \<open>
  A change of a domain list writes back the record as it was when the pass began: a request blocked in between is
  lost, since the pass looks only at the settings and constraints.
\<close>

lemma update_loses_the_record_between:
  assumes "update_domain_list_loop nt (\<lambda>i. (Inr st, st\<lparr>blocked := entries\<rparr>)) h target 0 = Some (Inr st')"
  shows "blocked st' = blocked st"
proof -
  have "\<not> (state_constraints (st\<lparr>blocked := entries\<rparr>) \<noteq> state_constraints st \<or>
      state_settings (st\<lparr>blocked := entries\<rparr>) \<noteq> state_settings st)"
    by simp
  with assms show ?thesis
    by (subst (asm) update_domain_list_loop.simps) (auto simp: Let_def split: if_splits sum.splits)
qed

text \<open>The normal form of a host is not always stable, so the entry a denied host leaves can be read as another host.\<close>

lemma normal_form_is_not_stable:
  "host_parse ''[a:1]'' = Some ''a:1''" "normalize_host ''a:1'' = ''a''"
  "expand_domain_pattern (normalize_pattern ''a:1'') = [''a'']"
  by code_simp+

end
