(* ===== verification/Spec2Isabelle.thy ===== *)
theory Spec2Isabelle
  imports Rust_Prelude Patch_Parser Patch_Streaming Patch_Grammar Patch_Apply Patch_Files Rust_Utf8 Direct_Fs
    Text_Stream Inline_Tags Tagged_Lines Assistant_Text Exec_Rules Exec_Policy Policy_Language Policy_Amend
    Shell_Words Command_Safety Exec_Approval Output_Buffer Text_Cut Absolute_Paths Protocol_Types File_Permissions
    Writable_Roots Patch_Invocation Patch_Safety Chat_Tokens Network_Proxy
begin

text \<open>
  This is a verification library for the Rust core of \<open>codex-rs\<close>, the coding agent of this
  repository. It models, in the order data flows through the program:

  \<^item> the patch language. A model answers with a patch text; the \<open>apply-patch\<close> crate parses it, in
    one go or while it streams in, finds the place of every chunk in the file, and changes the disk;
  \<^item> the file system the patch code calls (\<open>file-system\<close>, \<open>exec-server\<close>);
  \<^item> the text parsers that hide citations and plan blocks while an answer streams in
    (\<open>utils/stream-parser\<close>);
  \<^item> the approval rules that decide whether a command or a network access runs, asks, or is refused
    (\<open>execpolicy\<close>), the lowering of a shell script to the commands it runs and the built-in
    knowledge of safe and dangerous commands (\<open>shell-command\<close>), and the approval logic of the core
    that puts them together (\<open>core/src/exec_policy.rs\<close>);
  \<^item> the permissions of the sandbox: which paths a command may read and write, and the roots that are
    handed to the sandboxes (\<open>protocol/src/permissions.rs\<close>, over \<open>utils/absolute-path\<close>);
  \<^item> what becomes of the output of a command: the capped buffer that collects it and the truncation
    before it goes back to the model (\<open>unified_exec/head_tail_buffer.rs\<close>, \<open>utils/string\<close>,
    \<open>utils/output-truncation\<close>);
  \<^item> the conversation that goes to the model: what is recorded, how calls and outputs stay paired, how
    turns are rolled back, and the estimate of its tokens (\<open>core/src/context_manager\<close>);
  \<^item> the policy of the network proxy that commands reach the network through: addresses, host names and
    domain patterns, hooks on intercepted requests, settings under managed constraints, and the
    state that decides and records (\<open>network-proxy\<close>).

  \<^bold>\<open>Strings.\<close> A Rust \<open>str\<close> is a list of bytes, written as a \<open>string\<close>: one \<open>char\<close> per byte, so that
  \<open>length\<close> is \<open>str::len\<close>. \<open>Rust_Prelude\<close> has the operations of the standard library on them
  (\<open>trim\<close>, \<open>split\<close>, \<open>lines\<close>, \<open>strip_prefix\<close>, \<open>find\<close>, \<open>chars\<close>), and \<open>Rust_Utf8\<close> has
  \<open>str::from_utf8\<close> with its two kinds of error.

  \<^bold>\<open>Errors, panics, loops.\<close> A \<open>Result\<close> is a sum with the error on the left, a possible panic is an
  \<open>option\<close>, a \<open>&mut self\<close> is state passed in and returned. A loop of the code is a recursion
  that is proved to end, except the two retry loops of \<open>Network_Proxy\<close>: these may spin while others
  write, so they are \<open>partial_function (option)\<close>, with a proof that one undisturbed pass ends
  them. No fuel is used anywhere.

  \<^bold>\<open>Theories.\<close>
  \<^item> \<open>Rust_Prelude\<close>: strings, lists and options as the standard library has them, with the lemmas
    that the components share.
  \<^item> \<open>Patch_Parser\<close>: \<open>parser.rs\<close>, \<open>parse_patch\<close> with boundaries, preamble, hunks and chunks.
  \<^item> \<open>Patch_Streaming\<close>: \<open>streaming_parser.rs\<close>, the parser behind the live preview: it does not
    depend on how the text is cut, its preview only grows, and what it accepts is complete.
  \<^item> \<open>Patch_Grammar\<close>: the patch language as documents and their text; both parsers read a document
    back from its text.
  \<^item> \<open>Patch_Apply\<close>: \<open>seek_sequence.rs\<close> and the pure half of \<open>lib.rs\<close>: finding the lines of a chunk
    and replacing them, with a script as its specification.
  \<^item> \<open>Patch_Files\<close>: the effectful half of \<open>lib.rs\<close>: \<open>apply_hunks_to_files\<close> and its delta over the
    \<open>ExecutorFileSystem\<close> trait.
  \<^item> \<open>Direct_Fs\<close>: \<open>local_file_system.rs\<close>, \<open>DirectFileSystem\<close> over the operating system; an exact
    delta replays and undoes.
  \<^item> \<open>Rust_Utf8\<close>, \<open>Text_Stream\<close>: decoding and \<open>utf8_stream.rs\<close>, \<open>stream_text.rs\<close>.
  \<^item> \<open>Inline_Tags\<close>: \<open>inline_hidden_tag.rs\<close>, \<open>citation.rs\<close>. \<open>Tagged_Lines\<close>: \<open>tagged_line_parser.rs\<close>,
    \<open>proposed_plan.rs\<close>. \<open>Assistant_Text\<close>: \<open>assistant_text.rs\<close>, both together.
  \<^item> \<open>Exec_Rules\<close>: \<open>decision.rs\<close>, \<open>error.rs\<close>, \<open>rule.rs\<close>, \<open>executable_name.rs\<close> of \<open>execpolicy\<close>: decisions
    in their order of strictness, prefix patterns, canonical hosts.
  \<^item> \<open>Exec_Policy\<close>: \<open>policy.rs\<close>: the index by program is complete, checks are total and strictest, an
    overlay never loosens, resolution through file names is gated, domain lists follow the last rule.
  \<^item> \<open>Policy_Language\<close>: \<open>parser.rs\<close>: what the builtins of a rules file build, and that the examples of
    an accepted file hold. \<open>Policy_Amend\<close>: \<open>amend.rs\<close>, storing an approval.
  \<^item> \<open>Shell_Words\<close>: \<open>shell_detect.rs\<close>, \<open>bash.rs\<close> of \<open>shell-command\<close>: a script is lowered to the plain
    commands it runs, over the syntax tree of the parser; nothing in the tree is passed over.
  \<^item> \<open>Command_Safety\<close>: \<open>is_dangerous_command.rs\<close>, \<open>is_safe_command.rs\<close>, \<open>windows_safe_commands.rs\<close>: what
    is approved is on the lists only, git commands read only, and no command is both safe and
    dangerous.
  \<^item> \<open>Exec_Approval\<close>: \<open>core/src/exec_policy.rs\<close>: from a command to run, ask or refuse; what is bypassed,
    what is final, that every request is answered, what is proposed and stored, and loading.
  \<^item> \<open>Protocol_Types\<close>: the approval policies and permission profiles of \<open>protocol\<close>. \<open>Absolute_Paths\<close>:
    \<open>absolutize.rs\<close> and \<open>AbsolutePathBuf\<close>.
  \<^item> \<open>File_Permissions\<close>: \<open>FileSystemSandboxPolicy\<close>: the most specific entry decides, full access is
    access to every path, metadata needs an entry of its own, additional roots only widen.
  \<^item> \<open>Writable_Roots\<close>: \<open>workspace_write\<close> and the roots handed to sandboxes: what they confine, and
    that a root lets nothing through that the policy denies.
  \<^item> \<open>Output_Buffer\<close>: \<open>HeadTailBuffer\<close> keeps both ends of the output. \<open>Text_Cut\<close>: \<open>truncate.rs\<close> and the
    truncation of tool results to a budget.
  \<^item> \<open>Patch_Invocation\<close>: \<open>invocation.rs\<close> of \<open>apply-patch\<close>: which commands call for a patch, and what the
    patch is shown to change; what is shown is what happens.
  \<^item> \<open>Patch_Safety\<close>: \<open>core/src/safety.rs\<close>, \<open>core/src/apply_patch.rs\<close>: whether a patch runs without a
    question; one that does stays within the writable paths.
  \<^item> \<open>Response_Items\<close>: the items of \<open>protocol/src/models.rs\<close>, and which messages are context or begin a
    turn. \<open>History_Normalize\<close>: \<open>normalize.rs\<close>, prompts are well formed. \<open>Chat_History\<close>: the
    operations of \<open>ContextManager\<close>; rolling back removes the last turns. \<open>Chat_Tokens\<close>: the
    token estimate of \<open>history.rs\<close>, its bounds, and that recording never lowers it.
  \<^item> \<open>Network_Addresses\<close>, \<open>Network_Hosts\<close>: \<open>network-proxy/src/policy.rs\<close>: addresses that are not public are
    those of a table of blocks; hosts, patterns, and that the comparison of patterns is exact.
  \<^item> \<open>Network_Hooks\<close>: \<open>mitm_hook.rs\<close>: hooks that pass the check compile but for their secrets.
    \<open>Network_Settings\<close>: \<open>config.rs\<close> and the managed constraints of \<open>state.rs\<close>: what passes the check stays within them.
  \<^item> \<open>Network_Proxy\<close>: \<open>runtime.rs\<close>, \<open>build_config_state\<close>, \<open>network_policy.rs\<close>: what is let through reaches
    public hosts, a denied domain takes effect, updates end, the record keeps the last blocked requests.

  \<^bold>\<open>Interfaces.\<close> \<open>os_files\<close> (what the calls of the operating system keep) gives \<open>text_fs\<close>, the
  interface the patch code uses, by \<open>sublocale\<close>; it is interpreted on an in-memory disk.
  \<open>text_stream\<close> is the \<open>StreamTextParser\<close> trait with the law that cutting text does not matter,
  interpreted on the hidden tag, citation and plan parsers. \<open>policy_rule\<close> is the
  \<open>Rule\<close> trait with the law that a rule matches commands of its own program only, interpreted on
  prefix rules. \<open>rule_file\<close> is what appending to a rules file needs of the file calls, interpreted
  on files in memory.

  \<^bold>\<open>Not modelled.\<close> Asynchrony, tracing and the sandboxed file system are left out: an \<open>await\<close> is a
  call, and no operation of the file system runs between two calls of one patch. The unified diff
  that is shown to the user comes from another crate. The operating system is a parameter with
  named laws; the shell and Starlark parsers and the quoting of \<open>shlex\<close> are parameters. Code for Windows
  is left out, except the PowerShell safelist, which runs everywhere. The conversions between the
  permissions and the legacy sandbox policy are left out, and so is the glob matcher. Of the network proxy
  the servers, certificates, audit events and listening addresses are left out; globs, the URL parser and the DNS
  are parameters, and a reload is an argument of each operation. The terminal and desktop interfaces, the session loop, the app server, the model
  client, MCP and the state database are not modelled: they are mostly input, output and calls
  of other crates.
\<close>

section \<open>A patch text applied to a disk\<close>



text \<open>
  A rename whose destination is the file itself writes the new contents and then removes them:
  the patch succeeds and the file is gone.
\<close>

lemma self_move_deletes_file:
  "(case apply_patch (direct_fs disk_os) disk_paths to_string to_string
      (render_text None [DocUpdate ''a.txt'' (Some ''a.txt'') [DocChunk None [Removed ''two'', Added ''2''] False]])
      ''/w'' sample_disk [] of (s', w', r) \<Rightarrow> (isl r, disk_files s' ''/w/a.txt'')) = (False, None)"
  by code_simp

end
